(* ===== verification/Prelude.thy ===== *)
theory Prelude
  imports Complex_Main "HOL-Library.Monad_Syntax" "HOL-Library.Code_Target_Nat" "HOL-Library.Multiset"
begin

text \<open>
  What every component shares: the fixed-width integers of Go with their wrap-around written
  out, the printing and reading of decimal numbers (the \<^verbatim>\<open>%d\<close> of \<^verbatim>\<open>fmt\<close> and
  \<^verbatim>\<open>strconv\<close>), the outcome of a Go call (a value, an error or a panic), and list lemmas.
  The collection \<open>go_simps\<close> holds the rewrite rules that unfold the small operations of the
  language; component proofs use \<open>simp add: go_simps\<close>.
\<close>

named_theorems go_simps \<open>unfolding rules for the small operations of the Go language\<close>

section \<open>Fixed-width integers\<close>

text \<open>A Go \<^verbatim>\<open>int32\<close> or \<^verbatim>\<open>int64\<close> is an \<open>int\<close> in range; a conversion wraps around.\<close>

definition in_int32 :: "int \<Rightarrow> bool" where
  "in_int32 x \<longleftrightarrow> -2147483648 \<le> x \<and> x \<le> 2147483647"

definition in_int64 :: "int \<Rightarrow> bool" where
  "in_int64 x \<longleftrightarrow> -9223372036854775808 \<le> x \<and> x \<le> 9223372036854775807"

definition to_int32 :: "int \<Rightarrow> int" where
  "to_int32 x = (x + 2147483648) mod 4294967296 - 2147483648"

definition to_int64 :: "int \<Rightarrow> int" where
  "to_int64 x = (x + 9223372036854775808) mod 18446744073709551616 - 9223372036854775808"

lemma to_int32_id [simp]: "in_int32 x \<Longrightarrow> to_int32 x = x"
  by (simp add: in_int32_def to_int32_def)

lemma to_int64_id [simp]: "in_int64 x \<Longrightarrow> to_int64 x = x"
  by (simp add: in_int64_def to_int64_def)

lemma in_int32_to_int32 [simp]: "in_int32 (to_int32 x)"
proof -
  have "0 \<le> (x + 2147483648) mod 4294967296" and "(x + 2147483648) mod 4294967296 < 4294967296"
    by simp_all
  then show ?thesis by (simp add: in_int32_def to_int32_def)
qed

lemma in_int64_to_int64 [simp]: "in_int64 (to_int64 x)"
proof -
  have "0 \<le> (x + 9223372036854775808) mod 18446744073709551616"
    and "(x + 9223372036854775808) mod 18446744073709551616 < 18446744073709551616"
    by simp_all
  then show ?thesis by (simp add: in_int64_def to_int64_def)
qed

lemma int32_in_int64 [simp]: "in_int32 x \<Longrightarrow> in_int64 x"
  by (simp add: in_int32_def in_int64_def)

text \<open>Adding a constant and taking it away again is the identity modulo the width.\<close>

lemma to_int64_shift_back: "in_int64 x \<Longrightarrow> to_int64 (to_int64 (x + k) - k) = x"
proof -
  assume "in_int64 x"
  let ?m = "18446744073709551616 :: int" and ?h = "9223372036854775808 :: int"
  have "(to_int64 (x + k) - k + ?h) mod ?m = ((x + k + ?h) mod ?m - k) mod ?m"
    by (simp add: to_int64_def algebra_simps)
  also have "\<dots> = (x + ?h) mod ?m"
    by (simp add: mod_diff_left_eq algebra_simps)
  finally have "to_int64 (to_int64 (x + k) - k) = to_int64 x"
    by (simp add: to_int64_def)
  with \<open>in_int64 x\<close> show ?thesis by simp
qed

section \<open>Decimal digits\<close>

definition digit_char :: "nat \<Rightarrow> char" where
  "digit_char n = ''0123456789'' ! n"

definition is_digit :: "char \<Rightarrow> bool" where
  "is_digit c \<longleftrightarrow> 48 \<le> (of_char c :: nat) \<and> (of_char c :: nat) \<le> 57"

definition digit_val :: "char \<Rightarrow> nat" where
  "digit_val c = of_char c - 48"

lemma less_ten_cases:
  fixes n :: nat
  assumes "n < 10"
  shows "n = 0 \<or> n = 1 \<or> n = 2 \<or> n = 3 \<or> n = 4 \<or> n = 5 \<or> n = 6 \<or> n = 7 \<or> n = 8 \<or> n = 9"
  using assms by arith

lemma is_digit_digit_char [simp]: "n < 10 \<Longrightarrow> is_digit (digit_char n)"
  by (auto simp: is_digit_def digit_char_def dest!: less_ten_cases)

lemma digit_val_digit_char [simp]: "n < 10 \<Longrightarrow> digit_val (digit_char n) = n"
  by (auto simp: digit_val_def digit_char_def dest!: less_ten_cases)

lemma digit_val_less [simp]: "is_digit c \<Longrightarrow> digit_val c < 10"
  by (auto simp: is_digit_def digit_val_def)

text \<open>\<open>nat_dec\<close> prints a natural number without leading zeros; \<open>nat_undec\<close> reads digits.\<close>

fun nat_dec :: "nat \<Rightarrow> string" where
  "nat_dec n = (if n < 10 then [digit_char n] else nat_dec (n div 10) @ [digit_char (n mod 10)])"

declare nat_dec.simps [simp del]

definition nat_undec :: "string \<Rightarrow> nat" where
  "nat_undec s = foldl (\<lambda>a c. 10 * a + digit_val c) 0 s"

lemma nat_undec_snoc: "nat_undec (s @ [c]) = 10 * nat_undec s + digit_val c"
  by (simp add: nat_undec_def)

lemma nat_undec_nat_dec [simp]: "nat_undec (nat_dec n) = n"
proof (induction n rule: nat_dec.induct)
  case (1 n)
  show ?case
  proof (cases "n < 10")
    case True
    then show ?thesis by (simp add: nat_dec.simps [of n] nat_undec_def)
  next
    case False
    with "1.IH" show ?thesis
      by (simp add: nat_dec.simps [of n] nat_undec_snoc)
  qed
qed

lemma nat_dec_digits: "c \<in> set (nat_dec n) \<Longrightarrow> is_digit c"
proof (induction n rule: nat_dec.induct)
  case (1 n)
  show ?case
  proof (cases "n < 10")
    case True
    with "1.prems" show ?thesis by (simp add: nat_dec.simps [of n])
  next
    case False
    with "1" show ?thesis by (auto simp: nat_dec.simps [of n])
  qed
qed

lemma nat_dec_nonempty [simp]: "nat_dec n \<noteq> []"
  by (simp add: nat_dec.simps)

text \<open>A printed positive number does not start with a zero.\<close>

lemma hd_nat_dec: "0 < n \<Longrightarrow> hd (nat_dec n) \<noteq> CHR ''0''"
proof (induction n rule: nat_dec.induct)
  case (1 n)
  show ?case
  proof (cases "n < 10")
    case True
    with "1.prems" show ?thesis
      by (auto simp: nat_dec.simps [of n] digit_char_def dest!: less_ten_cases)
  next
    case False
    with "1" show ?thesis by (simp add: nat_dec.simps [of n])
  qed
qed

definition int_dec :: "int \<Rightarrow> string" where
  "int_dec i = (if i < 0 then CHR ''-'' # nat_dec (nat (- i)) else nat_dec (nat i))"

section \<open>Outcomes of a Go call\<close>

text \<open>
  A Go function that returns \<^verbatim>\<open>(T, error)\<close> either returns a value, returns an error, or
  panics (a nil dereference, an index out of range). The three are the constructors of
  \<open>outcome\<close>; \<open>'e\<close> is the error type.
\<close>

datatype ('e, 'a) outcome = Ok 'a | Err 'e | Panic string

definition is_panic :: "('e, 'a) outcome \<Rightarrow> bool" where
  "is_panic r = (case r of Panic _ \<Rightarrow> True | _ \<Rightarrow> False)"

lemma is_panic_simps [simp]:
  "\<not> is_panic (Ok x)" "\<not> is_panic (Err e)" "is_panic (Panic p)"
  by (simp_all add: is_panic_def)

text \<open>
  \<open>on_ok m f\<close> goes on with \<open>f\<close> when \<open>m\<close> returns without an error: the \<^verbatim>\<open>if err != nil\<close>
  return of the source. \<open>run\<close> is a computation on a state.
\<close>

type_synonym ('w, 'e, 'a) run = "'w \<Rightarrow> ('e, 'a) outcome \<times> 'w"

definition on_ok :: "('w, 'e, 'a) run \<Rightarrow> ('a \<Rightarrow> ('w, 'e, 'b) run) \<Rightarrow> ('w, 'e, 'b) run" where
  "on_ok m f w =
     (case m w of
        (Ok x, w') \<Rightarrow> f x w'
      | (Err e, w') \<Rightarrow> (Err e, w')
      | (Panic p, w') \<Rightarrow> (Panic p, w'))"

lemma on_ok_simps [simp]:
  "m w = (Ok x, w') \<Longrightarrow> on_ok m f w = f x w'"
  "m w = (Err e, w') \<Longrightarrow> on_ok m f w = (Err e, w')"
  "m w = (Panic p, w') \<Longrightarrow> on_ok m f w = (Panic p, w')"
  by (simp_all add: on_ok_def)

section \<open>Lists\<close>

text \<open>A strictly sorted list is determined by its elements.\<close>

lemma strict_sorted_map_filter:
  "sorted_wrt (<) (map f xs) \<Longrightarrow> sorted_wrt (<) (map f (filter P xs))"
  by (induction xs) auto

lemma sorted_distinct_strict:
  fixes f :: "'a \<Rightarrow> 'b::linorder"
  assumes "sorted (map f xs)" and "distinct (map f xs)"
  shows "sorted_wrt (<) (map f xs)"
  using assms by (simp add: strict_sorted_iff)

lemma last_take: "0 < n \<Longrightarrow> n \<le> length xs \<Longrightarrow> last (take n xs) = xs ! (n - 1)"
  by (subst last_conv_nth) (auto simp: min_def)

text \<open>Stable sorting: what a key that compares alike, an image of the list and the reverse of a list with
  distinct keys come to.\<close>

lemma insort_key_cong_le:
  "(\<And>y. y \<in> set ys \<Longrightarrow> f x \<le> f y \<longleftrightarrow> g x \<le> g y) \<Longrightarrow> insort_key f x ys = insort_key g x ys"
  by (induction ys) auto

lemma sort_key_cong:
  "(\<And>x. x \<in> set xs \<Longrightarrow> f x = g x) \<Longrightarrow> sort_key f xs = sort_key g xs"
  by (induction xs) (auto intro!: insort_key_cong_le)

lemma sort_key_map: "sort_key f (map g xs) = map g (sort_key (\<lambda>x. f (g x)) xs)"
proof (induction xs)
  case (Cons x xs)
  have "insort_key f (g x) (map g ys) = map g (insort_key (\<lambda>x. f (g x)) x ys)" for ys
    by (induction ys) auto
  then show ?case using Cons by simp
qed simp

lemma sort_key_rev: "inj_on f (set xs) \<Longrightarrow> sort_key f xs = sort_key f (rev xs)"
  by (rule sort_key_inj_key_eq) simp_all

text \<open>Everything after position \<open>n\<close> of a strictly sorted list is what lies beyond its element.\<close>

lemma filter_beyond_take:
  fixes f :: "'a \<Rightarrow> 'b::linorder"
  assumes "sorted_wrt (<) (map f xs)" and "0 < n" and "n \<le> length xs"
  shows "filter (\<lambda>x. f (last (take n xs)) < f x) xs = drop n xs"
proof -
  have split: "sorted_wrt (<) (map f (take n xs) @ map f (drop n xs))"
    using assms(1) by (simp flip: map_append)
  have ne: "take n xs \<noteq> []" using assms(2,3) by auto
  have mono: "f (xs ! i) \<le> f (xs ! j)" if "i \<le> j" "j < length xs" for i j
    using assms(1) that by (cases "i = j") (auto simp: sorted_wrt_iff_nth_less less_imp_le)
  have last: "last (take n xs) = xs ! (n - 1)"
    using assms(2,3) by (rule last_take)
  have le: "f x \<le> f (last (take n xs))" if "x \<in> set (take n xs)" for x
    using that assms(2,3) mono by (auto simp: last in_set_conv_nth)
  have gt: "f (last (take n xs)) < f x" if "x \<in> set (drop n xs)" for x
    using split that ne by (auto simp: sorted_wrt_append last_in_set)
  have "filter (\<lambda>x. f (last (take n xs)) < f x) (take n xs @ drop n xs) = drop n xs"
    using le gt by (subst filter_append) (auto simp: filter_empty_conv not_less intro: filter_True)
  then show ?thesis by simp
qed

text \<open>Counting over a list that is updated at one place, or loses one.\<close>

lemma sum_list_update_add:
  fixes g :: "'a \<Rightarrow> 'b::comm_monoid_add"
  shows "i < length ws \<Longrightarrow> (\<Sum>w\<leftarrow>ws[i := w']. g w) + g (ws ! i) = (\<Sum>w\<leftarrow>ws. g w) + g w'"
  by (induction ws arbitrary: i) (auto simp: ac_simps split: nat.split)

lemma sum_list_update_int:
  fixes ys :: "int list"
  shows "i < length ys \<Longrightarrow> sum_list (ys[i := z]) = sum_list ys + z - ys ! i"
  by (induction ys arbitrary: i) (auto split: nat.split)

definition remove_at :: "nat \<Rightarrow> 'a list \<Rightarrow> 'a list" where
  "remove_at i xs = take i xs @ drop (Suc i) xs"

lemma length_remove_at [simp]: "i < length xs \<Longrightarrow> length (remove_at i xs) = length xs - 1"
  by (simp add: remove_at_def)

end
