(* ===== verification/GoTime.thy ===== *)
theory GoTime
  imports Prelude
begin

text \<open>
  Go's \<^verbatim>\<open>time.Time\<close> as far as the program uses it: \<^verbatim>\<open>time.Unix\<close>,
  \<^verbatim>\<open>Unix\<close>, \<^verbatim>\<open>UTC\<close>, \<^verbatim>\<open>IsZero\<close>, \<^verbatim>\<open>After\<close>, \<^verbatim>\<open>Format(time.RFC3339)\<close> and the
  JSON form, RFC 3339 with nanoseconds. The last part shows that printing and parsing are
  inverse on the times JSON accepts. A monotonic clock reading plays no role here.
\<close>

section \<open>Instants\<close>

text \<open>
  Seconds are counted from 1 January of year 1, as inside the Go type, in an int64; the zone
  is its offset from UTC in seconds.
\<close>

record go_time =
  t_sec :: int
  t_nsec :: int
  t_off :: int

definition zero_time :: go_time where
  "zero_time = \<lparr>t_sec = 0, t_nsec = 0, t_off = 0\<rparr>"

definition unix_to_internal :: int where
  "unix_to_internal = 62135596800"

text \<open>\<open>unix_utc s\<close> is \<^verbatim>\<open>time.Unix(s, 0).UTC()\<close>.\<close>

definition unix_utc :: "int \<Rightarrow> go_time" where
  "unix_utc s = \<lparr>t_sec = to_int64 (s + unix_to_internal), t_nsec = 0, t_off = 0\<rparr>"

definition t_Unix :: "go_time \<Rightarrow> int" where
  "t_Unix t = to_int64 (t_sec t - unix_to_internal)"

definition t_UTC :: "go_time \<Rightarrow> go_time" where
  "t_UTC t = t\<lparr>t_off := 0\<rparr>"

definition t_IsZero :: "go_time \<Rightarrow> bool" where
  "t_IsZero t \<longleftrightarrow> t_sec t = 0 \<and> t_nsec t = 0"

definition t_After :: "go_time \<Rightarrow> go_time \<Rightarrow> bool" where
  "t_After t u \<longleftrightarrow> t_sec u < t_sec t \<or> (t_sec t = t_sec u \<and> t_nsec u < t_nsec t)"

lemma t_Unix_unix_utc [simp]: "in_int64 s \<Longrightarrow> t_Unix (unix_utc s) = s"
  by (simp add: t_Unix_def unix_utc_def to_int64_shift_back)

lemma in_int64_t_Unix [simp]: "in_int64 (t_Unix t)"
  by (simp add: t_Unix_def)

lemma t_Unix_t_UTC [simp]: "t_Unix (t_UTC t) = t_Unix t"
  by (simp add: t_Unix_def t_UTC_def)

lemma t_UTC_unix_utc [simp]: "t_UTC (unix_utc s) = unix_utc s"
  by (simp add: unix_utc_def t_UTC_def)

section \<open>The proleptic Gregorian calendar\<close>

text \<open>Days are numbered from 0 = 1 January of year 1.\<close>

definition is_leap :: "int \<Rightarrow> bool" where
  "is_leap y \<longleftrightarrow> y mod 4 = 0 \<and> (y mod 100 \<noteq> 0 \<or> y mod 400 = 0)"

definition days_before_year :: "int \<Rightarrow> int" where
  "days_before_year y = 365 * (y - 1) + (y - 1) div 4 - (y - 1) div 100 + (y - 1) div 400"

definition year_of_day :: "int \<Rightarrow> int" where
  "year_of_day d =
     (let a = d div 146097; r = d mod 146097;
          b = min 3 (r div 36524); r = r - 36524 * b;
          c = r div 1461; r = r - 1461 * c;
          e = min 3 (r div 365)
      in 400 * a + 100 * b + 4 * c + e + 1)"

definition days_before_month :: "bool \<Rightarrow> int \<Rightarrow> int" where
  "days_before_month l m =
     (if m \<le> 1 then 0 else if m = 2 then 31
      else (if l then 1 else 0) +
        (if m = 3 then 59 else if m = 4 then 90 else if m = 5 then 120 else if m = 6 then 151
         else if m = 7 then 181 else if m = 8 then 212 else if m = 9 then 243
         else if m = 10 then 273 else if m = 11 then 304 else if m = 12 then 334 else 365))"

definition days_in_month :: "bool \<Rightarrow> int \<Rightarrow> int" where
  "days_in_month l m = days_before_month l (m + 1) - days_before_month l m"

definition month_of_yday :: "bool \<Rightarrow> int \<Rightarrow> int" where
  "month_of_yday l n =
     (if n < days_before_month l 2 then 1 else if n < days_before_month l 3 then 2
      else if n < days_before_month l 4 then 3 else if n < days_before_month l 5 then 4
      else if n < days_before_month l 6 then 5 else if n < days_before_month l 7 then 6
      else if n < days_before_month l 8 then 7 else if n < days_before_month l 9 then 8
      else if n < days_before_month l 10 then 9 else if n < days_before_month l 11 then 10
      else if n < days_before_month l 12 then 11 else 12)"

definition days_of_civil :: "int \<Rightarrow> int \<Rightarrow> int \<Rightarrow> int" where
  "days_of_civil y m d = days_before_year y + days_before_month (is_leap y) m + (d - 1)"

definition civil_month :: "int \<Rightarrow> int" where
  "civil_month d = month_of_yday (is_leap (year_of_day d)) (d - days_before_year (year_of_day d))"

definition civil_day :: "int \<Rightarrow> int" where
  "civil_day d = d - days_before_year (year_of_day d)
     - days_before_month (is_leap (year_of_day d)) (civil_month d) + 1"

text \<open>A year is 365 or 366 days long, and \<open>year_of_day\<close> finds the year a day lies in.\<close>

lemma div_pred_step:
  fixes y k :: int
  assumes "0 < k"
  shows "y div k = (y - 1) div k + (if y mod k = 0 then 1 else 0)"
proof -
  obtain q r where q: "(y - 1) div k = q" and r: "(y - 1) mod k = r" by blast
  have y: "y - 1 = k * q + r" using q r by (metis mult_div_mod_eq)
  have b: "0 \<le> r" "r < k" using r assms by auto
  show ?thesis
  proof (cases "r + 1 = k")
    case True
    with y have "y = k * (q + 1)" by (simp add: algebra_simps)
    with assms q show ?thesis by simp
  next
    case False
    with y b have "y = k * q + (r + 1)" "0 \<le> r + 1" "r + 1 < k" by simp_all
    then have "y div k = q" "y mod k = r + 1"
      by (rule int_div_pos_eq, rule int_mod_pos_eq)
    with q b show ?thesis by simp
  qed
qed

lemma mod_multiple_zero:
  fixes y k n :: int
  assumes "y mod (k * n) = 0"
  shows "y mod k = 0"
proof -
  from assms have "k * n dvd y" by (rule mod_0_imp_dvd)
  then have "k dvd y" by (rule dvd_mult_left)
  then show ?thesis by (rule dvd_imp_mod_0)
qed

lemmas mod_400_100_4 = mod_multiple_zero [of _ 100 4, simplified] mod_multiple_zero [of _ 4 25, simplified]

lemma leap_count_step:
  fixes A B C y :: int
  assumes "A = A' + (if p then 1 else 0)" and "B = B' + (if q then 1 else 0)"
    and "C = C' + (if r then 1 else 0)" and "r \<Longrightarrow> q" and "q \<Longrightarrow> p"
  shows "365 * y + A - B + C
       = 365 * (y - 1) + A' - B' + C' + (if p \<and> (\<not> q \<or> r) then 366 else 365)"
  using assms by (cases p; cases q; cases r) auto

lemma days_before_year_Suc:
  "days_before_year (y + 1) = days_before_year y + (if is_leap y then 366 else 365)"
proof -
  have "days_before_year (y + 1) = 365 * y + y div 4 - y div 100 + y div 400"
    by (simp add: days_before_year_def)
  also have "\<dots> = days_before_year y + (if is_leap y then 366 else 365)"
    unfolding days_before_year_def is_leap_def
    by (rule leap_count_step; (rule div_pred_step, simp | rule mod_400_100_4))
  finally show ?thesis .
qed

text \<open>The decomposition into 400-, 100-, 4- and 1-year cycles, and what it says of the year.\<close>

lemma days_before_year_cycles:
  assumes "0 \<le> b" "b \<le> 3" "0 \<le> c" "c \<le> 24" "0 \<le> e" "e \<le> (3::int)"
  shows "days_before_year (400 * a + 100 * b + 4 * c + e + 1)
       = 146097 * a + 36524 * b + 1461 * c + 365 * e"
proof -
  define n where n: "n = 400 * a + 100 * b + 4 * c + e"
  have d4: "n div 4 = 100 * a + 25 * b + c"
    by (rule int_div_pos_eq [where r = e]) (use assms n in simp_all)
  have d100: "n div 100 = 4 * a + b"
    by (rule int_div_pos_eq [where r = "4 * c + e"]) (use assms n in simp_all)
  have d400: "n div 400 = a"
    by (rule int_div_pos_eq [where r = "100 * b + 4 * c + e"]) (use assms n in simp_all)
  have "days_before_year (n + 1) = 365 * n + n div 4 - n div 100 + n div 400"
    by (simp add: days_before_year_def)
  also have "\<dots> = 365 * n + (100 * a + 25 * b + c) - (4 * a + b) + a"
    by (simp only: d4 d100 d400)
  also have "\<dots> = 146097 * a + 36524 * b + 1461 * c + 365 * e"
    unfolding n by algebra
  finally show ?thesis unfolding n .
qed

lemma year_of_day_bounds:
  "days_before_year (year_of_day d) \<le> d" "d < days_before_year (year_of_day d + 1)"
proof -
  define a r where "a = d div 146097" and "r = d mod 146097"
  define b where "b = min 3 (r div 36524)"
  define r2 where "r2 = r - 36524 * b"
  define c where "c = r2 div 1461"
  define r3 where "r3 = r2 - 1461 * c"
  define e where "e = min 3 (r3 div 365)"
  have y: "year_of_day d = 400 * a + 100 * b + 4 * c + e + 1"
    unfolding year_of_day_def Let_def a_def r_def b_def r2_def c_def r3_def e_def ..
  have d: "d = 146097 * a + r" "0 \<le> r" "r < 146097" by (simp_all add: a_def r_def)
  have b: "0 \<le> b" "b \<le> 3" using d by (simp_all add: b_def pos_imp_zdiv_nonneg_iff)
  have r2: "0 \<le> r2" "b < 3 \<Longrightarrow> r2 < 36524" "r2 \<le> 36524"
    using d by (auto simp: r2_def b_def min_def)
  have c: "0 \<le> c" "c \<le> 24" using r2 by (simp_all add: c_def)
  have r3: "0 \<le> r3" "r3 < 1461" "c = 24 \<Longrightarrow> b < 3 \<Longrightarrow> r3 < 1460" "r2 = 1461 * c + r3"
    using r2 by (auto simp: r3_def c_def minus_mult_div_eq_mod)
  have e: "0 \<le> e" "e \<le> 3" using r3 by (simp_all add: e_def pos_imp_zdiv_nonneg_iff)
  have e3: "365 * e \<le> r3" "e < 3 \<Longrightarrow> r3 < 365 * e + 365"
    using r3 by (auto simp: e_def min_def)
  have start: "days_before_year (year_of_day d) = 146097 * a + 36524 * b + 1461 * c + 365 * e"
    unfolding y using b c e by (rule days_before_year_cycles)
  show "days_before_year (year_of_day d) \<le> d"
    using start d r3 e3 by (simp add: r2_def)
  have leap: "is_leap (year_of_day d) \<longleftrightarrow> e = 3 \<and> (c \<noteq> 24 \<or> b = 3)"
  proof -
    have "year_of_day d mod 4 = (if e = 3 then 0 else e + 1)"
      by (rule int_mod_pos_eq [where q = "100 * a + 25 * b + c + (if e = 3 then 1 else 0)"])
        (use e in \<open>auto simp: y\<close>)
    moreover have "year_of_day d mod 100 = (if 4 * c + e = 99 then 0 else 4 * c + e + 1)"
      by (rule int_mod_pos_eq [where q = "4 * a + b + (if 4 * c + e = 99 then 1 else 0)"])
        (use c e in \<open>auto simp: y\<close>)
    moreover have "year_of_day d mod 400
        = (if 100 * b + 4 * c + e = 399 then 0 else 100 * b + 4 * c + e + 1)"
      by (rule int_mod_pos_eq [where q = "a + (if 100 * b + 4 * c + e = 399 then 1 else 0)"])
        (use b c e in \<open>auto simp: y\<close>)
    ultimately show ?thesis unfolding is_leap_def using b c e by auto
  qed
  show "d < days_before_year (year_of_day d + 1)"
  proof -
    have "e = 3 \<or> r3 < 365 * e + 365" using e(2) e3(2) by (metis less_le)
    then show ?thesis
      unfolding days_before_year_Suc leap using start d r3 e3 b c e by (auto simp: r2_def)
  qed
qed

lemma yday_bounds:
  "0 \<le> d - days_before_year (year_of_day d)"
  "d - days_before_year (year_of_day d) < (if is_leap (year_of_day d) then 366 else 365)"
  using year_of_day_bounds [of d] days_before_year_Suc [of "year_of_day d"] by auto

lemma month_of_yday_bounds:
  assumes "0 \<le> n" and "n < (if l then 366 else 365)"
  shows "1 \<le> month_of_yday l n" "month_of_yday l n \<le> 12"
    "days_before_month l (month_of_yday l n) \<le> n"
    "n < days_before_month l (month_of_yday l n + 1)"
proof -
  show "1 \<le> month_of_yday l n" "month_of_yday l n \<le> 12" by (simp_all add: month_of_yday_def)
  show "days_before_month l (month_of_yday l n) \<le> n"
    using assms by (cases l) (simp_all add: month_of_yday_def days_before_month_def)
  show "n < days_before_month l (month_of_yday l n + 1)"
    using assms by (cases l) (simp_all add: month_of_yday_def days_before_month_def)
qed

lemma civil_bounds:
  "1 \<le> civil_month d" "civil_month d \<le> 12" "1 \<le> civil_day d"
  "civil_day d \<le> days_in_month (is_leap (year_of_day d)) (civil_month d)"
  using month_of_yday_bounds [OF yday_bounds(1) [of d] yday_bounds(2) [of d]]
  by (simp_all add: civil_month_def civil_day_def days_in_month_def)

lemma days_in_month_le: "days_in_month l m \<le> 31"
  by (simp add: days_in_month_def days_before_month_def)

lemma days_of_civil_inverse:
  "days_of_civil (year_of_day d) (civil_month d) (civil_day d) = d"
  by (simp add: days_of_civil_def civil_day_def)

section \<open>RFC 3339\<close>

subsection \<open>Printing\<close>

definition pad :: "nat \<Rightarrow> string \<Rightarrow> string" where
  "pad w s = replicate (w - length s) CHR ''0'' @ s"

text \<open>\<open>append_int x w\<close> is \<^verbatim>\<open>time.appendInt\<close>: at least \<open>w\<close> digits, zero-padded.\<close>

definition append_int :: "int \<Rightarrow> nat \<Rightarrow> string" where
  "append_int x w = (if x < 0 then CHR ''-'' # pad w (nat_dec (nat (- x))) else pad w (nat_dec (nat x)))"

text \<open>Trailing zeros of the nine digits are dropped; a whole second has no fraction at all.\<close>

definition drop_trailing_zeros :: "string \<Rightarrow> string" where
  "drop_trailing_zeros s = rev (dropWhile (\<lambda>c. c = CHR ''0'') (rev s))"

definition frac_digits :: "int \<Rightarrow> string" where
  "frac_digits ns = drop_trailing_zeros (append_int ns 9)"

definition append_nano :: "int \<Rightarrow> string" where
  "append_nano ns = (let f = frac_digits ns in if f = [] then [] else CHR ''.'' # f)"

definition append_zone :: "int \<Rightarrow> string" where
  "append_zone off =
     (if off = 0 then ''Z''
      else let z = \<bar>off\<bar> div 60
           in (if off < 0 then CHR ''-'' else CHR ''+'') #
              append_int (z div 60) 2 @ CHR '':'' # append_int (z mod 60) 2)"

definition local_sec :: "go_time \<Rightarrow> int" where
  "local_sec t = t_sec t + t_off t"

definition t_year :: "go_time \<Rightarrow> int" where
  "t_year t = year_of_day (local_sec t div 86400)"

text \<open>\<open>append_rfc3339 t nanos\<close> is \<^verbatim>\<open>Time.appendFormatRFC3339\<close>.\<close>

definition append_rfc3339 :: "go_time \<Rightarrow> bool \<Rightarrow> string" where
  "append_rfc3339 t nanos =
     (let d = local_sec t div 86400; s = local_sec t mod 86400
      in append_int (year_of_day d) 4 @ CHR ''-'' # append_int (civil_month d) 2 @ CHR ''-'' #
         append_int (civil_day d) 2 @ CHR ''T'' # append_int (s div 3600) 2 @ CHR '':'' #
         append_int (s div 60 mod 60) 2 @ CHR '':'' # append_int (s mod 60) 2 @
         (if nanos then append_nano (t_nsec t) else []) @ append_zone (t_off t))"

definition format_rfc3339 :: "go_time \<Rightarrow> string" where
  "format_rfc3339 t = append_rfc3339 t False"

text \<open>\<^verbatim>\<open>Time.MarshalJSON\<close> refuses years of other than four digits and zones of a day or more.\<close>

definition t_MarshalJSON :: "go_time \<Rightarrow> string + string" where
  "t_MarshalJSON t =
     (if t_year t < 0 \<or> 9999 < t_year t then Inl ''year outside of range [0,9999]''
      else if 24 \<le> \<bar>t_off t\<bar> div 3600 then Inl ''timezone hour outside of range [0,23]''
      else Inr (CHR 0x22 # append_rfc3339 t True @ [CHR 0x22]))"

subsection \<open>Parsing\<close>

text \<open>
  \<^verbatim>\<open>time.Parse(time.RFC3339, s)\<close>. The library first tries a stricter routine, which accepts
  fewer strings and agrees on those; this is the general one. \<open>getnum fixed\<close> reads one
  (unless \<open>fixed\<close>) or two digits.
\<close>

definition guard_opt :: "bool \<Rightarrow> unit option" where
  "guard_opt b = (if b then Some () else None)"

lemma guard_opt_simps [simp]: "guard_opt True = Some ()" "guard_opt False = None"
  by (simp_all add: guard_opt_def)

fun expect :: "char \<Rightarrow> string \<Rightarrow> string option" where
  "expect c [] = None"
| "expect c (x # xs) = (if x = c then Some xs else None)"

fun getnum :: "bool \<Rightarrow> string \<Rightarrow> (int \<times> string) option" where
  "getnum fixed [] = None"
| "getnum fixed [c] = (if is_digit c \<and> \<not> fixed then Some (int (digit_val c), []) else None)"
| "getnum fixed (c # d # s) =
     (if \<not> is_digit c then None
      else if is_digit d then Some (10 * int (digit_val c) + int (digit_val d), s)
      else if fixed then None else Some (int (digit_val c), d # s))"

definition getyear :: "string \<Rightarrow> (int \<times> string) option" where
  "getyear s =
     (if 4 \<le> length s \<and> list_all is_digit (take 4 s)
      then Some (int (nat_undec (take 4 s)), drop 4 s) else None)"

definition getnano :: "string \<Rightarrow> int \<times> string" where
  "getnano s =
     (case s of
        c # d # _ \<Rightarrow>
          if (c = CHR ''.'' \<or> c = CHR '','') \<and> is_digit d
          then let ds = takeWhile is_digit (tl s); ds9 = take 9 ds
               in (int (nat_undec ds9) * 10 ^ (9 - length ds9), dropWhile is_digit (tl s))
          else (0, s)
      | _ \<Rightarrow> (0, s))"

definition getzone :: "string \<Rightarrow> int option" where
  "getzone s =
     (if s = ''Z'' then Some 0
      else case s of
        sg # s \<Rightarrow> do {
          (hh, s) \<leftarrow> getnum True s;
          s \<leftarrow> expect CHR '':'' s;
          (mm, s) \<leftarrow> getnum True s;
          guard_opt (s = [] \<and> hh \<le> 24 \<and> mm \<le> 60);
          if sg = CHR ''+'' then Some ((hh * 60 + mm) * 60)
          else if sg = CHR ''-'' then Some (- ((hh * 60 + mm) * 60))
          else None }
      | [] \<Rightarrow> None)"

definition parse_rfc3339 :: "string \<Rightarrow> go_time option" where
  "parse_rfc3339 s = do {
     (y, s) \<leftarrow> getyear s;
     s \<leftarrow> expect CHR ''-'' s;
     (mo, s) \<leftarrow> getnum True s;
     guard_opt (1 \<le> mo \<and> mo \<le> 12);
     s \<leftarrow> expect CHR ''-'' s;
     (dy, s) \<leftarrow> getnum True s;
     s \<leftarrow> expect CHR ''T'' s;
     (hh, s) \<leftarrow> getnum False s;
     guard_opt (hh < 24);
     s \<leftarrow> expect CHR '':'' s;
     (mi, s) \<leftarrow> getnum True s;
     guard_opt (mi < 60);
     s \<leftarrow> expect CHR '':'' s;
     (ss, s) \<leftarrow> getnum True s;
     guard_opt (ss < 60);
     (ns, s) \<leftarrow> Some (getnano s);
     off \<leftarrow> getzone s;
     guard_opt (1 \<le> dy \<and> dy \<le> days_in_month (is_leap y) mo);
     Some \<lparr>t_sec = days_of_civil y mo dy * 86400 + hh * 3600 + mi * 60 + ss - off,
           t_nsec = ns, t_off = off\<rparr> }"

text \<open>\<^verbatim>\<open>Time.UnmarshalJSON\<close> on a value that is not \<^verbatim>\<open>null\<close>: the raw bytes between the quotes.\<close>

definition t_UnmarshalJSON :: "string \<Rightarrow> go_time option" where
  "t_UnmarshalJSON raw = parse_rfc3339 raw"

section \<open>Printing and parsing are inverse\<close>

lemma length_nat_dec: "n < 10 ^ w \<Longrightarrow> 0 < w \<Longrightarrow> length (nat_dec n) \<le> w"
proof (induction n arbitrary: w rule: nat_dec.induct)
  case (1 n)
  show ?case
  proof (cases "n < 10")
    case True
    with "1.prems" show ?thesis by (simp add: nat_dec.simps [of n])
  next
    case False
    from "1.prems" obtain v where w: "w = Suc v" by (cases w) auto
    with "1.prems"(1) False have "0 < v" by (cases v) auto
    note v = w this
    with "1.prems" have "n div 10 < 10 ^ v" by (simp add: less_mult_imp_div_less mult.commute)
    with "1.IH" False v have "length (nat_dec (n div 10)) \<le> v" by blast
    with False v show ?thesis by (simp add: nat_dec.simps [of n])
  qed
qed

lemma foldl_digits:
  "foldl (\<lambda>a c. 10 * a + digit_val c) x s = x * 10 ^ length s + nat_undec s"
proof (induction s rule: rev_induct)
  case Nil
  then show ?case by (simp add: nat_undec_def)
next
  case (snoc c s)
  then show ?case by (simp add: nat_undec_snoc algebra_simps)
qed

lemma nat_undec_append: "nat_undec (s @ t) = nat_undec s * 10 ^ length t + nat_undec t"
proof -
  have "nat_undec (s @ t) = foldl (\<lambda>a c. 10 * a + digit_val c) (nat_undec s) t"
    by (simp add: nat_undec_def)
  also have "\<dots> = nat_undec s * 10 ^ length t + nat_undec t" by (rule foldl_digits)
  finally show ?thesis .
qed

lemma nat_undec_Nil [simp]: "nat_undec [] = 0"
  by (simp add: nat_undec_def)

lemma nat_undec_Cons: "nat_undec (c # s) = digit_val c * 10 ^ length s + nat_undec s"
  using nat_undec_append [of "[c]" s] by (simp add: nat_undec_def)

lemma nat_undec_zeros [simp]: "nat_undec (replicate k CHR ''0'') = 0"
  by (induction k) (simp_all add: nat_undec_Cons digit_val_def)

lemma append_int_digits:
  assumes "0 \<le> n" and "n < 10 ^ w" and "0 < w"
  shows "length (append_int n w) = w" "list_all is_digit (append_int n w)"
    "nat_undec (append_int n w) = nat n"
proof -
  have "nat n < 10 ^ w" using assms by (simp add: nat_less_iff)
  then have "length (nat_dec (nat n)) \<le> w" using assms(3) by (rule length_nat_dec)
  then show "length (append_int n w) = w" using assms by (simp add: append_int_def pad_def)
  show "list_all is_digit (append_int n w)"
    using assms nat_dec_digits
    by (auto simp: append_int_def pad_def list_all_iff is_digit_def)
  show "nat_undec (append_int n w) = nat n"
    using assms by (simp add: append_int_def pad_def nat_undec_append)
qed

lemma list_length2: "length xs = 2 \<Longrightarrow> \<exists>a b. xs = [a, b]"
  by (cases xs; cases "tl xs") auto

lemma getnum_append_int:
  assumes "0 \<le> n" and "n < 100"
  shows "getnum fixed (append_int n 2 @ s) = Some (n, s)"
proof -
  obtain a b where ab: "append_int n 2 = [a, b]"
    using append_int_digits(1) [of n 2] assms list_length2 by fastforce
  have "is_digit a" "is_digit b" "nat_undec [a, b] = nat n"
    using append_int_digits(2,3) [of n 2] assms by (simp_all add: ab)
  with assms show ?thesis by (simp add: ab nat_undec_def)
qed

lemma getyear_append_int:
  assumes "0 \<le> y" and "y \<le> 9999"
  shows "getyear (append_int y 4 @ s) = Some (y, s)"
proof -
  have "y < 10 ^ 4" "(0::nat) < 4" using assms by simp_all
  note d = append_int_digits [OF assms(1) this]
  show ?thesis using d assms(1) by (simp add: getyear_def)
qed

lemma drop_trailing_zeros_split:
  "\<exists>k. s = drop_trailing_zeros s @ replicate k CHR ''0''"
proof -
  define z where z: "z = takeWhile (\<lambda>c. c = CHR ''0'') (rev s)"
  have "replicate (length z) CHR ''0'' = z"
    by (rule replicate_length_same) (auto simp: z dest: set_takeWhileD)
  then have "rev z = replicate (length z) CHR ''0''" by (metis rev_replicate)
  moreover have "rev (rev s) = rev (z @ dropWhile (\<lambda>c. c = CHR ''0'') (rev s))"
    by (simp only: z takeWhile_dropWhile_id)
  ultimately show ?thesis by (auto simp: drop_trailing_zeros_def)
qed

lemma frac_digits_props:
  assumes "0 \<le> ns" and "ns < 1000000000"
  shows "length (frac_digits ns) \<le> 9" "list_all is_digit (frac_digits ns)"
    "int (nat_undec (frac_digits ns)) * 10 ^ (9 - length (frac_digits ns)) = ns"
proof -
  obtain k where k: "append_int ns 9 = frac_digits ns @ replicate k CHR ''0''"
    using drop_trailing_zeros_split [of "append_int ns 9"] by (auto simp: frac_digits_def)
  have d: "length (append_int ns 9) = 9" "list_all is_digit (append_int ns 9)"
    "nat_undec (append_int ns 9) = nat ns"
    using append_int_digits [of ns 9] assms by simp_all
  from d(1) have len: "length (frac_digits ns) + k = 9" unfolding k by simp
  then show "length (frac_digits ns) \<le> 9" by simp
  from d(2) show "list_all is_digit (frac_digits ns)" unfolding k by simp
  have "nat_undec (frac_digits ns) * 10 ^ k = nat ns"
    using d(3) unfolding k by (simp add: nat_undec_append)
  moreover have "k = 9 - length (frac_digits ns)" using len by simp
  ultimately show "int (nat_undec (frac_digits ns)) * 10 ^ (9 - length (frac_digits ns)) = ns"
    using assms by (metis int_nat_eq of_nat_mult of_nat_numeral of_nat_power)
qed

lemma getnano_append_nano:
  assumes "0 \<le> ns" and "ns < 1000000000"
    and "z \<noteq> []" and "\<not> is_digit (hd z)" and "hd z \<noteq> CHR ''.''" and "hd z \<noteq> CHR '',''"
  shows "getnano (append_nano ns @ z) = (ns, z)"
proof (cases "frac_digits ns")
  case Nil
  then have "ns = 0" using frac_digits_props(3) [OF assms(1,2)] by (simp add: nat_undec_def)
  with Nil assms(3-6) show ?thesis
    by (cases z) (auto simp: append_nano_def getnano_def split: list.splits)
next
  case (Cons d f)
  have "list_all is_digit (d # f)" "length (d # f) \<le> 9"
    using frac_digits_props(1,2) [OF assms(1,2)] by (simp_all add: Cons)
  moreover have "takeWhile is_digit z = []" "dropWhile is_digit z = z"
    using assms(3,4) by (cases z; simp)+
  ultimately have "takeWhile is_digit (d # f @ z) = d # f" "dropWhile is_digit (d # f @ z) = z"
    "take 9 (d # f) = d # f" "is_digit d"
    by (simp_all add: list_all_iff takeWhile_append dropWhile_append)
  with frac_digits_props(3) [OF assms(1,2)] show ?thesis
    by (simp add: append_nano_def getnano_def Cons)
qed

text \<open>The times that JSON carries without loss.\<close>

definition json_time_ok :: "go_time \<Rightarrow> bool" where
  "json_time_ok t \<longleftrightarrow> 0 \<le> t_year t \<and> t_year t \<le> 9999 \<and> 0 \<le> t_nsec t \<and> t_nsec t < 1000000000 \<and>
     t_off t mod 60 = 0 \<and> \<bar>t_off t\<bar> < 86400"

lemma append_zone_head:
  "append_zone off \<noteq> [] \<and> \<not> is_digit (hd (append_zone off)) \<and>
   hd (append_zone off) \<noteq> CHR ''.'' \<and> hd (append_zone off) \<noteq> CHR '',''"
  by (simp add: append_zone_def is_digit_def Let_def)

lemma getzone_digits:
  assumes "0 \<le> hh" "hh \<le> 24" "0 \<le> mm" "mm \<le> 60" "sg = CHR ''+'' \<or> sg = CHR ''-''"
  shows "getzone (sg # append_int hh 2 @ CHR '':'' # append_int mm 2)
       = Some (if sg = CHR ''+'' then (hh * 60 + mm) * 60 else - ((hh * 60 + mm) * 60))"
  using assms getnum_append_int [of mm True "[]"]
  by (auto simp: getzone_def getnum_append_int)

lemma getzone_append_zone:
  assumes "off mod 60 = 0" and "\<bar>off\<bar> < 86400"
  shows "getzone (append_zone off) = Some off"
proof (cases "off = 0")
  case True
  then show ?thesis by (simp add: append_zone_def getzone_def)
next
  case False
  define z hh mm where z: "z = \<bar>off\<bar> div 60" and hh: "hh = z div 60" and mm: "mm = z mod 60"
  have "0 \<le> z" "z < 1440" using assms(2) by (simp_all add: z)
  then have b: "0 \<le> hh" "hh \<le> 24" "0 \<le> mm" "mm \<le> 60" by (simp_all add: hh mm less_imp_le)
  have "60 dvd off" using assms(1) by (rule mod_0_imp_dvd)
  then have "60 dvd \<bar>off\<bar>" by simp
  then have "z * 60 = \<bar>off\<bar>" unfolding z by (rule dvd_div_mult_self)
  moreover have "hh * 60 + mm = z" by (simp add: hh mm)
  ultimately have o: "(hh * 60 + mm) * 60 = \<bar>off\<bar>" by simp
  have "append_zone off = (if off < 0 then CHR ''-'' else CHR ''+'') #
      append_int hh 2 @ CHR '':'' # append_int mm 2"
    using False by (simp add: append_zone_def hh mm z Let_def)
  then show ?thesis
    using b o by (auto simp: getzone_digits)
qed

lemma parse_fields:
  assumes "0 \<le> y" "y \<le> 9999" "1 \<le> mo" "mo \<le> 12" "1 \<le> dy"
    and "dy \<le> days_in_month (is_leap y) mo"
    and "0 \<le> hh" "hh < 24" "0 \<le> mi" "mi < 60" "0 \<le> ss" "ss < 60"
    and "getnano s = (ns, z)" and "getzone z = Some off"
  shows "parse_rfc3339 (append_int y 4 @ CHR ''-'' # append_int mo 2 @ CHR ''-'' #
      append_int dy 2 @ CHR ''T'' # append_int hh 2 @ CHR '':'' # append_int mi 2 @ CHR '':'' #
      append_int ss 2 @ s) = Some \<lparr>t_sec = days_of_civil y mo dy * 86400 + hh * 3600 + mi * 60 + ss - off,
           t_nsec = ns, t_off = off\<rparr>"
proof -
  have "dy < 100" using assms(6) days_in_month_le [of "is_leap y" mo] by simp
  with assms show ?thesis
    by (simp add: parse_rfc3339_def getyear_append_int getnum_append_int)
qed

lemma clock_fields: "s div 3600 * 3600 + s div 60 mod 60 * 60 + s mod 60 = (s::int)"
proof -
  define m where "m = s div 60"
  have "s div 3600 = m div 60" unfolding m_def by (simp add: zdiv_zmult2_eq [of 60 s 60, simplified])
  moreover have "m div 60 * 60 + m mod 60 = m" by simp
  moreover have "m * 60 + s mod 60 = s" unfolding m_def by simp
  ultimately show ?thesis unfolding m_def [symmetric] by linarith
qed

lemma parse_append_rfc3339:
  assumes "json_time_ok t"
  shows "parse_rfc3339 (append_rfc3339 t True) = Some t"
proof -
  define d s where d: "d = local_sec t div 86400" and s: "s = local_sec t mod 86400"
  have sb: "0 \<le> s" "s < 86400" by (simp_all add: s)
  have y: "0 \<le> year_of_day d" "year_of_day d \<le> 9999"
    using assms by (simp_all add: json_time_ok_def t_year_def d)
  have f: "0 \<le> s div 3600" "s div 3600 < 24" "0 \<le> s div 60 mod 60" "s div 60 mod 60 < 60"
    "0 \<le> s mod 60" "s mod 60 < 60" using sb by simp_all
  have s_eq: "s div 3600 * 3600 + s div 60 mod 60 * 60 + s mod 60 = s"
    by (rule clock_fields)
  have c: "1 \<le> civil_month d" "civil_month d \<le> 12" "1 \<le> civil_day d" "civil_day d < 100"
    "civil_day d \<le> days_in_month (is_leap (year_of_day d)) (civil_month d)"
    using civil_bounds [of d] days_in_month_le [of "is_leap (year_of_day d)" "civil_month d"] by auto
  have sec: "d * 86400 + s - t_off t = t_sec t"
    by (simp add: d s local_sec_def)
  have ns: "getnano (append_nano (t_nsec t) @ append_zone (t_off t)) = (t_nsec t, append_zone (t_off t))"
    using assms append_zone_head by (intro getnano_append_nano) (auto simp: json_time_ok_def)
  have z: "getzone (append_zone (t_off t)) = Some (t_off t)"
    using assms by (intro getzone_append_zone) (auto simp: json_time_ok_def)
  have shape: "append_rfc3339 t True = append_int (year_of_day d) 4 @ CHR ''-'' #
      append_int (civil_month d) 2 @ CHR ''-'' # append_int (civil_day d) 2 @ CHR ''T'' #
      append_int (s div 3600) 2 @ CHR '':'' # append_int (s div 60 mod 60) 2 @ CHR '':'' #
      append_int (s mod 60) 2 @ append_nano (t_nsec t) @ append_zone (t_off t)"
    by (simp add: append_rfc3339_def d s Let_def)
  have "parse_rfc3339 (append_rfc3339 t True) =
      Some \<lparr>t_sec = d * 86400 + s div 3600 * 3600 + s div 60 mod 60 * 60 + s mod 60 - t_off t,
            t_nsec = t_nsec t, t_off = t_off t\<rparr>"
    unfolding shape using y c f ns z
    by (subst parse_fields) (auto simp only: days_of_civil_inverse)
  moreover have "d * 86400 + s div 3600 * 3600 + s div 60 mod 60 * 60 + s mod 60 = d * 86400 + s"
    using s_eq by linarith
  ultimately show ?thesis using sec by simp
qed

end
