(* ===== verification/GoEncoding.thy ===== *)
theory GoEncoding
  imports GoTime
begin

text \<open>
  The two encodings of the standard library a page token goes through:
  \<^verbatim>\<open>base64.RawURLEncoding\<close> and \<^verbatim>\<open>encoding/json\<close>. Strings are lists of bytes. The JSON
  reader is the scanner of the library as a machine over the bytes followed by a stack machine
  over the tokens, with the library's nesting limit; no fuel is needed, both recur on the input.
\<close>

section \<open>Base64, URL alphabet, no padding\<close>

definition b64_alphabet :: string where
  "b64_alphabet = ''ABCDEFGHIJKLMNOPQRSTUVWXYZabcdefghijklmnopqrstuvwxyz0123456789-_''"

definition b64_char :: "nat \<Rightarrow> char" where
  "b64_char n = b64_alphabet ! n"

definition b64_val :: "char \<Rightarrow> nat option" where
  "b64_val c =
     (let n = of_char c :: nat
      in if 65 \<le> n \<and> n \<le> 90 then Some (n - 65)
         else if 97 \<le> n \<and> n \<le> 122 then Some (n - 71)
         else if 48 \<le> n \<and> n \<le> 57 then Some (n + 4)
         else if n = 45 then Some 62
         else if n = 95 then Some 63
         else None)"

definition byte :: "char \<Rightarrow> nat" where
  "byte c = of_char c"

fun b64_encode :: "string \<Rightarrow> string" where
  "b64_encode [] = []"
| "b64_encode [a] = [b64_char (byte a div 4), b64_char (byte a mod 4 * 16)]"
| "b64_encode [a, b] =
     [b64_char (byte a div 4), b64_char (byte a mod 4 * 16 + byte b div 16),
      b64_char (byte b mod 16 * 4)]"
| "b64_encode (a # b # c # s) =
     b64_char (byte a div 4) # b64_char (byte a mod 4 * 16 + byte b div 16) #
     b64_char (byte b mod 16 * 4 + byte c div 64) # b64_char (byte c mod 64) # b64_encode s"

fun b64_quanta :: "string \<Rightarrow> string option" where
  "b64_quanta [] = Some []"
| "b64_quanta [x] = None"
| "b64_quanta [x, y] = do { p \<leftarrow> b64_val x; q \<leftarrow> b64_val y; Some [char_of (p * 4 + q div 16)] }"
| "b64_quanta [x, y, z] = do {
     p \<leftarrow> b64_val x; q \<leftarrow> b64_val y; r \<leftarrow> b64_val z;
     Some [char_of (p * 4 + q div 16), char_of (q mod 16 * 16 + r div 4)] }"
| "b64_quanta (x # y # z # w # s) = do {
     p \<leftarrow> b64_val x; q \<leftarrow> b64_val y; r \<leftarrow> b64_val z; t \<leftarrow> b64_val w;
     rest \<leftarrow> b64_quanta s;
     Some (char_of (p * 4 + q div 16) # char_of (q mod 16 * 16 + r div 4) #
           char_of (r mod 4 * 64 + t) # rest) }"

text \<open>The library skips carriage returns and newlines, and does not look at left-over bits.\<close>

definition b64_decode :: "string \<Rightarrow> string option" where
  "b64_decode s = b64_quanta (filter (\<lambda>c. c \<noteq> CHR 0x0A \<and> c \<noteq> CHR 0x0D) s)"

lemma b64_val_table: "map b64_val b64_alphabet = map Some [0..<64]"
  by code_simp

lemma length_b64_alphabet: "length b64_alphabet = 64"
  by code_simp

lemma b64_alphabet_no_newline: "list_all (\<lambda>c. c \<noteq> CHR 0x0A \<and> c \<noteq> CHR 0x0D) b64_alphabet"
  by code_simp

lemma b64_val_char [simp]:
  assumes "n < 64"
  shows "b64_val (b64_char n) = Some n"
proof -
  have "map b64_val b64_alphabet ! n = Some n"
    using assms by (simp only: b64_val_table nth_map_upt length_upt) simp
  then show ?thesis using assms by (simp add: b64_char_def length_b64_alphabet)
qed

lemma b64_char_no_newline [simp]:
  assumes "n < 64"
  shows "b64_char n \<noteq> CHR 0x0A" and "b64_char n \<noteq> CHR 0x0D"
  using b64_alphabet_no_newline assms
  by (auto simp: b64_char_def list_all_length length_b64_alphabet)

lemma byte_less [simp]: "byte c < 256"
  by (simp add: byte_def)

lemma char_of_byte_id [simp]: "char_of (byte c) = c"
  by (simp add: byte_def)

lemma byte_splits [simp]:
  "byte c div 4 < 64" "byte c div 16 < 16" "byte c div 64 < 4"
  "byte c mod 4 < 4" "byte c mod 16 < 16" "byte c mod 64 < 64"
  using byte_less [of c] by (simp_all add: less_mult_imp_div_less)

lemma b64_indices [simp]:
  "byte a mod 4 * 16 < 64" "byte a mod 4 * 16 + byte b div 16 < 64"
  "byte b mod 16 * 4 < 64" "byte b mod 16 * 4 + byte c div 64 < 64"
  using byte_splits(2-5) [of a] byte_splits(2-5) [of b] byte_splits(3) [of c] by linarith+

lemma char_of_byte [simp]:
  "char_of (byte a div 4 * 4 + (byte a mod 4 * 16) div 16) = a"
  "char_of (byte a div 4 * 4 + (byte a mod 4 * 16 + byte b div 16) div 16) = a"
  "char_of ((byte a mod 4 * 16 + byte b div 16) mod 16 * 16 + (byte b mod 16 * 4) div 4) = b"
  "char_of ((byte a mod 4 * 16 + byte b div 16) mod 16 * 16 + (byte b mod 16 * 4 + byte c div 64) div 4) = b"
  "char_of ((byte b mod 16 * 4 + byte c div 64) mod 4 * 64 + byte c mod 64) = c"
proof -
  note e = char_of_byte_id
  show "char_of (byte a div 4 * 4 + (byte a mod 4 * 16) div 16) = a"
    using e [of a] by simp
  have "(byte a mod 4 * 16 + byte b div 16) div 16 = byte a mod 4"
    using byte_splits(2) [of b] by simp
  then show "char_of (byte a div 4 * 4 + (byte a mod 4 * 16 + byte b div 16) div 16) = a"
    using e [of a] by simp
  have m: "(byte a mod 4 * 16 + byte b div 16) mod 16 = byte b div 16"
    using byte_splits(2) [of b] by simp
  then show "char_of ((byte a mod 4 * 16 + byte b div 16) mod 16 * 16 + (byte b mod 16 * 4) div 4) = b"
    using e [of b] by simp
  have "(byte b mod 16 * 4 + byte c div 64) div 4 = byte b mod 16"
    using byte_splits(3) [of c] by simp
  then show "char_of ((byte a mod 4 * 16 + byte b div 16) mod 16 * 16
      + (byte b mod 16 * 4 + byte c div 64) div 4) = b"
    using e [of b] m by simp
  have "(byte b mod 16 * 4 + byte c div 64) mod 4 = byte c div 64"
    using byte_splits(3) [of c] by simp
  then show "char_of ((byte b mod 16 * 4 + byte c div 64) mod 4 * 64 + byte c mod 64) = c"
    using e [of c] by simp
qed

lemma b64_quanta_encode: "b64_quanta (b64_encode s) = Some s"
  by (induction s rule: b64_encode.induct) simp_all

lemma b64_encode_no_newline:
  "c \<in> set (b64_encode s) \<Longrightarrow> c \<noteq> CHR 0x0A \<and> c \<noteq> CHR 0x0D"
  by (induction s rule: b64_encode.induct) auto

lemma b64_decode_encode: "b64_decode (b64_encode s) = Some s"
  unfolding b64_decode_def
  by (subst filter_True) (auto dest: b64_encode_no_newline simp: b64_quanta_encode)

lemma b64_encode_nonempty: "s \<noteq> [] \<Longrightarrow> b64_encode s \<noteq> []"
  by (cases s rule: b64_encode.cases) auto

section \<open>JSON\<close>

subsection \<open>The scanner\<close>

text \<open>Strings and numbers are kept as the raw bytes between the quotes and of the literal.\<close>

datatype json_token = TLBrace | TRBrace | TLBrack | TRBrack | TColon | TComma
  | TStr string | TNum string | TTrue | TFalse | TNull

datatype num_state = NNeg | NZero | NInt | NDot | NFrac | NExp | NExpSign | NExpInt

datatype lex_state = LBase | LStr string | LEsc string | LHex nat string
  | LNum num_state string | LWord string json_token
  \<comment> \<open>the string arguments of \<open>LStr\<close>, \<open>LEsc\<close>, \<open>LHex\<close>, \<open>LNum\<close> are what was read, reversed\<close>

definition num_step :: "num_state \<Rightarrow> char \<Rightarrow> num_state option" where
  "num_step st c =
     (case st of
        NNeg \<Rightarrow> if c = CHR ''0'' then Some NZero else if is_digit c then Some NInt else None
      | NZero \<Rightarrow> if c = CHR ''.'' then Some NDot
                 else if c = CHR ''e'' \<or> c = CHR ''E'' then Some NExp else None
      | NInt \<Rightarrow> if is_digit c then Some NInt else if c = CHR ''.'' then Some NDot
                else if c = CHR ''e'' \<or> c = CHR ''E'' then Some NExp else None
      | NDot \<Rightarrow> if is_digit c then Some NFrac else None
      | NFrac \<Rightarrow> if is_digit c then Some NFrac
                 else if c = CHR ''e'' \<or> c = CHR ''E'' then Some NExp else None
      | NExp \<Rightarrow> if c = CHR ''+'' \<or> c = CHR ''-'' then Some NExpSign
                else if is_digit c then Some NExpInt else None
      | NExpSign \<Rightarrow> if is_digit c then Some NExpInt else None
      | NExpInt \<Rightarrow> if is_digit c then Some NExpInt else None)"

fun num_accept :: "num_state \<Rightarrow> bool" where
  "num_accept NZero = True"
| "num_accept NInt = True"
| "num_accept NFrac = True"
| "num_accept NExpInt = True"
| "num_accept _ = False"

definition is_hex :: "char \<Rightarrow> bool" where
  "is_hex c \<longleftrightarrow> is_digit c \<or> (65 \<le> byte c \<and> byte c \<le> 70) \<or> (97 \<le> byte c \<and> byte c \<le> 102)"

definition json_space :: "char \<Rightarrow> bool" where
  "json_space c \<longleftrightarrow> c = CHR 0x20 \<or> c = CHR 0x09 \<or> c = CHR 0x0A \<or> c = CHR 0x0D"

definition lex_base :: "char \<Rightarrow> (lex_state \<times> json_token list) option" where
  "lex_base c =
     (if json_space c then Some (LBase, [])
      else if c = CHR 0x7B then Some (LBase, [TLBrace])
      else if c = CHR 0x7D then Some (LBase, [TRBrace])
      else if c = CHR 0x5B then Some (LBase, [TLBrack])
      else if c = CHR 0x5D then Some (LBase, [TRBrack])
      else if c = CHR '':'' then Some (LBase, [TColon])
      else if c = CHR '','' then Some (LBase, [TComma])
      else if c = CHR 0x22 then Some (LStr [], [])
      else if c = CHR ''-'' then Some (LNum NNeg [c], [])
      else if c = CHR ''0'' then Some (LNum NZero [c], [])
      else if is_digit c then Some (LNum NInt [c], [])
      else if c = CHR ''t'' then Some (LWord ''rue'' TTrue, [])
      else if c = CHR ''f'' then Some (LWord ''alse'' TFalse, [])
      else if c = CHR ''n'' then Some (LWord ''ull'' TNull, [])
      else None)"

fun lex_step :: "lex_state \<Rightarrow> char \<Rightarrow> (lex_state \<times> json_token list) option" where
  "lex_step LBase c = lex_base c"
| "lex_step (LStr acc) c =
     (if c = CHR 0x22 then Some (LBase, [TStr (rev acc)])
      else if c = CHR 0x5C then Some (LEsc (c # acc), [])
      else if byte c < 32 then None
      else Some (LStr (c # acc), []))"
| "lex_step (LEsc acc) c =
     (if c \<in> {CHR ''b'', CHR ''f'', CHR ''n'', CHR ''r'', CHR ''t'', CHR 0x5C, CHR ''/'', CHR 0x22}
      then Some (LStr (c # acc), [])
      else if c = CHR ''u'' then Some (LHex 4 (c # acc), []) else None)"
| "lex_step (LHex n acc) c =
     (if \<not> is_hex c then None
      else if n \<le> 1 then Some (LStr (c # acc), []) else Some (LHex (n - 1) (c # acc), []))"
| "lex_step (LNum st acc) c =
     (case num_step st c of
        Some st' \<Rightarrow> Some (LNum st' (c # acc), [])
      | None \<Rightarrow>
          if num_accept st
          then (case lex_base c of
                  Some (l, ts) \<Rightarrow> Some (l, TNum (rev acc) # ts)
                | None \<Rightarrow> None)
          else None)"
| "lex_step (LWord w t) c =
     (case w of
        [] \<Rightarrow> None
      | x # xs \<Rightarrow> if c \<noteq> x then None
                  else if xs = [] then Some (LBase, [t]) else Some (LWord xs t, []))"

fun lex_steps :: "lex_state \<Rightarrow> string \<Rightarrow> (lex_state \<times> json_token list) option" where
  "lex_steps st [] = Some (st, [])"
| "lex_steps st (c # s) = do {
     (st', ts) \<leftarrow> lex_step st c;
     (st'', us) \<leftarrow> lex_steps st' s;
     Some (st'', ts @ us) }"

fun lex_end :: "lex_state \<Rightarrow> json_token list option" where
  "lex_end LBase = Some []"
| "lex_end (LNum st acc) = (if num_accept st then Some [TNum (rev acc)] else None)"
| "lex_end _ = None"

definition json_tokens :: "string \<Rightarrow> json_token list option" where
  "json_tokens s = do {
     (st, ts) \<leftarrow> lex_steps LBase s;
     us \<leftarrow> lex_end st;
     Some (ts @ us) }"

subsection \<open>The grammar\<close>

datatype json = JNull | JBool bool | JNum string | JStr string
  | JArr "json list" | JObj "(string \<times> json) list"

text \<open>
  An open container is a frame: the elements or members read so far, last first, and for an
  object the key that is waiting for its value.
\<close>

datatype json_frame = FrArr "json list" | FrObj "(string \<times> json) list" string

datatype json_ctl = PVal | PValOrClose | PKeyOrClose | PKey | PColon | PAfter json

definition max_nesting :: nat where
  "max_nesting = 10000"

definition p_open :: "json_ctl \<Rightarrow> json_frame \<Rightarrow> json_frame list \<Rightarrow> (json_ctl \<times> json_frame list) option" where
  "p_open ctl f fs = (if Suc (length fs) \<le> max_nesting then Some (ctl, f # fs) else None)"

definition p_value :: "json_token \<Rightarrow> json_frame list \<Rightarrow> (json_ctl \<times> json_frame list) option" where
  "p_value t fs =
     (case t of
        TStr s \<Rightarrow> Some (PAfter (JStr s), fs)
      | TNum s \<Rightarrow> Some (PAfter (JNum s), fs)
      | TTrue \<Rightarrow> Some (PAfter (JBool True), fs)
      | TFalse \<Rightarrow> Some (PAfter (JBool False), fs)
      | TNull \<Rightarrow> Some (PAfter JNull, fs)
      | TLBrace \<Rightarrow> p_open PKeyOrClose (FrObj [] []) fs
      | TLBrack \<Rightarrow> p_open PValOrClose (FrArr []) fs
      | _ \<Rightarrow> None)"

fun p_key :: "json_token \<Rightarrow> json_frame list \<Rightarrow> (json_ctl \<times> json_frame list) option" where
  "p_key (TStr k) (FrObj ms _ # fs) = Some (PColon, FrObj ms k # fs)"
| "p_key _ _ = None"

fun p_after :: "json \<Rightarrow> json_token \<Rightarrow> json_frame list \<Rightarrow> (json_ctl \<times> json_frame list) option" where
  "p_after v TComma (FrArr es # fs) = Some (PVal, FrArr (v # es) # fs)"
| "p_after v TRBrack (FrArr es # fs) = Some (PAfter (JArr (rev (v # es))), fs)"
| "p_after v TComma (FrObj ms k # fs) = Some (PKey, FrObj ((k, v) # ms) [] # fs)"
| "p_after v TRBrace (FrObj ms k # fs) = Some (PAfter (JObj (rev ((k, v) # ms))), fs)"
| "p_after v _ _ = None"

fun p_step :: "json_ctl \<times> json_frame list \<Rightarrow> json_token \<Rightarrow> (json_ctl \<times> json_frame list) option" where
  "p_step (PVal, fs) t = p_value t fs"
| "p_step (PValOrClose, fs) t =
     (if t = TRBrack then Some (PAfter (JArr []), tl fs) else p_value t fs)"
| "p_step (PKeyOrClose, fs) t =
     (if t = TRBrace then Some (PAfter (JObj []), tl fs) else p_key t fs)"
| "p_step (PKey, fs) t = p_key t fs"
| "p_step (PColon, fs) t = (if t = TColon then Some (PVal, fs) else None)"
| "p_step (PAfter v, fs) t = p_after v t fs"

fun p_run :: "json_ctl \<times> json_frame list \<Rightarrow> json_token list \<Rightarrow> json option" where
  "p_run (PAfter v, []) [] = Some v"
| "p_run st [] = None"
| "p_run st (t # ts) = (case p_step st t of Some st' \<Rightarrow> p_run st' ts | None \<Rightarrow> None)"

definition json_parse :: "string \<Rightarrow> json option" where
  "json_parse s = do { ts \<leftarrow> json_tokens s; p_run (PVal, []) ts }"

subsection \<open>Keys\<close>

definition hex_val :: "char \<Rightarrow> nat" where
  "hex_val c = (if is_digit c then digit_val c else if byte c \<le> 70 then byte c - 55 else byte c - 87)"

definition utf8 :: "nat \<Rightarrow> string" where
  "utf8 r =
     (if r < 128 then [char_of r]
      else if r < 2048 then [char_of (192 + r div 64), char_of (128 + r mod 64)]
      else if r < 65536 then
        [char_of (224 + r div 4096), char_of (128 + r div 64 mod 64), char_of (128 + r mod 64)]
      else [char_of (240 + r div 262144), char_of (128 + r div 4096 mod 64),
            char_of (128 + r div 64 mod 64), char_of (128 + r mod 64)])"

definition hex4 :: "char \<Rightarrow> char \<Rightarrow> char \<Rightarrow> char \<Rightarrow> nat" where
  "hex4 a b c d = ((hex_val a * 16 + hex_val b) * 16 + hex_val c) * 16 + hex_val d"

definition rune_error :: nat where
  "rune_error = 65533"

text \<open>
  \<open>unquote\<close> resolves the escapes of a scanned string; a surrogate that is not the first half of
  a pair becomes the replacement character. (The library also replaces bytes that are not
  UTF-8; no field name has any, so no comparison of keys depends on it.)
\<close>

definition is_surrogate :: "nat \<Rightarrow> bool" where
  "is_surrogate r \<longleftrightarrow> 55296 \<le> r \<and> r < 57344"

definition simple_escape :: "char \<Rightarrow> char" where
  "simple_escape c =
     (if c = CHR ''b'' then CHR 0x08 else if c = CHR ''f'' then CHR 0x0C
      else if c = CHR ''n'' then CHR 0x0A else if c = CHR ''r'' then CHR 0x0D
      else if c = CHR ''t'' then CHR 0x09 else c)"

text \<open>The second half of a surrogate pair: its code unit and what follows.\<close>

definition low_surrogate :: "string \<Rightarrow> (nat \<times> string) option" where
  "low_surrogate s =
     (case s of
        x # y # a # b # c # d # s' \<Rightarrow>
          if x = CHR 0x5C \<and> y = CHR ''u'' \<and> 56320 \<le> hex4 a b c d \<and> hex4 a b c d < 57344
          then Some (hex4 a b c d, s') else None
      | _ \<Rightarrow> None)"

lemma low_surrogate_shorter: "low_surrogate s = Some (r, s') \<Longrightarrow> length s' < length s"
  by (auto simp: low_surrogate_def split: list.splits if_splits)

function unquote :: "string \<Rightarrow> string" where
  "unquote s =
     (case s of
        [] \<Rightarrow> []
      | x # s1 \<Rightarrow>
          if x \<noteq> CHR 0x5C then x # unquote s1
          else case s1 of
            [] \<Rightarrow> []
          | e # s2 \<Rightarrow>
              if e \<noteq> CHR ''u'' then simple_escape e # unquote s2
              else if length s2 < 4 then []
              else let r = hex4 (s2 ! 0) (s2 ! 1) (s2 ! 2) (s2 ! 3); s3 = drop 4 s2
                   in if \<not> is_surrogate r then utf8 r @ unquote s3
                      else case (if r < 56320 then low_surrogate s3 else None) of
                        Some (r', s4) \<Rightarrow> utf8 ((r - 55296) * 1024 + (r' - 56320) + 65536) @ unquote s4
                      | None \<Rightarrow> utf8 rune_error @ unquote s3)"
  by pat_completeness auto
termination
  by (relation "measure length") (auto split: if_splits dest!: low_surrogate_shorter)

declare unquote.simps [simp del]

lemma unquote_Nil [simp]: "unquote [] = []"
  by (subst unquote.simps) simp

lemma unquote_Cons_plain: "c \<noteq> CHR 0x5C \<Longrightarrow> unquote (c # s) = c # unquote s"
  by (subst unquote.simps) simp

lemma unquote_plain: "CHR 0x5C \<notin> set s \<Longrightarrow> unquote s = s"
  by (induction s) (auto simp: unquote_Cons_plain)

text \<open>
  Field names are matched up to case folding, under which \<^verbatim>\<open>U+017F\<close> (long s) is an S; the
  other runes that fold to ASCII fold to K, which no field name has.
\<close>

fun fold_name :: "string \<Rightarrow> string" where
  "fold_name [] = []"
| "fold_name [c] = [if 97 \<le> byte c \<and> byte c \<le> 122 then char_of (byte c - 32) else c]"
| "fold_name (c # d # s) =
     (if c = CHR 0xC5 \<and> d = CHR 0xBF then CHR ''S'' # fold_name s
      else (if 97 \<le> byte c \<and> byte c \<le> 122 then char_of (byte c - 32) else c) # fold_name (d # s))"

definition key_matches :: "string \<Rightarrow> string \<Rightarrow> bool" where
  "key_matches raw field \<longleftrightarrow> fold_name (unquote raw) = fold_name field"

subsection \<open>Integers\<close>

text \<open>\<open>json_int64\<close> is \<^verbatim>\<open>strconv.ParseInt(lit, 10, 64)\<close> on a JSON number literal.\<close>

definition json_int64 :: "string \<Rightarrow> int option" where
  "json_int64 lit =
     (let neg = (lit \<noteq> [] \<and> hd lit = CHR ''-''); ds = (if neg then tl lit else lit);
          v = (if neg then - int (nat_undec ds) else int (nat_undec ds))
      in if ds \<noteq> [] \<and> list_all is_digit ds \<and> in_int64 v then Some v else None)"

subsection \<open>Scanning what the encoder prints\<close>

lemma lex_steps_append:
  "lex_steps st (s @ t) = do {
     (st', ts) \<leftarrow> lex_steps st s;
     (st'', us) \<leftarrow> lex_steps st' t;
     Some (st'', ts @ us) }"
  by (induction s arbitrary: st) (auto simp: Option.bind_eq_Some_conv split: Option.bind_splits)

lemma lex_steps_appendI:
  assumes "lex_steps st s = Some (st', ts)" and "lex_steps st' t = Some (st'', us)"
  shows "lex_steps st (s @ t) = Some (st'', ts @ us)"
  using assms by (simp add: lex_steps_append)

definition plain_char :: "char \<Rightarrow> bool" where
  "plain_char c \<longleftrightarrow> c \<noteq> CHR 0x22 \<and> c \<noteq> CHR 0x5C \<and> 32 \<le> byte c"

lemma lex_steps_string_body:
  "list_all plain_char s \<Longrightarrow>
   lex_steps (LStr acc) (s @ [CHR 0x22]) = Some (LBase, [TStr (rev acc @ s)])"
  by (induction s arbitrary: acc) (auto simp: plain_char_def)

lemma lex_steps_string:
  assumes "list_all plain_char s"
  shows "lex_steps LBase (CHR 0x22 # s @ [CHR 0x22]) = Some (LBase, [TStr s])"
proof -
  have "lex_base (CHR 0x22) = Some (LStr [], [])"
    by (simp add: lex_base_def json_space_def)
  then show ?thesis using lex_steps_string_body [OF assms, of "[]"] by simp
qed

lemma lex_steps_digits:
  "list_all is_digit s \<Longrightarrow> lex_steps (LNum NInt acc) s = Some (LNum NInt (rev s @ acc), [])"
  by (induction s arbitrary: acc) (auto simp: num_step_def)

lemma is_digit_not_structural [simp]:
  assumes "is_digit c"
  shows "\<not> json_space c" "c \<noteq> CHR 0x7B" "c \<noteq> CHR 0x7D" "c \<noteq> CHR 0x5B" "c \<noteq> CHR 0x5D"
    "c \<noteq> CHR '':''" "c \<noteq> CHR '',''" "c \<noteq> CHR 0x22" "c \<noteq> CHR ''-''" "c \<noteq> CHR 0x5C"
  using assms by (auto simp: is_digit_def json_space_def)

lemma nat_dec_Cons:
  obtains c s where "nat_dec n = c # s" "is_digit c" "list_all is_digit s"
    "c = CHR ''0'' \<longrightarrow> n = 0"
proof (cases "nat_dec n")
  case Nil
  then show ?thesis by simp
next
  case (Cons c s)
  have "\<forall>d \<in> set (c # s). is_digit d" using nat_dec_digits [of _ n] by (simp add: Cons)
  moreover have "c = CHR ''0'' \<Longrightarrow> n = 0"
    using hd_nat_dec [of n] by (cases "n = 0") (auto simp: Cons)
  ultimately show ?thesis using that Cons by (simp add: list_all_iff)
qed

lemma nat_dec_0 [simp]: "nat_dec 0 = ''0''"
  by (simp add: nat_dec.simps digit_char_def)

lemma lex_steps_nat_dec:
  "\<exists>st. num_accept st \<and> num_step st CHR 0x7D = None
     \<and> lex_steps LBase (nat_dec n) = Some (LNum st (rev (nat_dec n)), [])
     \<and> lex_steps (LNum NNeg acc) (nat_dec n) = Some (LNum st (rev (nat_dec n) @ acc), [])"
proof (cases "n = 0")
  case True
  have "is_digit CHR ''0''" by (simp add: is_digit_def)
  with True show ?thesis
    by (intro exI [of _ NZero]) (simp add: num_step_def lex_base_def)
next
  case False
  obtain c s where c: "nat_dec n = c # s" "is_digit c" "list_all is_digit s"
    "c = CHR ''0'' \<longrightarrow> n = 0"
    by (rule nat_dec_Cons [of n])
  have "c \<noteq> CHR ''0''" using c(4) False by auto
  with c show ?thesis
    by (intro exI [of _ NInt])
      (simp add: num_step_def lex_base_def lex_steps_digits is_digit_def)
qed

lemma lex_steps_int_dec:
  "\<exists>st. num_accept st \<and> num_step st CHR 0x7D = None
     \<and> lex_steps LBase (int_dec i) = Some (LNum st (rev (int_dec i)), [])"
proof (cases "i < 0")
  case True
  have "lex_steps LBase [CHR ''-''] = Some (LNum NNeg [CHR ''-''], [])"
    by (simp add: lex_base_def json_space_def)
  with True lex_steps_nat_dec [of "nat (- i)" "[CHR ''-'']"] show ?thesis
    by (auto simp: int_dec_def)
next
  case False
  with lex_steps_nat_dec [of "nat i"] show ?thesis by (auto simp: int_dec_def)
qed

lemma lex_steps_int_dec_close:
  "lex_steps LBase (int_dec i @ [CHR 0x7D]) = Some (LBase, [TNum (int_dec i), TRBrace])"
proof -
  obtain st where st: "num_accept st" "num_step st CHR 0x7D = None"
    and l: "lex_steps LBase (int_dec i) = Some (LNum st (rev (int_dec i)), [])"
    using lex_steps_int_dec by blast
  have "lex_base (CHR 0x7D) = Some (LBase, [TRBrace])"
    by (simp add: lex_base_def json_space_def)
  with st have "lex_steps (LNum st (rev (int_dec i))) [CHR 0x7D]
      = Some (LBase, [TNum (int_dec i), TRBrace])" by simp
  with l show ?thesis by (simp add: lex_steps_append)
qed

lemma json_int64_int_dec:
  assumes "in_int64 i"
  shows "json_int64 (int_dec i) = Some i"
proof -
  have d: "list_all is_digit (nat_dec n)" for n using nat_dec_digits [of _ n] by (simp add: list_all_iff)
  have h: "hd (nat_dec n) \<noteq> CHR ''-''" for n
    using nat_dec_digits [of "hd (nat_dec n)" n] is_digit_not_structural(9) by auto
  show ?thesis using assms d h by (simp add: json_int64_def int_dec_def Let_def)
qed

lemma plain_append_int: "list_all plain_char (append_int x w)"
proof -
  have "plain_char c" if "is_digit c" for c
    using that by (auto simp: plain_char_def is_digit_def byte_def)
  then have "list_all plain_char (nat_dec n)" for n
    using nat_dec_digits [of _ n] by (auto simp: list_all_iff)
  moreover have "plain_char CHR ''0''" "plain_char CHR ''-''" by (simp_all add: plain_char_def byte_def)
  ultimately show ?thesis by (auto simp: append_int_def pad_def list_all_iff)
qed

lemma plain_drop_trailing_zeros: "list_all plain_char s \<Longrightarrow> list_all plain_char (drop_trailing_zeros s)"
  by (auto simp: drop_trailing_zeros_def list_all_iff dest: set_dropWhileD)

lemma plain_append_rfc3339: "list_all plain_char (append_rfc3339 t b)"
proof -
  have c: "plain_char CHR ''-''" "plain_char CHR ''T''" "plain_char CHR '':''" "plain_char CHR ''.''"
    "plain_char CHR ''Z''" "plain_char CHR ''+''"
    by (simp_all add: plain_char_def byte_def)
  have "list_all plain_char (append_nano n)" for n
    using c by (simp add: append_nano_def Let_def frac_digits_def plain_append_int plain_drop_trailing_zeros)
  moreover have "list_all plain_char (append_zone n)" for n
    using c by (simp add: append_zone_def Let_def plain_append_int)
  ultimately show ?thesis
    using c by (simp add: append_rfc3339_def Let_def plain_append_int)
qed

end
