(* ===== verification/Pagination.thy ===== *)
theory Pagination
  imports GoEncoding
begin

text \<open>
  \<^verbatim>\<open>device/pagination.go\<close> and the token type of \<^verbatim>\<open>device/repository.go\<close>: a page token
  is the cursor of the last row of a page, sent to the client as base64 of its JSON. The
  theorems say that decoding undoes encoding on every token JSON can carry, on which tokens
  encoding fails, and that a client can make tokens with no time in them.
\<close>

section \<open>Tokens\<close>

record RepositoryPageToken =
  LastTime :: "go_time option"
  LastID :: "int option"

definition zero_token :: RepositoryPageToken where
  "zero_token = \<lparr>LastTime = None, LastID = None\<rparr>"

text \<open>\<^verbatim>\<open>json.Marshal\<close> of a token: the two fields in order, nil pointers as \<^verbatim>\<open>null\<close>.\<close>

definition marshal_token :: "RepositoryPageToken \<Rightarrow> string + string" where
  \<open>marshal_token tkn =
     (case (case LastTime tkn of None \<Rightarrow> Inr ''null'' | Some t \<Rightarrow> t_MarshalJSON t) of
        Inl e \<Rightarrow> Inl e
      | Inr lt \<Rightarrow> Inr (''{"LastTime":'' @ lt @ '',"LastID":'' @
          (case LastID tkn of None \<Rightarrow> ''null'' | Some i \<Rightarrow> int_dec i) @ ''}''))\<close>

definition encodePageToken :: "RepositoryPageToken \<Rightarrow> string + string" where
  "encodePageToken tkn =
     (case marshal_token tkn of Inl e \<Rightarrow> Inl e | Inr b \<Rightarrow> Inr (b64_encode b))"

text \<open>
  \<^verbatim>\<open>json.Unmarshal\<close> into a token: \<^verbatim>\<open>null\<close> is a no-op on the struct and clears a pointer,
  unknown members are skipped, a later member overrides an earlier one, and a value of the
  wrong type makes the whole call fail.
\<close>

fun unmarshal_time :: "json \<Rightarrow> go_time option option" where
  "unmarshal_time JNull = Some None"
| "unmarshal_time (JStr raw) = map_option Some (t_UnmarshalJSON raw)"
| "unmarshal_time _ = None"

fun unmarshal_id :: "json \<Rightarrow> int option option" where
  "unmarshal_id JNull = Some None"
| "unmarshal_id (JNum lit) = map_option Some (json_int64 lit)"
| "unmarshal_id _ = None"

fun unmarshal_members :: "RepositoryPageToken \<Rightarrow> (string \<times> json) list \<Rightarrow> RepositoryPageToken option" where
  "unmarshal_members tkn [] = Some tkn"
| "unmarshal_members tkn ((k, v) # ms) =
     (if key_matches k ''LastTime'' then
        (case unmarshal_time v of
           Some t \<Rightarrow> unmarshal_members (tkn\<lparr>LastTime := t\<rparr>) ms | None \<Rightarrow> None)
      else if key_matches k ''LastID'' then
        (case unmarshal_id v of
           Some i \<Rightarrow> unmarshal_members (tkn\<lparr>LastID := i\<rparr>) ms | None \<Rightarrow> None)
      else unmarshal_members tkn ms)"

definition unmarshal_token :: "string \<Rightarrow> RepositoryPageToken option" where
  "unmarshal_token b =
     (case json_parse b of
        Some JNull \<Rightarrow> Some zero_token
      | Some (JObj ms) \<Rightarrow> unmarshal_members zero_token ms
      | _ \<Rightarrow> None)"

text \<open>\<open>None\<close> is an error; the service does not look at which.\<close>

definition decodePageToken :: "string \<Rightarrow> RepositoryPageToken option" where
  "decodePageToken tkn = do { dec \<leftarrow> b64_decode tkn; unmarshal_token dec }"

section \<open>Round trip\<close>

definition token_ok :: "RepositoryPageToken \<Rightarrow> bool" where
  "token_ok tkn \<longleftrightarrow>
     (case LastTime tkn of None \<Rightarrow> True | Some t \<Rightarrow> json_time_ok t) \<and>
     (case LastID tkn of None \<Rightarrow> True | Some i \<Rightarrow> in_int64 i)"

lemma json_time_ok_marshal:
  "json_time_ok t \<Longrightarrow> t_MarshalJSON t = Inr (CHR 0x22 # append_rfc3339 t True @ [CHR 0x22])"
  by (auto simp: json_time_ok_def t_MarshalJSON_def)

definition time_json :: "go_time option \<Rightarrow> string" where
  "time_json t = (case t of None \<Rightarrow> ''null'' | Some t \<Rightarrow> CHR 0x22 # append_rfc3339 t True @ [CHR 0x22])"

definition id_json :: "int option \<Rightarrow> string" where
  "id_json i = (case i of None \<Rightarrow> ''null'' | Some i \<Rightarrow> int_dec i)"

lemma marshal_token_ok:
  assumes "token_ok tkn"
  shows \<open>marshal_token tkn =
    Inr (''{"LastTime":'' @ time_json (LastTime tkn) @ '',"LastID":'' @ id_json (LastID tkn) @ ''}'')\<close>
  using assms by (auto simp: token_ok_def marshal_token_def time_json_def id_json_def
      json_time_ok_marshal split: option.splits)

definition time_token :: "go_time option \<Rightarrow> json_token" where
  "time_token t = (case t of None \<Rightarrow> TNull | Some t \<Rightarrow> TStr (append_rfc3339 t True))"

definition id_token :: "int option \<Rightarrow> json_token" where
  "id_token i = (case i of None \<Rightarrow> TNull | Some i \<Rightarrow> TNum (int_dec i))"

lemma lex_null: "lex_steps LBase ''null'' = Some (LBase, [TNull])"
  by code_simp

lemma lex_time_json: "lex_steps LBase (time_json t) = Some (LBase, [time_token t])"
proof (cases t)
  case None
  show ?thesis unfolding None time_json_def time_token_def option.case by (rule lex_null)
next
  case (Some u)
  show ?thesis unfolding Some time_json_def time_token_def option.case
    by (intro lex_steps_string plain_append_rfc3339)
qed

lemma lex_id_json: "lex_steps LBase (id_json i @ ''}'') = Some (LBase, [id_token i, TRBrace])"
proof (cases i)
  case None
  have "lex_steps LBase ''null}'' = Some (LBase, [TNull, TRBrace])" by code_simp
  with None show ?thesis by (simp add: id_json_def id_token_def)
next
  case (Some n)
  then show ?thesis using lex_steps_int_dec_close [of n] by (simp add: id_json_def id_token_def)
qed

lemma lex_prefixes:
  \<open>lex_steps LBase ''{"LastTime":'' = Some (LBase, [TLBrace, TStr ''LastTime'', TColon])\<close>
  \<open>lex_steps LBase '',"LastID":'' = Some (LBase, [TComma, TStr ''LastID'', TColon])\<close>
  by code_simp+

lemma json_tokens_marshal:
  \<open>json_tokens (''{"LastTime":'' @ time_json t @ '',"LastID":'' @ id_json i @ ''}'')
   = Some [TLBrace, TStr ''LastTime'', TColon, time_token t, TComma, TStr ''LastID'', TColon,
           id_token i, TRBrace]\<close>
proof -
  have \<open>lex_steps LBase (''{"LastTime":'' @ time_json t @ '',"LastID":'' @ id_json i @ ''}'')
      = Some (LBase, [TLBrace, TStr ''LastTime'', TColon] @ [time_token t] @
          [TComma, TStr ''LastID'', TColon] @ [id_token i, TRBrace])\<close>
    by (rule lex_steps_appendI [OF lex_prefixes(1) lex_steps_appendI [OF lex_time_json
          lex_steps_appendI [OF lex_prefixes(2) lex_id_json]]])
  then show ?thesis unfolding json_tokens_def by simp
qed

definition json_of_token :: "json_token \<Rightarrow> json" where
  "json_of_token t = (case t of TStr s \<Rightarrow> JStr s | TNum s \<Rightarrow> JNum s | _ \<Rightarrow> JNull)"

lemma p_run_marshal:
  "p_run (PVal, []) [TLBrace, TStr k, TColon, time_token t, TComma, TStr l, TColon, id_token i, TRBrace]
   = Some (JObj [(k, json_of_token (time_token t)), (l, json_of_token (id_token i))])"
  by (cases t; cases i)
    (simp_all add: p_value_def p_open_def max_nesting_def time_token_def id_token_def json_of_token_def)

lemma keys_match:
  "key_matches ''LastTime'' ''LastTime''" "key_matches ''LastID'' ''LastID''"
  "\<not> key_matches ''LastID'' ''LastTime''"
  by code_simp+

lemma decode_encode_token:
  assumes "token_ok tkn" and "encodePageToken tkn = Inr s"
  shows "decodePageToken s = Some tkn"
proof -
  have s: \<open>s = b64_encode (''{"LastTime":'' @ time_json (LastTime tkn) @ '',"LastID":''
      @ id_json (LastID tkn) @ ''}'')\<close>
    using assms by (simp add: encodePageToken_def marshal_token_ok)
  have t: "unmarshal_time (json_of_token (time_token (LastTime tkn))) = Some (LastTime tkn)"
    using assms(1) by (auto simp: token_ok_def time_token_def json_of_token_def t_UnmarshalJSON_def
        parse_append_rfc3339 split: option.splits)
  have i: "unmarshal_id (json_of_token (id_token (LastID tkn))) = Some (LastID tkn)"
    using assms(1) by (auto simp: token_ok_def id_token_def json_of_token_def
        json_int64_int_dec split: option.splits)
  show ?thesis
    unfolding s decodePageToken_def b64_decode_encode unmarshal_token_def json_parse_def
      json_tokens_marshal Option.bind.simps p_run_marshal
    by (simp add: keys_match t i zero_token_def)
qed

lemma encode_token_ok: "token_ok tkn \<Longrightarrow> \<exists>s. encodePageToken tkn = Inr s \<and> s \<noteq> []"
  by (auto simp: encodePageToken_def marshal_token_ok intro!: b64_encode_nonempty)

text \<open>The token of the README, and a token a client can send that carries no time.\<close>

lemma readme_token:
  "decodePageToken ''eyJMYXN0VGltZSI6IjIwMjUtMDQtMjVUMTI6MDA6MDBaIiwiTGFzdElEIjoxMTg5M30'' =
   Some \<lparr>LastTime = Some (unix_utc 1745582400), LastID = Some 11893\<rparr>"
  by code_simp

lemma empty_object_token: "decodePageToken ''e30'' = Some zero_token"
  by code_simp

text \<open>C9. Page tokens survive the client: every token with a time JSON can carry and an id of 64 bits is
  encoded, to a text that is not empty and so asks for a next page, and decoding that text gives the
  token back.\<close>

theorem page_token_roundtrip:
  assumes "token_ok tkn"
  shows "\<exists>s. encodePageToken tkn = Inr s \<and> s \<noteq> [] \<and> decodePageToken s = Some tkn"
  using encode_token_ok [OF assms] decode_encode_token [OF assms] by blast

lemma page_token_roundtrip_witness:
  "\<exists>s. encodePageToken \<lparr>LastTime = Some (unix_utc 1745582400), LastID = Some 11893\<rparr> = Inr s \<and>
     decodePageToken s = Some \<lparr>LastTime = Some (unix_utc 1745582400), LastID = Some 11893\<rparr>"
proof -
  have "token_ok \<lparr>LastTime = Some (unix_utc 1745582400), LastID = Some 11893\<rparr>" by code_simp
  from page_token_roundtrip [OF this] show ?thesis by blast
qed

end
