(* ===== verification/HttpError.thy ===== *)
theory HttpError
  imports Prelude
begin

text \<open>
  \<^verbatim>\<open>http/error.go\<close> and \<^verbatim>\<open>http/req_validator.go\<close>: the errors of the program with Go's
  wrapping and \<^verbatim>\<open>errors.Is\<close>/\<^verbatim>\<open>errors.As\<close>, the field violations a request validator
  collects, and the two middlewares that turn an error into a REST or a Connect response.
  A Go map is an association list with distinct keys; where the code ranges over one, the order
  is a function \<open>ord\<close> the runtime picks, of which only \<open>range_order\<close> is known.
\<close>

section \<open>Errors\<close>

datatype connect_code = CodeCanceled | CodeInvalidArgument | CodeResourceExhausted
  | CodeInternal | CodeUnimplemented | CodeOther nat

type_synonym violations = "(string \<times> string list) list"

text \<open>
  \<open>ErrNew\<close> is an error with no structure (\<^verbatim>\<open>errors.New\<close>, a driver error);
  \<open>ErrWrapf p e\<close> is \<^verbatim>\<open>fmt.Errorf("p: %w", e)\<close>; \<open>ErrRepo\<close> is the type
  \<^verbatim>\<open>repoErr\<close>; the message of an \<^verbatim>\<open>echo.HTTPError\<close> is optional and already rendered;
  a Connect error carries a code, a message and its details (lists of field and description).
\<close>

datatype go_error =
    ErrNew string
  | ErrWrapf string go_error
  | ErrNoRows
  | ErrRepo string
  | ErrCanceled
  | ErrDeadlineExceeded
  | ErrBadRequest violations
  | ErrEcho int "string option"
  | ErrConnect connect_code string "(string \<times> string) list list"

definition ErrRepoItemNotFound :: go_error where
  "ErrRepoItemNotFound = ErrRepo ''not found''"

fun err_unwrap :: "go_error \<Rightarrow> go_error option" where
  "err_unwrap (ErrWrapf p e) = Some e"
| "err_unwrap _ = None"

text \<open>The chain \<^verbatim>\<open>errors.Is\<close> and \<^verbatim>\<open>errors.As\<close> walk.\<close>

fun err_chain :: "go_error \<Rightarrow> go_error list" where
  "err_chain (ErrWrapf p e) = ErrWrapf p e # err_chain e"
| "err_chain e = [e]"

definition errors_Is :: "go_error \<Rightarrow> go_error \<Rightarrow> bool" where
  "errors_Is e target \<longleftrightarrow> target \<in> set (err_chain e)"

definition errors_As :: "(go_error \<Rightarrow> bool) \<Rightarrow> go_error \<Rightarrow> go_error option" where
  "errors_As p e = List.find p (err_chain e)"

fun is_bad_request :: "go_error \<Rightarrow> bool" where
  "is_bad_request (ErrBadRequest _) = True"
| "is_bad_request _ = False"

fun is_echo_error :: "go_error \<Rightarrow> bool" where
  "is_echo_error (ErrEcho _ _) = True"
| "is_echo_error _ = False"

fun is_connect_error :: "go_error \<Rightarrow> bool" where
  "is_connect_error (ErrConnect _ _ _) = True"
| "is_connect_error _ = False"

lemma errors_Is_refl [simp]: "errors_Is e e"
  by (cases e) (simp_all add: errors_Is_def)

lemma errors_Is_wrap [simp]:
  "errors_Is (ErrWrapf p e) t \<longleftrightarrow> t = ErrWrapf p e \<or> errors_Is e t"
  by (auto simp: errors_Is_def)

lemma errors_As_wrap [simp]:
  "\<not> q (ErrWrapf p e) \<Longrightarrow> errors_As q (ErrWrapf p e) = errors_As q e"
  by (simp add: errors_As_def)

lemma errors_As_self [simp]: "q e \<Longrightarrow> errors_As q e = Some e"
  by (cases e) (simp_all add: errors_As_def)

lemma errors_As_SomeD: "errors_As q e = Some e' \<Longrightarrow> q e'"
  by (auto simp: errors_As_def find_Some_iff)

lemma errors_As_leaf [simp]:
  "\<not> q e \<Longrightarrow> err_unwrap e = None \<Longrightarrow> errors_As q e = None"
  by (cases e) (simp_all add: errors_As_def)

text \<open>\<open>wrap_err p\<close> wraps the error of a computation, as \<^verbatim>\<open>fmt.Errorf\<close> with \<^verbatim>\<open>%w\<close>.\<close>

definition wrap_err :: "string \<Rightarrow> ('w, go_error, 'a) run \<Rightarrow> ('w, go_error, 'a) run" where
  "wrap_err p m w = (case m w of (Err e, w') \<Rightarrow> (Err (ErrWrapf p e), w') | res \<Rightarrow> res)"

lemma wrap_err_simps [simp]:
  "m w = (Ok x, w') \<Longrightarrow> wrap_err p m w = (Ok x, w')"
  "m w = (Err e, w') \<Longrightarrow> wrap_err p m w = (Err (ErrWrapf p e), w')"
  "m w = (Panic q, w') \<Longrightarrow> wrap_err p m w = (Panic q, w')"
  by (simp_all add: wrap_err_def)

section \<open>Field violations and the request validator\<close>

text \<open>\<open>fv_append f m fv\<close> is \<^verbatim>\<open>fv[f] = append(fv[f], m)\<close>.\<close>

fun fv_append :: "string \<Rightarrow> string \<Rightarrow> violations \<Rightarrow> violations" where
  "fv_append f m [] = [(f, [m])]"
| "fv_append f m ((k, ms) # fv) =
     (if k = f then (k, ms @ [m]) # fv else (k, ms) # fv_append f m fv)"

lemma fv_append_lookup:
  "map_of (fv_append f m fv) =
   (map_of fv)(f \<mapsto> (case map_of fv f of None \<Rightarrow> [m] | Some ms \<Rightarrow> ms @ [m]))"
  by (induction f m fv rule: fv_append.induct) (auto simp: fun_eq_iff)

lemma fv_append_keys: "fst ` set (fv_append f m fv) = insert f (fst ` set fv)"
  by (induction f m fv rule: fv_append.induct) auto

lemma fv_append_distinct:
  "distinct (map fst fv) \<Longrightarrow> distinct (map fst (fv_append f m fv))"
proof (induction f m fv rule: fv_append.induct)
  case (2 f m k ms fv)
  then show ?case using fv_append_keys [of f m fv] by auto
qed simp

lemma fv_append_nonempty [simp]: "fv_append f m fv \<noteq> []"
  by (cases fv) (auto split: if_splits)

record RequestValidator =
  fieldViolations :: violations

record FieldValidator =
  fvl_validator :: RequestValidator
  fvl_field :: string

record FieldCondition =
  fc_validator :: RequestValidator
  fc_field :: string
  fc_condition :: bool

definition NewRequestValidator :: RequestValidator where
  "NewRequestValidator = \<lparr>fieldViolations = []\<rparr>"

definition Field :: "RequestValidator \<Rightarrow> string \<Rightarrow> FieldValidator" where
  "Field v name = \<lparr>fvl_validator = v, fvl_field = name\<rparr>"

definition When :: "FieldValidator \<Rightarrow> bool \<Rightarrow> FieldCondition" where
  "When f cond = \<lparr>fc_validator = fvl_validator f, fc_field = fvl_field f, fc_condition = cond\<rparr>"

definition Message :: "FieldCondition \<Rightarrow> string \<Rightarrow> RequestValidator" where
  "Message fc msg =
     (if fc_condition fc
      then (fc_validator fc)\<lparr>fieldViolations :=
              fv_append (fc_field fc) msg (fieldViolations (fc_validator fc))\<rparr>
      else fc_validator fc)"

text \<open>\<open>Messagef\<close> is \<open>Message\<close> of the formatted string; the caller formats.\<close>

definition Messagef :: "FieldCondition \<Rightarrow> string \<Rightarrow> RequestValidator" where
  "Messagef fc formatted = Message fc formatted"

definition validator_Error :: "RequestValidator \<Rightarrow> go_error option" where
  "validator_Error v =
     (if fieldViolations v = [] then None else Some (ErrBadRequest (fieldViolations v)))"

text \<open>One validation rule, and what a list of them leaves behind.\<close>

definition check :: "string \<times> bool \<times> string \<Rightarrow> RequestValidator \<Rightarrow> RequestValidator" where
  "check r v = (case r of (f, c, m) \<Rightarrow> Message (When (Field v f) c) m)"

lemma Message_check [go_simps]: "Message (When (Field v f) c) m = check (f, c, m) v"
  by (simp add: check_def)

lemma Messagef_check [go_simps]: "Messagef (When (Field v f) c) m = check (f, c, m) v"
  by (simp add: Messagef_def go_simps)

lemma check_violations:
  "fieldViolations (check (f, c, m) v) =
   (if c then fv_append f m (fieldViolations v) else fieldViolations v)"
  by (simp add: check_def Message_def When_def Field_def)

lemma fold_check_violations:
  "fieldViolations (fold check rs v) =
   fold (\<lambda>(f, c, m) fv. if c then fv_append f m fv else fv) rs (fieldViolations v)"
  by (induction rs arbitrary: v) (auto simp: check_violations)

lemma fold_check_None_iff:
  "validator_Error (fold check rs v) = None \<longleftrightarrow>
   fieldViolations v = [] \<and> (\<forall>(f, c, m) \<in> set rs. \<not> c)"
proof (induction rs arbitrary: v)
  case Nil
  then show ?case by (simp add: validator_Error_def)
next
  case (Cons r rs)
  obtain f c m where r: "r = (f, c, m)" by (cases r)
  have "validator_Error (fold check (r # rs) v) = None \<longleftrightarrow>
      fieldViolations (check r v) = [] \<and> (\<forall>(f, c, m) \<in> set rs. \<not> c)"
    using Cons by simp
  then show ?case by (auto simp: r check_violations)
qed

lemma fold_check_distinct:
  "distinct (map fst (fieldViolations v)) \<Longrightarrow>
   distinct (map fst (fieldViolations (fold check rs v)))"
proof (induction rs arbitrary: v)
  case (Cons r rs)
  have "distinct (map fst (fieldViolations (check r v)))"
    using Cons.prems by (cases r) (simp add: check_violations fv_append_distinct)
  then show ?case using Cons.IH by simp
qed simp

text \<open>Which messages a field ends up with: those of its rules that fired, in order.\<close>

lemma fold_check_lookup:
  "map_of (fieldViolations (fold check rs v)) f =
   (let old = (case map_of (fieldViolations v) f of None \<Rightarrow> [] | Some ms \<Rightarrow> ms);
        new = [m. (g, c, m) \<leftarrow> rs, g = f \<and> c]
    in if map_of (fieldViolations v) f = None \<and> new = [] then None else Some (old @ new))"
proof (induction rs arbitrary: v)
  case Nil
  then show ?case by (simp split: option.splits)
next
  case (Cons r rs)
  obtain g c m where r: "r = (g, c, m)" by (cases r)
  have "map_of (fieldViolations (fold check (r # rs) v)) f =
      map_of (fieldViolations (fold check rs (check r v))) f" by simp
  also note Cons.IH [of "check r v"]
  finally show ?case
    by (auto simp: r check_violations fv_append_lookup Let_def split: option.splits)
qed

section \<open>REST responses\<close>

record RestError =
  re_Code :: int
  re_Message :: string
  re_Details :: "string list"

record RestErrorResponse =
  rer_Error :: RestError

text \<open>\<^verbatim>\<open>strings.Join\<close>.\<close>

fun join :: "string \<Rightarrow> string list \<Rightarrow> string" where
  "join sep [] = []"
| "join sep [s] = s"
| "join sep (s # t # ss) = s @ sep @ join sep (t # ss)"

definition RestError_Error :: "RestError \<Rightarrow> string" where
  "RestError_Error e =
     (if re_Details e \<noteq> [] then re_Message e @ '': '' @ join ''; '' (re_Details e)
      else re_Message e)"

text \<open>The orders the runtime may pick to range over a map.\<close>

definition range_order :: "(violations \<Rightarrow> violations) \<Rightarrow> bool" where
  "range_order ord \<longleftrightarrow> (\<forall>fv. mset (ord fv) = mset fv)"

definition violation_line :: "string \<times> string list \<Rightarrow> string" where
  "violation_line e = fst e @ '': '' @ join '', '' (snd e)"

definition BadRequestError_Error :: "(violations \<Rightarrow> violations) \<Rightarrow> violations \<Rightarrow> string" where
  "BadRequestError_Error ord fv =
     (if fv = [] then ''bad request''
      else ''bad request: '' @ join [CHR 0x0A] (map violation_line (ord fv)))"

text \<open>\<^verbatim>\<open>http.StatusText\<close>, the table of the standard library.\<close>

definition status_table :: "(int \<times> string) list" where
  "status_table =
    [(100, ''Continue''), (101, ''Switching Protocols''), (102, ''Processing''),
     (103, ''Early Hints''), (200, ''OK''), (201, ''Created''), (202, ''Accepted''),
     (203, ''Non-Authoritative Information''), (204, ''No Content''), (205, ''Reset Content''),
     (206, ''Partial Content''), (207, ''Multi-Status''), (208, ''Already Reported''),
     (226, ''IM Used''), (300, ''Multiple Choices''), (301, ''Moved Permanently''),
     (302, ''Found''), (303, ''See Other''), (304, ''Not Modified''), (305, ''Use Proxy''),
     (307, ''Temporary Redirect''), (308, ''Permanent Redirect''), (400, ''Bad Request''),
     (401, ''Unauthorized''), (402, ''Payment Required''), (403, ''Forbidden''),
     (404, ''Not Found''), (405, ''Method Not Allowed''), (406, ''Not Acceptable''),
     (407, ''Proxy Authentication Required''), (408, ''Request Timeout''), (409, ''Conflict''),
     (410, ''Gone''), (411, ''Length Required''), (412, ''Precondition Failed''),
     (413, ''Request Entity Too Large''), (414, ''Request URI Too Long''),
     (415, ''Unsupported Media Type''), (416, ''Requested Range Not Satisfiable''),
     (417, ''Expectation Failed''), (418, ''I'' @ [CHR 0x27] @ ''m a teapot''),
     (421, ''Misdirected Request''), (422, ''Unprocessable Entity''), (423, ''Locked''),
     (424, ''Failed Dependency''), (425, ''Too Early''), (426, ''Upgrade Required''),
     (428, ''Precondition Required''), (429, ''Too Many Requests''),
     (431, ''Request Header Fields Too Large''), (451, ''Unavailable For Legal Reasons''),
     (500, ''Internal Server Error''), (501, ''Not Implemented''), (502, ''Bad Gateway''),
     (503, ''Service Unavailable''), (504, ''Gateway Timeout''),
     (505, ''HTTP Version Not Supported''), (506, ''Variant Also Negotiates''),
     (507, ''Insufficient Storage''), (508, ''Loop Detected''), (510, ''Not Extended''),
     (511, ''Network Authentication Required'')]"

definition StatusText :: "int \<Rightarrow> string" where
  "StatusText code = (case map_of status_table code of Some t \<Rightarrow> t | None \<Rightarrow> [])"

definition BadRequestError_RestError :: "(violations \<Rightarrow> violations) \<Rightarrow> violations \<Rightarrow> RestError" where
  "BadRequestError_RestError ord fv =
     \<lparr>re_Code = 400, re_Message = StatusText 400, re_Details = map violation_line (ord fv)\<rparr>"

text \<open>
  \<open>new_detail\<close> stands for \<^verbatim>\<open>connect.NewErrorDetail\<close>, which may fail; then the error goes
  out without details.
\<close>

definition BadRequestError_ConnectError ::
  "(violations \<Rightarrow> violations) \<Rightarrow> ((string \<times> string) list \<Rightarrow> (string \<times> string) list option)
   \<Rightarrow> violations \<Rightarrow> go_error" where
  "BadRequestError_ConnectError ord new_detail fv =
     (if fv = [] then ErrConnect CodeInvalidArgument ''bad request'' []
      else case new_detail (map (\<lambda>(f, v). (f, join '', '' v)) (ord fv)) of
             None \<Rightarrow> ErrConnect CodeInvalidArgument ''bad request'' []
           | Some d \<Rightarrow> ErrConnect CodeInvalidArgument ''bad request'' [d])"

section \<open>The error middlewares\<close>

text \<open>
  What an Echo handler writes: nothing but a status, a JSON value, or a structured error.
  A handler returns an outcome and the new state of the world.
\<close>

datatype 'b echo_reply = NoContent int | JSONReply int 'b | ErrorReply int RestErrorResponse

type_synonym ('w, 'b) echo_handler = "'w \<Rightarrow> (go_error, 'b echo_reply) outcome \<times> 'w"

definition rest_error_of :: "(violations \<Rightarrow> violations) \<Rightarrow> go_error \<Rightarrow> RestError" where
  "rest_error_of ord err =
     (case errors_As is_echo_error err of
        Some (ErrEcho code msg) \<Rightarrow>
          \<lparr>re_Code = code, re_Message = (case msg of Some m \<Rightarrow> m | None \<Rightarrow> StatusText code),
           re_Details = []\<rparr>
      | _ \<Rightarrow>
        (case errors_As is_bad_request err of
           Some (ErrBadRequest fv) \<Rightarrow> BadRequestError_RestError ord fv
         | _ \<Rightarrow> \<lparr>re_Code = 500, re_Message = StatusText 500, re_Details = []\<rparr>))"

definition NewEchoErrorMiddleware ::
  "(violations \<Rightarrow> violations) \<Rightarrow> ('w, 'b) echo_handler \<Rightarrow> ('w, 'b) echo_handler" where
  "NewEchoErrorMiddleware ord next_h w =
     (case next_h w of
        (Err err, w') \<Rightarrow>
          (let restErr = rest_error_of ord err
           in (Ok (ErrorReply (re_Code restErr) \<lparr>rer_Error = restErr\<rparr>), w'))
      | (Ok r, w') \<Rightarrow> (Ok r, w')
      | (Panic p, w') \<Rightarrow> (Panic p, w'))"

type_synonym ('w, 'b) unary_func = "'w \<Rightarrow> (go_error, 'b) outcome \<times> 'w"

definition connect_error_of ::
  "(violations \<Rightarrow> violations) \<Rightarrow> ((string \<times> string) list \<Rightarrow> (string \<times> string) list option)
   \<Rightarrow> go_error \<Rightarrow> go_error" where
  "connect_error_of ord new_detail err =
     (case errors_As is_connect_error err of
        Some cerr \<Rightarrow> cerr
      | None \<Rightarrow>
        (case errors_As is_bad_request err of
           Some (ErrBadRequest fv) \<Rightarrow> BadRequestError_ConnectError ord new_detail fv
         | _ \<Rightarrow> ErrConnect CodeInternal ''internal server error'' []))"

definition NewConnectErrorInterceptor ::
  "(violations \<Rightarrow> violations) \<Rightarrow> ((string \<times> string) list \<Rightarrow> (string \<times> string) list option)
   \<Rightarrow> ('w, 'b) unary_func \<Rightarrow> ('w, 'b) unary_func" where
  "NewConnectErrorInterceptor ord new_detail next_f w =
     (case next_f w of
        (Err err, w') \<Rightarrow> (Err (connect_error_of ord new_detail err), w')
      | (Ok r, w') \<Rightarrow> (Ok r, w')
      | (Panic p, w') \<Rightarrow> (Panic p, w'))"

section \<open>What a client sees\<close>

text \<open>C34. What a client learns of an error: a bad request anywhere in its chain is answered 400, invalid
  argument, with every violation once, in some order; an error with nothing structured in its chain is
  answered 500, internal, with a fixed text, so that no message of the program or of the database reaches
  the client; and wrapping an error changes neither answer.\<close>

theorem client_sees_classified_error:
  assumes "range_order ord" and "errors_As is_echo_error err = None" and "errors_As is_connect_error err = None"
  shows "(case errors_As is_bad_request err of
      Some (ErrBadRequest fv) \<Rightarrow>
        re_Code (rest_error_of ord err) = 400 \<and> mset (re_Details (rest_error_of ord err)) = mset (map violation_line fv) \<and>
        (\<exists>ds. connect_error_of ord new_detail err = ErrConnect CodeInvalidArgument ''bad request'' ds)
    | _ \<Rightarrow>
        rest_error_of ord err = \<lparr>re_Code = 500, re_Message = ''Internal Server Error'', re_Details = []\<rparr> \<and>
        connect_error_of ord new_detail err = ErrConnect CodeInternal ''internal server error'' []) \<and>
    rest_error_of ord (ErrWrapf p err) = rest_error_of ord err \<and>
    connect_error_of ord new_detail (ErrWrapf p err) = connect_error_of ord new_detail err"
proof -
  have st: "StatusText 500 = ''Internal Server Error''" by code_simp
  have ms: "mset (map violation_line (ord fv)) = mset (map violation_line fv)" for fv
    using assms(1) by (simp add: range_order_def)
  have bad: "\<exists>fv. e = ErrBadRequest fv" if "errors_As is_bad_request err = Some e" for e
    using errors_As_SomeD [OF that] by (cases e) auto
  show ?thesis
  proof (cases "errors_As is_bad_request err")
    case None
    then show ?thesis using assms(2,3) by (simp add: rest_error_of_def connect_error_of_def st)
  next
    case (Some e)
    then obtain fv where "e = ErrBadRequest fv" using bad by blast
    with Some show ?thesis using assms(2,3) ms [of fv]
      by (auto simp: rest_error_of_def connect_error_of_def BadRequestError_RestError_def
          BadRequestError_ConnectError_def split: option.split)
  qed
qed

lemma client_sees_classified_error_witness:
  "mset (re_Details (rest_error_of rev (ErrWrapf ''x'' (ErrBadRequest [(''a'', [''m'']), (''b'', [''n''])])))) =
   {#''a: m'', ''b: n''#}"
proof -
  let ?e = "ErrWrapf ''x'' (ErrBadRequest [(''a'', [''m'']), (''b'', [''n''])])"
  have "range_order rev" "errors_As is_echo_error ?e = None" "errors_As is_connect_error ?e = None"
    by (simp_all add: range_order_def)
  from client_sees_classified_error [OF this, where new_detail = "\<lambda>_. None" and p = "''y''"]
  show ?thesis by (simp add: violation_line_def)
qed

end
