(* ===== verification/Device.thy ===== *)
theory Device
  imports Pagination HttpError GoFloat
begin

text \<open>
  \<^verbatim>\<open>device/repository.go\<close>: the domain types and the \<^verbatim>\<open>Repository\<close> interface, a record of
  operations over a store of type \<open>'s\<close>. The locales state the contract the service relies on:
  \<open>device_store\<close> for the four operations that read or write single values,
  \<open>device_repository\<close> with the paginated listing of alerts.
\<close>

section \<open>Types\<close>

record Config =
  cfg_TemperatureThreshold :: float64
  cfg_BatteryThreshold :: int

definition zero_config :: Config where
  "zero_config = \<lparr>cfg_TemperatureThreshold = f_zero, cfg_BatteryThreshold = 0\<rparr>"

record Metric =
  met_Temperature :: float64
  met_Battery :: int
  met_Time :: go_time

record Alert =
  al_Reason :: string
  al_Desc :: string
  al_Time :: go_time

definition AlertReasonTemperatureHigh :: string where
  "AlertReasonTemperatureHigh = ''TEMPERATURE_HIGH''"

definition AlertReasonBatteryLow :: string where
  "AlertReasonBatteryLow = ''BATTERY_LOW''"

record Timeframe =
  tf_Start :: "go_time option"
  tf_End :: "go_time option"

record RepositoryPageOptions =
  po_Size :: int
  po_Token :: "RepositoryPageToken option"

record 'a RepositoryPage =
  pg_Items :: "'a list"
  pg_NextPageToken :: "RepositoryPageToken option"

section \<open>The interface\<close>

text \<open>\<^verbatim>\<open>GetDeviceConfig\<close> returns a value beside its error, which the service does use.\<close>

record 's Repository =
  repo_UpsertDeviceConfig :: "string \<Rightarrow> Config \<Rightarrow> 's \<Rightarrow> (go_error, unit) outcome \<times> 's"
  repo_SaveDeviceMetric :: "string \<Rightarrow> Metric \<Rightarrow> 's \<Rightarrow> (go_error, unit) outcome \<times> 's"
  repo_GetDeviceMetrics :: "string \<Rightarrow> Timeframe \<Rightarrow> RepositoryPageOptions \<Rightarrow> 's
    \<Rightarrow> (go_error, Metric RepositoryPage) outcome \<times> 's"
  repo_GetDeviceConfig :: "string \<Rightarrow> 's \<Rightarrow> (go_error \<times> Config, Config) outcome \<times> 's"
  repo_SaveDeviceAlert :: "string \<Rightarrow> Alert \<Rightarrow> 's \<Rightarrow> (go_error, unit) outcome \<times> 's"
  repo_GetDeviceAlerts :: "string \<Rightarrow> Timeframe \<Rightarrow> RepositoryPageOptions \<Rightarrow> 's
    \<Rightarrow> (go_error, Alert RepositoryPage) outcome \<times> 's"

text \<open>What is kept of a metric or an alert: its time to the second, in UTC.\<close>

definition kept_time :: "go_time \<Rightarrow> go_time" where
  "kept_time t = unix_utc (t_Unix t)"

definition kept_metric :: "Metric \<Rightarrow> Metric" where
  "kept_metric m = m\<lparr>met_Time := kept_time (met_Time m)\<rparr>"

definition kept_alert :: "Alert \<Rightarrow> Alert" where
  "kept_alert a = a\<lparr>al_Time := kept_time (al_Time a)\<rparr>"

definition in_timeframe :: "Timeframe \<Rightarrow> go_time \<Rightarrow> bool" where
  "in_timeframe tf t \<longleftrightarrow>
     (case tf_Start tf of None \<Rightarrow> True | Some s \<Rightarrow> t_Unix s \<le> t_Unix t) \<and>
     (case tf_End tf of None \<Rightarrow> True | Some e \<Rightarrow> t_Unix t \<le> t_Unix e)"

text \<open>What a listing shows: the values of a timeframe, the newest first, and of those of one second the one
  that was saved last.\<close>

definition newest_first :: "('a \<Rightarrow> go_time) \<Rightarrow> Timeframe \<Rightarrow> 'a list \<Rightarrow> 'a list" where
  "newest_first time tf xs = sort_key (\<lambda>x. - t_Unix (time x)) (rev (filter (\<lambda>x. in_timeframe tf (time x)) xs))"

lemma newest_first_mset: "mset (newest_first time tf xs) = mset (filter (\<lambda>x. in_timeframe tf (time x)) xs)"
  by (simp add: newest_first_def)

lemma newest_first_sorted: "sorted_wrt (\<lambda>a b. t_Unix (time b) \<le> t_Unix (time a)) (newest_first time tf xs)"
proof -
  have "sorted (map (\<lambda>x. - t_Unix (time x)) (newest_first time tf xs))" by (simp add: newest_first_def)
  then show ?thesis by (simp add: sorted_wrt_map)
qed

lemma newest_first_length: "length (newest_first time tf xs) \<le> length xs"
  by (simp add: newest_first_def)

text \<open>
  The abstract specification of a store: a configuration per device, and the metrics and alerts
  of each in the order they were saved.
\<close>

record contents =
  ct_configs :: "string \<Rightarrow> Config option"
  ct_metrics :: "string \<Rightarrow> Metric list"
  ct_alerts :: "string \<Rightarrow> Alert list"

definition set_config :: "string \<Rightarrow> Config \<Rightarrow> contents \<Rightarrow> contents" where
  "set_config d c ct = ct\<lparr>ct_configs := (ct_configs ct)(d \<mapsto> c)\<rparr>"

definition add_metric :: "string \<Rightarrow> Metric \<Rightarrow> contents \<Rightarrow> contents" where
  "add_metric d m ct = ct\<lparr>ct_metrics := (ct_metrics ct)(d := ct_metrics ct d @ [m])\<rparr>"

definition add_alerts :: "string \<Rightarrow> Alert list \<Rightarrow> contents \<Rightarrow> contents" where
  "add_alerts d as ct = ct\<lparr>ct_alerts := (ct_alerts ct)(d := ct_alerts ct d @ as)\<rparr>"

lemma contents_simps [simp]:
  "ct_configs (set_config d c ct) = (ct_configs ct)(d \<mapsto> c)"
  "ct_metrics (set_config d c ct) = ct_metrics ct" "ct_alerts (set_config d c ct) = ct_alerts ct"
  "ct_configs (add_metric d m ct) = ct_configs ct" "ct_alerts (add_metric d m ct) = ct_alerts ct"
  "ct_metrics (add_metric d m ct) = (ct_metrics ct)(d := ct_metrics ct d @ [m])"
  "ct_configs (add_alerts d as ct) = ct_configs ct" "ct_metrics (add_alerts d as ct) = ct_metrics ct"
  "ct_alerts (add_alerts d as ct) = (ct_alerts ct)(d := ct_alerts ct d @ as)"
  by (simp_all add: set_config_def add_metric_def add_alerts_def)

lemma add_alerts_Nil [simp]: "add_alerts d [] ct = ct"
  by (simp add: add_alerts_def)

lemma add_alerts_append [simp]: "add_alerts d bs (add_alerts d as ct) = add_alerts d (as @ bs) ct"
  by (simp add: add_alerts_def)

section \<open>The contract\<close>

text \<open>
  \<open>inv\<close> holds of every store the operations reach; \<open>healthy k\<close> says that the engine shows
  no fault and has room for \<open>k\<close> more rows. An operation either has its effect or returns an
  error and leaves the contents alone; on a healthy store only a NaN makes it fail.
\<close>

locale device_store =
  fixes R :: "'s Repository"
    and inv :: "'s \<Rightarrow> bool"
    and healthy :: "nat \<Rightarrow> 's \<Rightarrow> bool"
    and view :: "'s \<Rightarrow> contents"
  assumes healthy_less: "healthy (Suc k) s \<Longrightarrow> healthy k s"
    and upsert_law:
      "inv s \<Longrightarrow> in_int32 (cfg_BatteryThreshold c) \<Longrightarrow> repo_UpsertDeviceConfig R d c s = (r, s') \<Longrightarrow>
       inv s' \<and> (r = Ok () \<and> view s' = set_config d c (view s) \<or> (\<exists>e. r = Err e) \<and> view s' = view s)"
    and upsert_live:
      "healthy k s \<Longrightarrow> \<not> is_nan (cfg_TemperatureThreshold c) \<Longrightarrow>
       \<exists>s'. repo_UpsertDeviceConfig R d c s = (Ok (), s') \<and> healthy k s'"
    and metric_law:
      "inv s \<Longrightarrow> in_int32 (met_Battery m) \<Longrightarrow> repo_SaveDeviceMetric R d m s = (r, s') \<Longrightarrow>
       inv s' \<and> (r = Ok () \<and> \<not> is_nan (met_Temperature m) \<and> view s' = add_metric d (kept_metric m) (view s) \<or>
                 (\<exists>e. r = Err e) \<and> view s' = view s)"
    and metric_live:
      "healthy (Suc k) s \<Longrightarrow> \<not> is_nan (met_Temperature m) \<Longrightarrow>
       \<exists>s'. repo_SaveDeviceMetric R d m s = (Ok (), s') \<and> healthy k s'"
    and config_law:
      "inv s \<Longrightarrow> repo_GetDeviceConfig R d s = (res, s') \<Longrightarrow>
       inv s' \<and> view s' = view s \<and>
       ((\<exists>c. res = Ok c \<and> ct_configs (view s) d = Some c) \<or>
        res = Err (ErrRepoItemNotFound, zero_config) \<and> ct_configs (view s) d = None \<or>
        (\<exists>e. res = Err (e, zero_config) \<and> \<not> errors_Is e ErrRepoItemNotFound))"
    and config_live:
      "healthy k s \<Longrightarrow>
       repo_GetDeviceConfig R d s =
        ((case ct_configs (view s) d of Some c \<Rightarrow> Ok c | None \<Rightarrow> Err (ErrRepoItemNotFound, zero_config)), s)"
    and config_in_range:
      "inv s \<Longrightarrow> ct_configs (view s) d = Some c \<Longrightarrow>
       \<not> is_nan (cfg_TemperatureThreshold c) \<and> in_int32 (cfg_BatteryThreshold c)"
    and alert_law:
      "inv s \<Longrightarrow> repo_SaveDeviceAlert R d a s = (r, s') \<Longrightarrow>
       inv s' \<and> (r = Ok () \<and> view s' = add_alerts d [kept_alert a] (view s) \<or>
                 (\<exists>e. r = Err e) \<and> view s' = view s)"
    and alert_live:
      "healthy (Suc k) s \<Longrightarrow> \<exists>s'. repo_SaveDeviceAlert R d a s = (Ok (), s') \<and> healthy k s'"
begin

text \<open>A configuration that was stored is the one read back; other devices keep theirs.\<close>

lemma upsert_then_get:
  assumes "inv s" and "in_int32 (cfg_BatteryThreshold c)" and "\<not> is_nan (cfg_TemperatureThreshold c)"
    and "healthy k s" and "repo_UpsertDeviceConfig R d c s = (r, s')"
  shows "repo_GetDeviceConfig R d' s' =
    ((if d' = d then Ok c
      else case ct_configs (view s) d' of Some c' \<Rightarrow> Ok c' | None \<Rightarrow> Err (ErrRepoItemNotFound, zero_config)), s')"
proof -
  obtain s'' where "repo_UpsertDeviceConfig R d c s = (Ok (), s'')" "healthy k s''"
    using upsert_live assms by blast
  then have h: "healthy k s'" "r = Ok ()" using assms(5) by simp_all
  then have "view s' = set_config d c (view s)"
    using upsert_law [OF assms(1,2,5)] by simp_all
  then show ?thesis using config_live [OF h(1)] by simp
qed

end

text \<open>
  The listing: \<open>listing s d tf tk\<close> is what is left to show from a token on. A page of size
  \<open>n\<close> is its first \<open>n\<close> alerts, and carries a token exactly when there are more, from which
  the listing goes on where the page ended. \<open>issued\<close> are the tokens the store hands out.
\<close>

locale device_repository = device_store R inv healthy view
  for R :: "'s Repository" and inv healthy view +
  fixes listing :: "'s \<Rightarrow> string \<Rightarrow> Timeframe \<Rightarrow> RepositoryPageToken option \<Rightarrow> Alert list"
    and issued :: "'s \<Rightarrow> string \<Rightarrow> Timeframe \<Rightarrow> RepositoryPageToken option \<Rightarrow> bool"
  assumes issued_start: "issued s d tf None"
    and issued_token:
      "inv s \<Longrightarrow> issued s d tf (Some t) \<Longrightarrow>
       \<exists>a i. a \<in> set (ct_alerts (view s) d) \<and> t = \<lparr>LastTime = Some (al_Time a), LastID = Some i\<rparr> \<and> in_int64 i"
    and page_keeps:
      "inv s \<Longrightarrow> repo_GetDeviceAlerts R d tf po s = (res, s') \<Longrightarrow> inv s' \<and> view s' = view s"
    and page_safe:
      "0 < n \<Longrightarrow> n < 9223372036854775807 \<Longrightarrow>
       (case tk of None \<Rightarrow> True | Some t \<Rightarrow> LastTime t \<noteq> None) \<Longrightarrow>
       \<not> is_panic (fst (repo_GetDeviceAlerts R d tf \<lparr>po_Size = n, po_Token = tk\<rparr> s))"
    and page_bound:
      "0 < n \<Longrightarrow> n < 9223372036854775807 \<Longrightarrow>
       repo_GetDeviceAlerts R d tf \<lparr>po_Size = n, po_Token = tk\<rparr> s = (Ok page, s') \<Longrightarrow>
       int (length (pg_Items page)) \<le> n"
    and page_items:
      "inv s \<Longrightarrow> repo_GetDeviceAlerts R d tf po s = (Ok page, s') \<Longrightarrow> a \<in> set (pg_Items page) \<Longrightarrow>
       a \<in> set (ct_alerts (view s) d) \<and> in_timeframe tf (al_Time a)"
    and page_law:
      "inv s \<Longrightarrow> healthy k s \<Longrightarrow> issued s d tf tk \<Longrightarrow> 0 < n \<Longrightarrow> n < 9223372036854775807 \<Longrightarrow>
       \<exists>nt. repo_GetDeviceAlerts R d tf \<lparr>po_Size = n, po_Token = tk\<rparr> s =
          (Ok \<lparr>pg_Items = take (nat n) (listing s d tf tk), pg_NextPageToken = nt\<rparr>, s) \<and>
        (if int (length (listing s d tf tk)) \<le> n then nt = None
         else issued s d tf nt \<and> nt \<noteq> None \<and> listing s d tf nt = drop (nat n) (listing s d tf tk))"
    and listing_law:
      "inv s \<Longrightarrow> listing s d tf None = newest_first al_Time tf (ct_alerts (view s) d)"
    and listing_sorted:
      "inv s \<Longrightarrow> sorted_wrt (\<lambda>a b. t_Unix (al_Time b) \<le> t_Unix (al_Time a)) (listing s d tf tk)"
begin

lemma listing_mset:
  "inv s \<Longrightarrow> mset (listing s d tf None) = mset (filter (\<lambda>a. in_timeframe tf (al_Time a)) (ct_alerts (view s) d))"
  by (simp add: listing_law newest_first_mset)

end

end
