(* ===== verification/Validation.thy ===== *)
theory Validation
  imports HttpError GoFloat GoTime
begin

text \<open>
  \<^verbatim>\<open>device/validation.go\<close> with the request types of \<^verbatim>\<open>device/echo_handler.go\<close> and the
  limits of \<^verbatim>\<open>device/service.go\<close>. Each \<open>validate\<close> function is the chain of validator
  calls of the source; \<open>rules\<close> lemmas restate it as a list of rules, from which the
  acceptance theorems follow by one lemma on \<^const>\<open>check\<close>.
\<close>

section \<open>Requests and limits\<close>

record ConfigureDeviceRequest =
  cdr_DeviceID :: string
  cdr_TemperatureThreshold :: float64
  cdr_BatteryThreshold :: int

record RecordMetricRequest =
  rmr_DeviceID :: string
  rmr_Temperature :: float64
  rmr_Battery :: int
  rmr_Timestamp :: go_time

record GetDeviceAlertsRequest =
  gar_DeviceID :: string
  gar_TimeframeStart :: "go_time option"
  gar_TimeframeEnd :: "go_time option"
  gar_PageSize :: int
  gar_PageToken :: string

definition defaultPageSize :: int where "defaultPageSize = 100"
definition maxPageSize :: int where "maxPageSize = 250"
definition minTemperature :: float64 where "minTemperature = FFin True 10000 0"
definition maxTemperature :: float64 where "maxTemperature = FFin False 10000 0"
definition minBattery :: int where "minBattery = 0"
definition maxBattery :: int where "maxBattery = 100"

section \<open>Blank strings\<close>

text \<open>
  \<^verbatim>\<open>strings.TrimSpace(s) == ""\<close>: every rune of \<open>s\<close> is a Unicode space. \<open>trim_left\<close> drops
  the spaces at the front, one to three bytes each; trimming the right end as well cannot empty
  a string whose first rune is not a space.
\<close>

definition ascii_space :: "char \<Rightarrow> bool" where
  "ascii_space c \<longleftrightarrow> c = CHR 0x20 \<or> (9 \<le> (of_char c :: nat) \<and> (of_char c :: nat) \<le> 13)"

definition space2 :: "char \<Rightarrow> char \<Rightarrow> bool" where
  "space2 c d \<longleftrightarrow> c = CHR 0xC2 \<and> (d = CHR 0x85 \<or> d = CHR 0xA0)"

definition space3 :: "char \<Rightarrow> char \<Rightarrow> char \<Rightarrow> bool" where
  "space3 c d e \<longleftrightarrow>
     (c = CHR 0xE1 \<and> d = CHR 0x9A \<and> e = CHR 0x80) \<or>
     (c = CHR 0xE2 \<and> d = CHR 0x80 \<and>
       ((128 \<le> (of_char e :: nat) \<and> (of_char e :: nat) \<le> 138) \<or>
        e = CHR 0xA8 \<or> e = CHR 0xA9 \<or> e = CHR 0xAF)) \<or>
     (c = CHR 0xE2 \<and> d = CHR 0x81 \<and> e = CHR 0x9F) \<or>
     (c = CHR 0xE3 \<and> d = CHR 0x80 \<and> e = CHR 0x80)"

fun trim_left :: "string \<Rightarrow> string" where
  "trim_left [] = []"
| "trim_left [c] = (if ascii_space c then [] else [c])"
| "trim_left [c, d] =
     (if ascii_space c then trim_left [d] else if space2 c d then [] else [c, d])"
| "trim_left (c # d # e # s) =
     (if ascii_space c then trim_left (d # e # s)
      else if space2 c d then trim_left (e # s)
      else if space3 c d e then trim_left s
      else c # d # e # s)"

definition isBlank :: "string \<Rightarrow> bool" where
  "isBlank s \<longleftrightarrow> trim_left s = []"

lemma isBlank_ascii: "list_all ascii_space s \<Longrightarrow> isBlank s"
  unfolding isBlank_def by (induction s rule: trim_left.induct) auto

lemma not_isBlank_first:
  assumes "\<not> ascii_space c" and "(of_char c :: nat) < 128"
  shows "\<not> isBlank (c # s)"
proof -
  have "\<not> space2 c d" "\<not> space3 c d e" for d e
    using assms(2) by (auto simp: space2_def space3_def)
  with assms(1) show ?thesis
    by (cases s; cases "tl s") (auto simp: isBlank_def)
qed

section \<open>The three validators\<close>

definition between_f :: "float64 \<Rightarrow> float64 \<Rightarrow> string" where
  "between_f lo hi = ''Must be between '' @ fmt_f2 lo @ '' and '' @ fmt_f2 hi"

definition between_d :: "int \<Rightarrow> int \<Rightarrow> string" where
  "between_d lo hi = ''Must be between '' @ int_dec lo @ '' and '' @ int_dec hi"

definition validateConfigureDeviceReq :: "ConfigureDeviceRequest \<Rightarrow> go_error option" where
  "validateConfigureDeviceReq req =
     (let v = NewRequestValidator;
          v = Message (When (Field v ''device_id'') (isBlank (cdr_DeviceID req))) ''Must not be blank'';
          v = Messagef (When (Field v ''temperature_threshold'')
                (f_lt (cdr_TemperatureThreshold req) minTemperature \<or>
                 f_gt (cdr_TemperatureThreshold req) maxTemperature))
                (between_f minTemperature maxTemperature);
          v = Messagef (When (Field v ''battery_threshold'')
                (cdr_BatteryThreshold req < minBattery \<or> cdr_BatteryThreshold req > maxBattery))
                (between_d minBattery maxBattery)
      in validator_Error v)"

definition validateRecordMetricReq :: "RecordMetricRequest \<Rightarrow> go_error option" where
  "validateRecordMetricReq req =
     (let v = NewRequestValidator;
          v = Message (When (Field v ''device_id'') (isBlank (rmr_DeviceID req))) ''Must not be blank'';
          v = Message (When (Field v ''timestamp'') (t_IsZero (rmr_Timestamp req))) ''Must not be empty'';
          v = Messagef (When (Field v ''temperature'')
                (f_lt (rmr_Temperature req) minTemperature \<or>
                 f_gt (rmr_Temperature req) maxTemperature))
                (between_f minTemperature maxTemperature);
          v = Messagef (When (Field v ''battery'')
                (rmr_Battery req < minBattery \<or> rmr_Battery req > maxBattery))
                (between_d minBattery maxBattery)
      in validator_Error v)"

definition validateGetDeviceAlertsReq :: "GetDeviceAlertsRequest \<Rightarrow> go_error option" where
  "validateGetDeviceAlertsReq req =
     (let v = NewRequestValidator;
          v = Message (When (Field v ''device_id'') (isBlank (gar_DeviceID req))) ''Must not be blank'';
          v = (case gar_TimeframeStart req of
                 None \<Rightarrow> v
               | Some st \<Rightarrow>
                   (let v = Message (When (Field v ''timeframe.start'') (t_IsZero st)) ''Must not be empty''
                    in case gar_TimeframeEnd req of
                         None \<Rightarrow> v
                       | Some en \<Rightarrow>
                           Message (When (Field v ''timeframe.start'') (t_After st en))
                             ''Must be before timeframe.end''));
          v = (case gar_TimeframeEnd req of
                 None \<Rightarrow> v
               | Some en \<Rightarrow> Message (When (Field v ''timeframe.end'') (t_IsZero en)) ''Must not be empty'');
          v = Message (When (Field v ''page.size'') (gar_PageSize req < 0)) ''Must be greater than 0''
      in validator_Error v)"

section \<open>As lists of rules\<close>

type_synonym rule = "string \<times> bool \<times> string"

definition configure_rules :: "ConfigureDeviceRequest \<Rightarrow> rule list" where
  "configure_rules req =
    [(''device_id'', isBlank (cdr_DeviceID req), ''Must not be blank''),
     (''temperature_threshold'',
       f_lt (cdr_TemperatureThreshold req) minTemperature \<or> f_gt (cdr_TemperatureThreshold req) maxTemperature,
       between_f minTemperature maxTemperature),
     (''battery_threshold'',
       cdr_BatteryThreshold req < minBattery \<or> cdr_BatteryThreshold req > maxBattery,
       between_d minBattery maxBattery)]"

definition record_rules :: "RecordMetricRequest \<Rightarrow> rule list" where
  "record_rules req =
    [(''device_id'', isBlank (rmr_DeviceID req), ''Must not be blank''),
     (''timestamp'', t_IsZero (rmr_Timestamp req), ''Must not be empty''),
     (''temperature'',
       f_lt (rmr_Temperature req) minTemperature \<or> f_gt (rmr_Temperature req) maxTemperature,
       between_f minTemperature maxTemperature),
     (''battery'', rmr_Battery req < minBattery \<or> rmr_Battery req > maxBattery,
       between_d minBattery maxBattery)]"

definition alerts_rules :: "GetDeviceAlertsRequest \<Rightarrow> rule list" where
  "alerts_rules req =
    [(''device_id'', isBlank (gar_DeviceID req), ''Must not be blank'')] @
    (case gar_TimeframeStart req of
       None \<Rightarrow> []
     | Some st \<Rightarrow>
         (''timeframe.start'', t_IsZero st, ''Must not be empty'') #
         (case gar_TimeframeEnd req of
            None \<Rightarrow> []
          | Some en \<Rightarrow> [(''timeframe.start'', t_After st en, ''Must be before timeframe.end'')])) @
    (case gar_TimeframeEnd req of
       None \<Rightarrow> []
     | Some en \<Rightarrow> [(''timeframe.end'', t_IsZero en, ''Must not be empty'')]) @
    [(''page.size'', gar_PageSize req < 0, ''Must be greater than 0'')]"

lemma validate_as_rules:
  "validateConfigureDeviceReq c = validator_Error (fold check (configure_rules c) NewRequestValidator)"
  "validateRecordMetricReq r = validator_Error (fold check (record_rules r) NewRequestValidator)"
  "validateGetDeviceAlertsReq g = validator_Error (fold check (alerts_rules g) NewRequestValidator)"
  by (simp_all add: validateConfigureDeviceReq_def configure_rules_def
      validateRecordMetricReq_def record_rules_def
      validateGetDeviceAlertsReq_def alerts_rules_def go_simps Let_def split: option.split)

lemma new_validator_empty [simp]: "fieldViolations NewRequestValidator = []"
  by (simp add: NewRequestValidator_def)

text \<open>When validation fails, the error is a bad request with at least one field.\<close>

lemma validator_Error_SomeD:
  "validator_Error v = Some e \<Longrightarrow> \<exists>fv. e = ErrBadRequest fv \<and> fv \<noteq> [] \<and> fv = fieldViolations v"
  by (simp add: validator_Error_def split: if_splits)

lemma validate_error_bad_request:
  "validateConfigureDeviceReq c = Some e \<Longrightarrow> is_bad_request e"
  "validateRecordMetricReq r = Some e \<Longrightarrow> is_bad_request e"
  "validateGetDeviceAlertsReq g = Some e \<Longrightarrow> is_bad_request e"
  by (auto simp: validate_as_rules dest!: validator_Error_SomeD)

section \<open>What the validators accept\<close>

definition temperature_ok :: "float64 \<Rightarrow> bool" where
  "temperature_ok t \<longleftrightarrow> t = FNaN \<or> (f_finite t \<and> -10000 \<le> f_real t \<and> f_real t \<le> 10000)"

lemma temperature_ok_iff:
  "temperature_ok t \<longleftrightarrow> \<not> f_lt t minTemperature \<and> \<not> f_gt t maxTemperature"
proof (cases t)
  case (FFin s m e)
  then show ?thesis
    using f_lt_real [of t minTemperature] f_lt_real [of maxTemperature t]
    by (auto simp: temperature_ok_def f_gt_def minTemperature_def maxTemperature_def signed_def not_less)
qed (auto simp: temperature_ok_def f_gt_def minTemperature_def maxTemperature_def)

definition battery_ok :: "int \<Rightarrow> bool" where
  "battery_ok b \<longleftrightarrow> 0 \<le> b \<and> b \<le> 100"

lemma validateConfigure_None_iff:
  "validateConfigureDeviceReq req = None \<longleftrightarrow>
   \<not> isBlank (cdr_DeviceID req) \<and> temperature_ok (cdr_TemperatureThreshold req) \<and>
   battery_ok (cdr_BatteryThreshold req)"
  unfolding validate_as_rules fold_check_None_iff temperature_ok_iff battery_ok_def
  by (auto simp: configure_rules_def minBattery_def maxBattery_def)

lemma validateRecord_None_iff:
  "validateRecordMetricReq req = None \<longleftrightarrow>
   \<not> isBlank (rmr_DeviceID req) \<and> \<not> t_IsZero (rmr_Timestamp req) \<and>
   temperature_ok (rmr_Temperature req) \<and> battery_ok (rmr_Battery req)"
  unfolding validate_as_rules fold_check_None_iff temperature_ok_iff battery_ok_def
  by (auto simp: record_rules_def minBattery_def maxBattery_def)

lemma validateAlerts_None_iff:
  "validateGetDeviceAlertsReq req = None \<longleftrightarrow>
   \<not> isBlank (gar_DeviceID req) \<and>
   (\<forall>st. gar_TimeframeStart req = Some st \<longrightarrow> \<not> t_IsZero st \<and>
      (\<forall>en. gar_TimeframeEnd req = Some en \<longrightarrow> \<not> t_After st en)) \<and>
   (\<forall>en. gar_TimeframeEnd req = Some en \<longrightarrow> \<not> t_IsZero en) \<and>
   0 \<le> gar_PageSize req"
  unfolding validate_as_rules fold_check_None_iff
  by (cases "gar_TimeframeStart req"; cases "gar_TimeframeEnd req")
    (auto simp: alerts_rules_def not_less)

section \<open>The verdict\<close>

text \<open>The messages a list of rules leaves for a field.\<close>

lemma rules_verdict:
  assumes "validator_Error (fold check rs NewRequestValidator) = Some e"
  shows "\<exists>fv. e = ErrBadRequest fv \<and> distinct (map fst fv) \<and>
    map_of fv = (\<lambda>f. let ms = [m. (g, c, m) \<leftarrow> rs, g = f \<and> c] in if ms = [] then None else Some ms)"
  using validator_Error_SomeD [OF assms] fold_check_distinct [of NewRequestValidator rs]
    fold_check_lookup [of rs NewRequestValidator]
  by (auto simp: fun_eq_iff Let_def)

lemma four_rules:
  "distinct [a, b, c, d] \<Longrightarrow>
   (let ms = [m. (g, x, m) \<leftarrow> [(a, p, m1), (b, q, m2), (c, r, m3), (d, s, m4)], g = f \<and> x]
    in if ms = [] then None else Some ms) =
   (if f = a \<and> p then Some [m1] else if f = b \<and> q then Some [m2]
    else if f = c \<and> r then Some [m3] else if f = d \<and> s then Some [m4] else None)"
  by (cases "f = a"; cases "f = b"; cases "f = c"; cases "f = d") auto

text \<open>C31. The verdict on a metric: it is accepted when its device id is not blank, its time is given, and
  its readings are within the limits (a NaN passes as a temperature); otherwise the error is a bad request
  that lists each offending field once, with its message, and no other field.\<close>

theorem record_request_verdict:
  "case validateRecordMetricReq req of
     None \<Rightarrow> \<not> isBlank (rmr_DeviceID req) \<and> \<not> t_IsZero (rmr_Timestamp req) \<and>
       temperature_ok (rmr_Temperature req) \<and> 0 \<le> rmr_Battery req \<and> rmr_Battery req \<le> 100
   | Some e \<Rightarrow> \<exists>fv. e = ErrBadRequest fv \<and> distinct (map fst fv) \<and> fv \<noteq> [] \<and> map_of fv = (\<lambda>f.
       if f = ''device_id'' \<and> isBlank (rmr_DeviceID req) then Some [''Must not be blank'']
       else if f = ''timestamp'' \<and> t_IsZero (rmr_Timestamp req) then Some [''Must not be empty'']
       else if f = ''temperature'' \<and> \<not> temperature_ok (rmr_Temperature req)
         then Some [''Must be between -10000.00 and 10000.00'']
       else if f = ''battery'' \<and> (rmr_Battery req < 0 \<or> 100 < rmr_Battery req)
         then Some [''Must be between 0 and 100'']
       else None)"
proof (cases "validateRecordMetricReq req")
  case None
  then show ?thesis using validateRecord_None_iff [of req] by (simp add: battery_ok_def)
next
  case (Some e)
  have msgs: "between_f minTemperature maxTemperature = ''Must be between -10000.00 and 10000.00''"
    "between_d minBattery maxBattery = ''Must be between 0 and 100''" by code_simp+
  have conds: "f_lt (rmr_Temperature req) minTemperature \<or> f_gt (rmr_Temperature req) maxTemperature \<longleftrightarrow>
      \<not> temperature_ok (rmr_Temperature req)"
    "rmr_Battery req < minBattery \<or> rmr_Battery req > maxBattery \<longleftrightarrow> rmr_Battery req < 0 \<or> 100 < rmr_Battery req"
    by (auto simp: temperature_ok_iff minBattery_def maxBattery_def)
  obtain fv where fv: "e = ErrBadRequest fv" "distinct (map fst fv)"
    "map_of fv = (\<lambda>f. let ms = [m. (g, c, m) \<leftarrow> record_rules req, g = f \<and> c] in if ms = [] then None else Some ms)"
    using rules_verdict [of "record_rules req" e] Some by (auto simp: validate_as_rules)
  have "distinct [''device_id'', ''timestamp'', ''temperature'', ''battery'']" by simp
  note fv(3) [unfolded record_rules_def four_rules [OF this] msgs conds]
  moreover have "fv \<noteq> []" using Some fv(1) by (auto simp: validate_as_rules dest!: validator_Error_SomeD)
  ultimately show ?thesis using fv(1,2)
    by (simp add: Some)
qed

end
