(* ===== verification/Log.thy ===== *)
theory Log
  imports HttpError GoFloat GoTime
begin

text \<open>
  \<^verbatim>\<open>log/logger.go\<close>. A logger is the level and kind of its handler and the attributes
  \<^verbatim>\<open>With\<close> added; what it writes is a list of entries. Rendering an entry is the handler's
  work (\<^verbatim>\<open>log/slog\<close>, \<^verbatim>\<open>tint\<close>) and stays outside.
\<close>

datatype log_val = LStr string | LInt int | LFloat float64 | LTime go_time | LErr go_error

record LogEntry =
  le_Level :: int
  le_Msg :: string
  le_Attrs :: "(string \<times> log_val) list"

text \<open>The levels of \<^verbatim>\<open>log/slog\<close>.\<close>

definition LevelDebug :: int where "LevelDebug = -4"
definition LevelInfo :: int where "LevelInfo = 0"
definition LevelWarn :: int where "LevelWarn = 4"
definition LevelError :: int where "LevelError = 8"

datatype handler_kind = JSONHandler | TintHandler

record loggerOptions =
  lo_level :: int
  lo_handler :: handler_kind

type_synonym LoggerOption = "loggerOptions \<Rightarrow> loggerOptions"

definition WithLevel :: "int \<Rightarrow> LoggerOption" where
  "WithLevel level opts = opts\<lparr>lo_level := level\<rparr>"

definition WithDevelopment :: LoggerOption where
  "WithDevelopment opts = opts\<lparr>lo_handler := TintHandler\<rparr>"

record Logger =
  lg_level :: int
  lg_handler :: handler_kind
  lg_attrs :: "(string \<times> log_val) list"

definition NewLogger :: "LoggerOption list \<Rightarrow> Logger" where
  "NewLogger opts =
     (let o' = fold (\<lambda>opt o'. opt o') opts \<lparr>lo_level = LevelInfo, lo_handler = JSONHandler\<rparr>
      in \<lparr>lg_level = lo_level o', lg_handler = lo_handler o', lg_attrs = []\<rparr>)"

definition logger_With :: "Logger \<Rightarrow> (string \<times> log_val) list \<Rightarrow> Logger" where
  "logger_With l args = l\<lparr>lg_attrs := lg_attrs l @ args\<rparr>"

text \<open>A handler drops the entries below its level.\<close>

definition logger_Log ::
  "Logger \<Rightarrow> int \<Rightarrow> string \<Rightarrow> (string \<times> log_val) list \<Rightarrow> LogEntry list \<Rightarrow> LogEntry list" where
  "logger_Log l level msg args out =
     (if level < lg_level l then out
      else out @ [\<lparr>le_Level = level, le_Msg = msg, le_Attrs = lg_attrs l @ args\<rparr>])"

definition logger_Info ::
  "Logger \<Rightarrow> string \<Rightarrow> (string \<times> log_val) list \<Rightarrow> LogEntry list \<Rightarrow> LogEntry list" where
  "logger_Info l = logger_Log l LevelInfo"

definition logger_Debug ::
  "Logger \<Rightarrow> string \<Rightarrow> (string \<times> log_val) list \<Rightarrow> LogEntry list \<Rightarrow> LogEntry list" where
  "logger_Debug l = logger_Log l LevelDebug"

definition logger_Warn ::
  "Logger \<Rightarrow> string \<Rightarrow> (string \<times> log_val) list \<Rightarrow> LogEntry list \<Rightarrow> LogEntry list" where
  "logger_Warn l = logger_Log l LevelWarn"

definition logger_Error ::
  "Logger \<Rightarrow> string \<Rightarrow> (string \<times> log_val) list \<Rightarrow> LogEntry list \<Rightarrow> LogEntry list" where
  "logger_Error l = logger_Log l LevelError"

definition ParseLevel :: "string \<Rightarrow> int \<times> bool" where
  "ParseLevel level =
     (if level = ''debug'' then (LevelDebug, True)
      else if level = ''info'' then (LevelInfo, True)
      else if level = ''warn'' then (LevelWarn, True)
      else if level = ''error'' then (LevelError, True)
      else (-1, False))"

lemma ParseLevel_ok_iff:
  "snd (ParseLevel s) \<longleftrightarrow> s \<in> {''debug'', ''info'', ''warn'', ''error''}"
  by (simp add: ParseLevel_def)

text \<open>The last option that sets a level wins; the default is info on the JSON handler.\<close>

lemma NewLogger_level:
  "lg_level (NewLogger (opts @ [WithLevel lv])) = lv"
  "lg_level (NewLogger []) = LevelInfo"
  by (simp_all add: NewLogger_def Let_def WithLevel_def)

lemma fold_development_level:
  "set opts \<subseteq> {WithDevelopment} \<Longrightarrow> lo_level (fold (\<lambda>opt o'. opt o') opts o') = lo_level o'"
  by (induction opts arbitrary: o') (auto simp: WithDevelopment_def)

lemma logger_Info_written:
  "lg_level l \<le> LevelInfo \<Longrightarrow>
   logger_Info l msg args out = out @ [\<lparr>le_Level = LevelInfo, le_Msg = msg, le_Attrs = lg_attrs l @ args\<rparr>]"
  by (simp add: logger_Info_def logger_Log_def)

lemma logger_With_level [simp]: "lg_level (logger_With l args) = lg_level l"
  by (simp add: logger_With_def)

end
