(* ===== verification/Service.thy ===== *)
theory Service
  imports Device Validation Log
begin

text \<open>
  \<^verbatim>\<open>device/service.go\<close>. The service has a repository and a logger; its state is the store
  behind the repository and what has been logged. The lemmas about it are proved in the locales
  of \<open>Device\<close>, for any repository that keeps the contract.
\<close>

section \<open>State\<close>

record 's Service =
  sv_repo :: "'s Repository"
  sv_logger :: Logger

record 's svc_state =
  st_store :: 's
  st_log :: "LogEntry list"

record GetDeviceAlertsResponse =
  gares_Alerts :: "Alert list"
  gares_NextPageToken :: string

definition NewService :: "'s Repository \<Rightarrow> Logger \<Rightarrow> 's Service" where
  "NewService repo logger = \<lparr>sv_repo = repo, sv_logger = logger\<rparr>"

text \<open>A call into the repository, and a line of the log.\<close>

definition in_store :: "('s, 'e, 'a) run \<Rightarrow> ('s svc_state, 'e, 'a) run" where
  "in_store m w = (case m (st_store w) of (res, s') \<Rightarrow> (res, w\<lparr>st_store := s'\<rparr>))"

definition log_info :: "Logger \<Rightarrow> string \<Rightarrow> (string \<times> log_val) list \<Rightarrow> 's svc_state \<Rightarrow> 's svc_state" where
  "log_info l msg args w = w\<lparr>st_log := logger_Info l msg args (st_log w)\<rparr>"

lemma log_info_store [simp]: "st_store (log_info l msg args w) = st_store w"
  by (simp add: log_info_def)

lemma in_store_eq: "m (st_store w) = (res, s') \<Longrightarrow> in_store m w = (res, w\<lparr>st_store := s'\<rparr>)"
  by (simp add: in_store_def)

section \<open>Operations\<close>

definition ConfigureDevice ::
  "'s Service \<Rightarrow> ConfigureDeviceRequest \<Rightarrow> ('s svc_state, go_error, unit) run" where
  "ConfigureDevice s req w =
     (case validateConfigureDeviceReq req of
        Some err \<Rightarrow> (Err err, w)
      | None \<Rightarrow>
          on_ok (wrap_err ''upsert device config'' (in_store
              (repo_UpsertDeviceConfig (sv_repo s) (cdr_DeviceID req)
                \<lparr>cfg_TemperatureThreshold = cdr_TemperatureThreshold req,
                 cfg_BatteryThreshold = cdr_BatteryThreshold req\<rparr>)))
            (\<lambda>_ w. (Ok (), log_info (sv_logger s) ''configured device''
              [(''device_id'', LStr (cdr_DeviceID req)),
               (''temperature_threshold'', LFloat (cdr_TemperatureThreshold req)),
               (''battery_threshold'', LInt (cdr_BatteryThreshold req))] w)) w)"

definition tempHighDesc :: "float64 \<Rightarrow> float64 \<Rightarrow> string" where
  "tempHighDesc temp threshold =
     ''Temperature ('' @ fmt_f2 temp @ '') exceeded configured threshold ('' @ fmt_f2 threshold @ '')''"

definition batteryLowDesc :: "int \<Rightarrow> int \<Rightarrow> string" where
  "batteryLowDesc battery threshold =
     ''Battery ('' @ int_dec battery @ '') dropped below configured threshold ('' @
     int_dec threshold @ '')''"

text \<open>The two blocks of \<^verbatim>\<open>RecordMetric\<close> that raise an alert.\<close>

definition temperature_alert :: "RecordMetricRequest \<Rightarrow> Config \<Rightarrow> Alert" where
  "temperature_alert req cfg = \<lparr>al_Reason = AlertReasonTemperatureHigh,
     al_Desc = tempHighDesc (rmr_Temperature req) (cfg_TemperatureThreshold cfg),
     al_Time = t_UTC (rmr_Timestamp req)\<rparr>"

definition battery_alert :: "RecordMetricRequest \<Rightarrow> Config \<Rightarrow> Alert" where
  "battery_alert req cfg = \<lparr>al_Reason = AlertReasonBatteryLow,
     al_Desc = batteryLowDesc (rmr_Battery req) (cfg_BatteryThreshold cfg),
     al_Time = t_UTC (rmr_Timestamp req)\<rparr>"

definition check_temperature ::
  "'s Service \<Rightarrow> Logger \<Rightarrow> RecordMetricRequest \<Rightarrow> Config \<Rightarrow> ('s svc_state, go_error, unit) run" where
  "check_temperature s logger req cfg w =
     (if f_gt (rmr_Temperature req) (cfg_TemperatureThreshold cfg) then
        wrap_err ''save temperature alert'' (in_store
            (repo_SaveDeviceAlert (sv_repo s) (rmr_DeviceID req) (temperature_alert req cfg)))
          (log_info logger ''alert triggered''
             [(''reason'', LStr (al_Reason (temperature_alert req cfg))),
              (''temperature'', LFloat (rmr_Temperature req)),
              (''threshold'', LFloat (cfg_TemperatureThreshold cfg)),
              (''difference'', LStr (fmt_f2 (f_sub (rmr_Temperature req) (cfg_TemperatureThreshold cfg))))] w)
      else (Ok (), w))"

definition check_battery ::
  "'s Service \<Rightarrow> Logger \<Rightarrow> RecordMetricRequest \<Rightarrow> Config \<Rightarrow> ('s svc_state, go_error, unit) run" where
  "check_battery s logger req cfg w =
     (if rmr_Battery req < cfg_BatteryThreshold cfg then
        wrap_err ''save battery alert'' (in_store
            (repo_SaveDeviceAlert (sv_repo s) (rmr_DeviceID req) (battery_alert req cfg)))
          (log_info logger ''alert triggered''
             [(''reason'', LStr (al_Reason (battery_alert req cfg))),
              (''battery'', LInt (rmr_Battery req)),
              (''threshold'', LInt (cfg_BatteryThreshold cfg)),
              (''difference'', LInt (to_int32 (cfg_BatteryThreshold cfg - rmr_Battery req)))] w)
      else (Ok (), w))"

text \<open>
  The part of \<^verbatim>\<open>RecordMetric\<close> after the metric is saved. The error of
  \<^verbatim>\<open>GetDeviceConfig\<close> ends the call only when it says that nothing was found; on any other
  error the code goes on with the configuration returned beside it.
\<close>

definition evaluate_thresholds ::
  "'s Service \<Rightarrow> Logger \<Rightarrow> RecordMetricRequest \<Rightarrow> ('s svc_state, go_error, unit) run" where
  "evaluate_thresholds s logger req w =
     (case in_store (repo_GetDeviceConfig (sv_repo s) (rmr_DeviceID req))
         (log_info logger ''recorded metric''
           [(''temperature'', LFloat (rmr_Temperature req)), (''battery'', LInt (rmr_Battery req))] w) of
        (Panic p, w) \<Rightarrow> (Panic p, w)
      | (Err (err, cfg), w) \<Rightarrow>
          if errors_Is err ErrRepoItemNotFound then (Ok (), w)
          else on_ok (check_temperature s logger req cfg) (\<lambda>_. check_battery s logger req cfg) w
      | (Ok cfg, w) \<Rightarrow>
          on_ok (check_temperature s logger req cfg) (\<lambda>_. check_battery s logger req cfg) w)"

definition RecordMetric ::
  "'s Service \<Rightarrow> RecordMetricRequest \<Rightarrow> ('s svc_state, go_error, unit) run" where
  "RecordMetric s req w =
     (case validateRecordMetricReq req of
        Some err \<Rightarrow> (Err err, w)
      | None \<Rightarrow>
          (let timestamp = t_UTC (rmr_Timestamp req);
               logger = logger_With (sv_logger s)
                 [(''device_id'', LStr (rmr_DeviceID req)),
                  (''timestamp'', LStr (format_rfc3339 timestamp))];
               metric = \<lparr>met_Temperature = rmr_Temperature req, met_Battery = rmr_Battery req,
                         met_Time = timestamp\<rparr>
           in on_ok (wrap_err ''save device metric'' (in_store
                  (repo_SaveDeviceMetric (sv_repo s) (rmr_DeviceID req) metric)))
                (\<lambda>_. evaluate_thresholds s logger req) w))"

definition page_size :: "int \<Rightarrow> int" where
  "page_size n = (if n = 0 then defaultPageSize else if n > maxPageSize then maxPageSize else n)"

definition GetDeviceAlerts ::
  "'s Service \<Rightarrow> GetDeviceAlertsRequest \<Rightarrow> ('s svc_state, go_error, GetDeviceAlertsResponse) run" where
  "GetDeviceAlerts s req w =
     (case validateGetDeviceAlertsReq req of
        Some err \<Rightarrow> (Err err, w)
      | None \<Rightarrow>
          (case (if gar_PageToken req = [] then Some None
                 else map_option Some (decodePageToken (gar_PageToken req))) of
             None \<Rightarrow> (Err (ErrBadRequest []), w)
           | Some pageTkn \<Rightarrow>
               on_ok (wrap_err ''get device alerts'' (in_store
                   (repo_GetDeviceAlerts (sv_repo s) (gar_DeviceID req)
                     \<lparr>tf_Start = gar_TimeframeStart req, tf_End = gar_TimeframeEnd req\<rparr>
                     \<lparr>po_Size = page_size (gar_PageSize req), po_Token = pageTkn\<rparr>)))
                 (\<lambda>page w.
                   (case pg_NextPageToken page of
                      None \<Rightarrow> (Ok \<lparr>gares_Alerts = pg_Items page, gares_NextPageToken = []\<rparr>, w)
                    | Some tkn \<Rightarrow>
                        (case encodePageToken tkn of
                           Inl err \<Rightarrow> (Err (ErrNew err), w)
                         | Inr nextPageTkn \<Rightarrow>
                             (Ok \<lparr>gares_Alerts = pg_Items page,
                                  gares_NextPageToken = nextPageTkn\<rparr>, w)))) w))"

section \<open>What recording a metric does\<close>

text \<open>The alerts a metric raises against a configuration, temperature first.\<close>

definition alerts_raised :: "RecordMetricRequest \<Rightarrow> Config \<Rightarrow> Alert list" where
  "alerts_raised req cfg =
     (if f_gt (rmr_Temperature req) (cfg_TemperatureThreshold cfg) then [temperature_alert req cfg] else []) @
     (if rmr_Battery req < cfg_BatteryThreshold cfg then [battery_alert req cfg] else [])"

definition recorded_metric :: "RecordMetricRequest \<Rightarrow> Metric" where
  "recorded_metric req = \<lparr>met_Temperature = rmr_Temperature req, met_Battery = rmr_Battery req,
     met_Time = t_UTC (rmr_Timestamp req)\<rparr>"

lemma recorded_metric_simps [simp]:
  "met_Temperature (recorded_metric req) = rmr_Temperature req"
  "met_Battery (recorded_metric req) = rmr_Battery req"
  by (simp_all add: recorded_metric_def)

lemma RecordMetric_invalid:
  "validateRecordMetricReq req = Some err \<Longrightarrow> RecordMetric S req w = (Err err, w)"
  by (simp add: RecordMetric_def)

text \<open>The steps of a valid call, for use with the laws of the store.\<close>

definition metric_logger :: "'s Service \<Rightarrow> RecordMetricRequest \<Rightarrow> Logger" where
  "metric_logger S req = logger_With (sv_logger S) [(''device_id'', LStr (rmr_DeviceID req)),
     (''timestamp'', LStr (format_rfc3339 (t_UTC (rmr_Timestamp req))))]"

lemma RecordMetric_valid:
  "validateRecordMetricReq req = None \<Longrightarrow>
   RecordMetric S req w = on_ok (wrap_err ''save device metric'' (in_store
       (repo_SaveDeviceMetric (sv_repo S) (rmr_DeviceID req) (recorded_metric req))))
     (\<lambda>_. evaluate_thresholds S (metric_logger S req) req) w"
  by (simp add: RecordMetric_def recorded_metric_def metric_logger_def Let_def)

text \<open>
  What a call that recorded its metric leaves behind: the metric, and the first \<open>n\<close> of the
  alerts the configuration \<open>cfg\<close> calls for.
\<close>

definition recorded :: "RecordMetricRequest \<Rightarrow> Alert list \<Rightarrow> contents \<Rightarrow> contents" where
  "recorded req as ct = add_alerts (rmr_DeviceID req) (map kept_alert as)
     (add_metric (rmr_DeviceID req) (kept_metric (recorded_metric req)) ct)"

text \<open>
  Which alerts \<open>as\<close> a call with result \<open>r\<close> may have saved when the device's configuration is
  \<open>found\<close>: those of the configuration, all of them if the call succeeds; none if there is no
  configuration; and, when the configuration could not be read, those of the zero one.
\<close>

definition alert_outcome ::
  "Config option \<Rightarrow> RecordMetricRequest \<Rightarrow> (go_error, unit) outcome \<Rightarrow> Alert list \<Rightarrow> bool" where
  "alert_outcome found req r as \<longleftrightarrow>
     (found = None \<and> as = [] \<and> r = Ok ()) \<or>
     (\<exists>cfg n. (found = Some cfg \<or> cfg = zero_config) \<and> as = take n (alerts_raised req cfg) \<and>
        (r = Ok () \<and> n = length (alerts_raised req cfg) \<or> (\<exists>e. r = Err e)))"

text \<open>The alerts a metric calls for.\<close>

definition alerts_due :: "contents \<Rightarrow> RecordMetricRequest \<Rightarrow> Alert list" where
  "alerts_due ct req =
     (case ct_configs ct (rmr_DeviceID req) of None \<Rightarrow> [] | Some cfg \<Rightarrow> alerts_raised req cfg)"

definition requested_config :: "ConfigureDeviceRequest \<Rightarrow> Config" where
  "requested_config req = \<lparr>cfg_TemperatureThreshold = cdr_TemperatureThreshold req,
     cfg_BatteryThreshold = cdr_BatteryThreshold req\<rparr>"

lemma alert_outcomeI:
  assumes "found = Some cfg \<or> cfg = zero_config"
    and "r = Ok () \<and> n = length (alerts_raised req cfg) \<or> (\<exists>e. r = Err e)"
  shows "alert_outcome found req r (take n (alerts_raised req cfg))"
  unfolding alert_outcome_def using assms by blast

section \<open>The client of a device store\<close>

context device_store
begin

lemma check_temperature_effect:
  assumes "inv (st_store w)" and "sv_repo S = R" and "check_temperature S l req cfg w = (r, w')"
  shows "inv (st_store w') \<and>
    (r = Ok () \<and> view (st_store w') = add_alerts (rmr_DeviceID req)
        (if f_gt (rmr_Temperature req) (cfg_TemperatureThreshold cfg)
         then [kept_alert (temperature_alert req cfg)] else []) (view (st_store w)) \<or>
     (\<exists>e. r = Err e) \<and> view (st_store w') = view (st_store w))"
proof (cases "f_gt (rmr_Temperature req) (cfg_TemperatureThreshold cfg)")
  case True
  obtain q s' where q: "repo_SaveDeviceAlert R (rmr_DeviceID req) (temperature_alert req cfg) (st_store w) = (q, s')"
    by fastforce
  from alert_law [OF assms(1) q] show ?thesis
    using assms(2,3) True q
    by (auto simp: check_temperature_def in_store_def wrap_err_def)
qed (use assms in \<open>auto simp: check_temperature_def\<close>)

lemma check_battery_effect:
  assumes "inv (st_store w)" and "sv_repo S = R" and "check_battery S l req cfg w = (r, w')"
  shows "inv (st_store w') \<and>
    (r = Ok () \<and> view (st_store w') = add_alerts (rmr_DeviceID req)
        (if rmr_Battery req < cfg_BatteryThreshold cfg
         then [kept_alert (battery_alert req cfg)] else []) (view (st_store w)) \<or>
     (\<exists>e. r = Err e) \<and> view (st_store w') = view (st_store w))"
proof (cases "rmr_Battery req < cfg_BatteryThreshold cfg")
  case True
  obtain q s' where q: "repo_SaveDeviceAlert R (rmr_DeviceID req) (battery_alert req cfg) (st_store w) = (q, s')"
    by fastforce
  from alert_law [OF assms(1) q] show ?thesis
    using assms(2,3) True q
    by (auto simp: check_battery_def in_store_def wrap_err_def)
qed (use assms in \<open>auto simp: check_battery_def\<close>)

text \<open>
  Raising the alerts of a configuration: all of them when the call succeeds, and the first of
  them when it fails half way.
\<close>

lemma raise_effect:
  assumes "inv (st_store w)" and "sv_repo S = R"
    and call: "on_ok (check_temperature S l req cfg) (\<lambda>_. check_battery S l req cfg) w = (r, w')"
  shows "inv (st_store w') \<and> (\<exists>n. view (st_store w') =
      add_alerts (rmr_DeviceID req) (map kept_alert (take n (alerts_raised req cfg))) (view (st_store w)) \<and>
      (r = Ok () \<and> n = length (alerts_raised req cfg) \<or> (\<exists>e. r = Err e)))"
proof -
  let ?hot = "f_gt (rmr_Temperature req) (cfg_TemperatureThreshold cfg)"
  obtain q w1 where q: "check_temperature S l req cfg w = (q, w1)" by fastforce
  note t = check_temperature_effect [OF assms(1,2) q]
  then consider (ok) "q = Ok ()" | (err) e where "q = Err e" "view (st_store w1) = view (st_store w)"
    by auto
  then show ?thesis
  proof cases
    case ok
    then have "check_battery S l req cfg w1 = (r, w')" using call q by simp
    moreover have "inv (st_store w1)" using t by simp
    ultimately have b: "inv (st_store w')" "r = Ok () \<and> view (st_store w') = add_alerts (rmr_DeviceID req)
        (if rmr_Battery req < cfg_BatteryThreshold cfg
         then [kept_alert (battery_alert req cfg)] else []) (view (st_store w1)) \<or>
       (\<exists>e. r = Err e) \<and> view (st_store w') = view (st_store w1)"
      using check_battery_effect assms(2) by blast+
    have v1: "view (st_store w1) = add_alerts (rmr_DeviceID req)
        (map kept_alert (take (if ?hot then 1 else 0) (alerts_raised req cfg))) (view (st_store w))"
      using t ok by (simp add: alerts_raised_def)
    from b(2) show ?thesis
    proof (elim disjE conjE)
      assume "r = Ok ()" and "view (st_store w') = add_alerts (rmr_DeviceID req)
        (if rmr_Battery req < cfg_BatteryThreshold cfg
         then [kept_alert (battery_alert req cfg)] else []) (view (st_store w1))"
      then show ?thesis using b(1) v1
        by (intro conjI exI [of _ "length (alerts_raised req cfg)"]) (auto simp: alerts_raised_def)
    next
      assume "\<exists>e. r = Err e" and "view (st_store w') = view (st_store w1)"
      then show ?thesis using b(1) v1
        by (intro conjI exI [of _ "if ?hot then 1 else 0"] disjI2) simp_all
    qed
  next
    case err
    then have "r = Err e" "w' = w1" using call q by simp_all
    with err t show ?thesis by (auto intro: exI [of _ 0])
  qed
qed

lemma evaluate_effect:
  assumes "inv (st_store w)" and "sv_repo S = R"
    and call: "evaluate_thresholds S l req w = (r, w')"
  shows "inv (st_store w') \<and> (\<exists>as. alert_outcome (ct_configs (view (st_store w)) (rmr_DeviceID req)) req r as \<and>
    view (st_store w') = add_alerts (rmr_DeviceID req) (map kept_alert as) (view (st_store w)))"
proof -
  let ?w = "log_info l ''recorded metric''
      [(''temperature'', LFloat (rmr_Temperature req)), (''battery'', LInt (rmr_Battery req))] w"
  obtain q s1 where q: "repo_GetDeviceConfig R (rmr_DeviceID req) (st_store w) = (q, s1)" by fastforce
  let ?w1 = "?w\<lparr>st_store := s1\<rparr>"
  have read: "in_store (repo_GetDeviceConfig (sv_repo S) (rmr_DeviceID req)) ?w = (q, ?w1)"
    using q assms(2) by (intro in_store_eq) simp
  note law = config_law [OF assms(1) q]
  have inv1: "inv (st_store ?w1)" and view1: "view (st_store ?w1) = view (st_store w)" using law by simp_all
  from law consider (found) cfg where "q = Ok cfg" "ct_configs (view (st_store w)) (rmr_DeviceID req) = Some cfg"
    | (none) "q = Err (ErrRepoItemNotFound, zero_config)" "ct_configs (view (st_store w)) (rmr_DeviceID req) = None"
    | (failed) e where "q = Err (e, zero_config)" "\<not> errors_Is e ErrRepoItemNotFound"
    by auto
  then show ?thesis
  proof cases
    case found
    then have "on_ok (check_temperature S l req cfg) (\<lambda>_. check_battery S l req cfg) ?w1 = (r, w')"
      using call read by (simp add: evaluate_thresholds_def)
    from raise_effect [OF inv1 assms(2) this] found(2) show ?thesis
      unfolding view1 by (blast intro: alert_outcomeI)
  next
    case none
    then show ?thesis using call read inv1 view1
      by (auto simp: evaluate_thresholds_def alert_outcome_def intro!: exI [of _ "[]"])
  next
    case failed
    then have "on_ok (check_temperature S l req zero_config) (\<lambda>_. check_battery S l req zero_config) ?w1 = (r, w')"
      using call read by (simp add: evaluate_thresholds_def)
    from raise_effect [OF inv1 assms(2) this] show ?thesis
      unfolding view1 by (blast intro: alert_outcomeI)
  qed
qed

text \<open>
  Every outcome of \<open>RecordMetric\<close>: an error that stored nothing, or the metric stored and
  then the alerts of the device's configuration, or, when reading it failed, of the zero one.
\<close>

lemma record_effect:
  assumes inv: "inv (st_store w)" and repo: "sv_repo S = R" and call: "RecordMetric S req w = (r, w')"
  shows "inv (st_store w') \<and>
    ((\<exists>e. r = Err e) \<and> view (st_store w') = view (st_store w) \<or>
     validateRecordMetricReq req = None \<and> \<not> is_nan (rmr_Temperature req) \<and>
     (\<exists>as. alert_outcome (ct_configs (view (st_store w)) (rmr_DeviceID req)) req r as \<and>
       view (st_store w') = recorded req as (view (st_store w))))"
proof (cases "validateRecordMetricReq req")
  case (Some err)
  then show ?thesis using call inv by (auto simp: RecordMetric_invalid)
next
  case None
  then have b: "in_int32 (rmr_Battery req)"
    by (simp add: validateRecord_None_iff battery_ok_def in_int32_def)
  obtain q s1 where q: "repo_SaveDeviceMetric R (rmr_DeviceID req) (recorded_metric req) (st_store w) = (q, s1)"
    by fastforce
  have save: "in_store (repo_SaveDeviceMetric (sv_repo S) (rmr_DeviceID req) (recorded_metric req)) w
      = (q, w\<lparr>st_store := s1\<rparr>)" using q repo by (intro in_store_eq) simp
  note law = metric_law [OF inv _ q, simplified, OF b]
  show ?thesis
  proof (cases "\<exists>e. q = Err e")
    case True
    then show ?thesis using call save law by (auto simp: RecordMetric_valid None)
  next
    case False
    then have ok: "q = Ok ()" "\<not> is_nan (rmr_Temperature req)" and inv1: "inv (st_store (w\<lparr>st_store := s1\<rparr>))"
      and view1: "view (st_store (w\<lparr>st_store := s1\<rparr>)) =
        add_metric (rmr_DeviceID req) (kept_metric (recorded_metric req)) (view (st_store w))"
      using law by auto
    then have "evaluate_thresholds S (metric_logger S req) req (w\<lparr>st_store := s1\<rparr>) = (r, w')"
      using call save by (simp add: RecordMetric_valid None)
    from evaluate_effect [OF inv1 repo this] None ok(2) show ?thesis
      unfolding view1 recorded_def contents_simps by blast
  qed
qed

text \<open>On a healthy store with room for three rows a valid call succeeds.\<close>

lemma check_temperature_live:
  assumes "healthy (Suc k) (st_store w)" and "sv_repo S = R"
  shows "\<exists>w'. check_temperature S l req cfg w = (Ok (), w') \<and> healthy k (st_store w')"
  using alert_live [OF assms(1), of "rmr_DeviceID req" "temperature_alert req cfg"]
    healthy_less [OF assms(1)] assms(2)
  by (auto simp: check_temperature_def in_store_def wrap_err_def)

lemma check_battery_live:
  assumes "healthy (Suc k) (st_store w)" and "sv_repo S = R"
  shows "\<exists>w'. check_battery S l req cfg w = (Ok (), w') \<and> healthy k (st_store w')"
  using alert_live [OF assms(1), of "rmr_DeviceID req" "battery_alert req cfg"]
    healthy_less [OF assms(1)] assms(2)
  by (auto simp: check_battery_def in_store_def wrap_err_def)

lemma raise_live:
  assumes "healthy (Suc (Suc k)) (st_store w)" and "sv_repo S = R"
  shows "\<exists>w'. on_ok (check_temperature S l req cfg) (\<lambda>_. check_battery S l req cfg) w = (Ok (), w') \<and>
    healthy k (st_store w')"
proof -
  obtain w1 where t: "check_temperature S l req cfg w = (Ok (), w1)" "healthy (Suc k) (st_store w1)"
    using check_temperature_live [OF assms] by blast
  obtain w2 where "check_battery S l req cfg w1 = (Ok (), w2)" "healthy k (st_store w2)"
    using check_battery_live [OF t(2) assms(2)] by blast
  then show ?thesis using t by simp
qed

lemma evaluate_live:
  assumes inv: "inv (st_store w)" and h: "healthy (Suc (Suc k)) (st_store w)" and repo: "sv_repo S = R"
  shows "\<exists>w'. evaluate_thresholds S l req w = (Ok (), w') \<and> healthy k (st_store w') \<and>
    view (st_store w') = add_alerts (rmr_DeviceID req) (map kept_alert (alerts_due (view (st_store w)) req)) (view (st_store w))"
proof -
  let ?w = "log_info l ''recorded metric''
      [(''temperature'', LFloat (rmr_Temperature req)), (''battery'', LInt (rmr_Battery req))] w"
  let ?q = "case ct_configs (view (st_store w)) (rmr_DeviceID req) of
      Some c \<Rightarrow> Ok c | None \<Rightarrow> Err (ErrRepoItemNotFound, zero_config)"
  have "repo_GetDeviceConfig (sv_repo S) (rmr_DeviceID req) (st_store ?w) = (?q, st_store ?w)"
    using config_live [OF h] repo by simp
  then have read: "in_store (repo_GetDeviceConfig (sv_repo S) (rmr_DeviceID req)) ?w = (?q, ?w)"
    by (simp add: in_store_def)
  show ?thesis
  proof (cases "ct_configs (view (st_store w)) (rmr_DeviceID req)")
    case None
    then show ?thesis using read healthy_less [OF healthy_less [OF h]]
      by (simp add: evaluate_thresholds_def alerts_due_def)
  next
    case (Some cfg)
    obtain w' where run: "on_ok (check_temperature S l req cfg) (\<lambda>_. check_battery S l req cfg) ?w = (Ok (), w')"
      and k: "healthy k (st_store w')"
      using raise_live [of k ?w S l req cfg] h repo by auto
    have "inv (st_store ?w)" using inv by simp
    from raise_effect [OF this repo run] run k read Some show ?thesis
      by (auto simp: evaluate_thresholds_def alerts_due_def)
  qed
qed

lemma record_live_on:
  assumes inv: "inv (st_store w)" and h: "healthy (Suc (Suc (Suc k))) (st_store w)" and repo: "sv_repo S = R"
    and valid: "validateRecordMetricReq req = None" and num: "\<not> is_nan (rmr_Temperature req)"
  shows "\<exists>w'. RecordMetric S req w = (Ok (), w') \<and> healthy k (st_store w') \<and>
    view (st_store w') = recorded req (alerts_due (view (st_store w)) req) (view (st_store w))"
proof -
  have b: "in_int32 (rmr_Battery req)"
    using valid by (simp add: validateRecord_None_iff battery_ok_def in_int32_def)
  obtain s1 where q: "repo_SaveDeviceMetric R (rmr_DeviceID req) (recorded_metric req) (st_store w) = (Ok (), s1)"
    and h1: "healthy (Suc (Suc k)) s1"
    using metric_live [OF h, of "recorded_metric req" "rmr_DeviceID req"] num by auto
  let ?w1 = "w\<lparr>st_store := s1\<rparr>"
  have save: "in_store (repo_SaveDeviceMetric (sv_repo S) (rmr_DeviceID req) (recorded_metric req)) w
      = (Ok (), ?w1)" using q repo by (intro in_store_eq) simp
  have inv1: "inv (st_store ?w1)" and view1: "view (st_store ?w1) =
      add_metric (rmr_DeviceID req) (kept_metric (recorded_metric req)) (view (st_store w))"
    using metric_law [OF inv _ q] b by auto
  have "healthy (Suc (Suc k)) (st_store ?w1)" using h1 by simp
  from evaluate_live [OF inv1 this repo, of "metric_logger S req" req] show ?thesis
    using save view1 by (auto simp: RecordMetric_valid valid recorded_def alerts_due_def)
qed

lemmas record_live = record_live_on [of _ 0, folded numeral_3_eq_3]

section \<open>Configuring\<close>

lemma configure_effect:
  assumes inv: "inv (st_store w)" and repo: "sv_repo S = R"
    and call: "ConfigureDevice S req w = (r, w')"
  shows "inv (st_store w') \<and>
    (r = Ok () \<and> validateConfigureDeviceReq req = None \<and>
       view (st_store w') = set_config (cdr_DeviceID req) (requested_config req) (view (st_store w)) \<or>
     (\<exists>e. r = Err e) \<and> view (st_store w') = view (st_store w))"
proof (cases "validateConfigureDeviceReq req")
  case (Some err)
  then show ?thesis using call inv by (auto simp: ConfigureDevice_def)
next
  case None
  then have b: "in_int32 (cfg_BatteryThreshold (requested_config req))"
    by (simp add: validateConfigure_None_iff battery_ok_def in_int32_def requested_config_def)
  obtain q s1 where q: "repo_UpsertDeviceConfig R (cdr_DeviceID req) (requested_config req) (st_store w) = (q, s1)"
    by fastforce
  show ?thesis
    using upsert_law [OF inv b q] call q repo None
    by (auto simp: ConfigureDevice_def on_ok_def wrap_err_def in_store_def simp flip: requested_config_def)
qed

lemma configure_live:
  assumes "inv (st_store w)" and h: "healthy k (st_store w)" and repo: "sv_repo S = R"
    and valid: "validateConfigureDeviceReq req = None" and num: "\<not> is_nan (cdr_TemperatureThreshold req)"
  shows "\<exists>w'. ConfigureDevice S req w = (Ok (), w') \<and> healthy k (st_store w')"
proof -
  obtain s1 where "repo_UpsertDeviceConfig R (cdr_DeviceID req) (requested_config req) (st_store w) = (Ok (), s1)"
    and "healthy k s1"
    using upsert_live [OF h, of "requested_config req" "cdr_DeviceID req"] num by (auto simp: requested_config_def)
  then show ?thesis
    using repo valid
    by (auto simp: ConfigureDevice_def on_ok_def wrap_err_def in_store_def simp flip: requested_config_def)
qed

end

section \<open>Listing alerts\<close>

definition request_timeframe :: "GetDeviceAlertsRequest \<Rightarrow> Timeframe" where
  "request_timeframe req = \<lparr>tf_Start = gar_TimeframeStart req, tf_End = gar_TimeframeEnd req\<rparr>"

definition request_token :: "GetDeviceAlertsRequest \<Rightarrow> RepositoryPageToken option option" where
  "request_token req = (if gar_PageToken req = [] then Some None
     else map_option Some (decodePageToken (gar_PageToken req)))"

lemma page_size_bounds:
  "0 \<le> n \<Longrightarrow> 0 < page_size n \<and> page_size n \<le> 250"
  by (simp add: page_size_def defaultPageSize_def maxPageSize_def)

text \<open>The answer to a page of the store.\<close>

definition page_reply :: "Alert RepositoryPage \<Rightarrow> (go_error, GetDeviceAlertsResponse) outcome" where
  "page_reply page =
     (case pg_NextPageToken page of
        None \<Rightarrow> Ok \<lparr>gares_Alerts = pg_Items page, gares_NextPageToken = []\<rparr>
      | Some tkn \<Rightarrow>
          (case encodePageToken tkn of
             Inl err \<Rightarrow> Err (ErrNew err)
           | Inr t \<Rightarrow> Ok \<lparr>gares_Alerts = pg_Items page, gares_NextPageToken = t\<rparr>))"

lemma page_reply_no_panic [simp]: "\<not> is_panic (page_reply page)"
  by (simp add: page_reply_def split: option.split sum.split)

lemma GetDeviceAlerts_valid:
  assumes "validateGetDeviceAlertsReq req = None" and "request_token req = Some tk"
  shows "GetDeviceAlerts S req w = on_ok (wrap_err ''get device alerts'' (in_store
      (repo_GetDeviceAlerts (sv_repo S) (gar_DeviceID req) (request_timeframe req)
        \<lparr>po_Size = page_size (gar_PageSize req), po_Token = tk\<rparr>)))
      (\<lambda>page w. (page_reply page, w)) w"
  using assms
  by (auto simp: GetDeviceAlerts_def request_token_def request_timeframe_def page_reply_def on_ok_def
      split: option.splits sum.split outcome.split prod.split)

lemma GetDeviceAlerts_refused:
  "validateGetDeviceAlertsReq req = Some e \<Longrightarrow> GetDeviceAlerts S req w = (Err e, w)"
  "validateGetDeviceAlertsReq req = None \<Longrightarrow> request_token req = None \<Longrightarrow>
   GetDeviceAlerts S req w = (Err (ErrBadRequest []), w)"
  by (auto simp: GetDeviceAlerts_def request_token_def split: if_splits)

text \<open>
  A client that follows the page tokens to the end, or to an error; the fuel bounds the number of
  requests, and the list is \<open>None\<close> when it was too little.
\<close>

fun follow_pages :: "nat \<Rightarrow> 's Service \<Rightarrow> GetDeviceAlertsRequest \<Rightarrow> ('s svc_state, go_error, Alert list option) run" where
  "follow_pages 0 S req w = (Ok None, w)"
| "follow_pages (Suc k) S req w =
     (case GetDeviceAlerts S req w of
        (Ok res, w') \<Rightarrow>
          if gares_NextPageToken res = [] then (Ok (Some (gares_Alerts res)), w')
          else (case follow_pages k S (req\<lparr>gar_PageToken := gares_NextPageToken res\<rparr>) w' of
                  (Ok rest, w'') \<Rightarrow> (Ok (map_option ((@) (gares_Alerts res)) rest), w'')
                | (Err e, w'') \<Rightarrow> (Err e, w'')
                | (Panic p, w'') \<Rightarrow> (Panic p, w''))
      | (Err e, w') \<Rightarrow> (Err e, w')
      | (Panic p, w') \<Rightarrow> (Panic p, w'))"

context device_repository
begin

lemma alerts_keep:
  assumes inv: "inv (st_store w)" and repo: "sv_repo S = R" and call: "GetDeviceAlerts S req w = (r, w')"
  shows "inv (st_store w') \<and> view (st_store w') = view (st_store w) \<and> st_log w' = st_log w"
proof (cases "validateGetDeviceAlertsReq req = None \<and> request_token req \<noteq> None")
  case False
  then have "w' = w" using call by (cases "validateGetDeviceAlertsReq req") (auto simp: GetDeviceAlerts_refused)
  then show ?thesis using inv by simp
next
  case True
  then obtain tk where tk: "request_token req = Some tk" by blast
  obtain q s1 where q: "repo_GetDeviceAlerts R (gar_DeviceID req) (request_timeframe req)
      \<lparr>po_Size = page_size (gar_PageSize req), po_Token = tk\<rparr> (st_store w) = (q, s1)" by fastforce
  have "w' = w\<lparr>st_store := s1\<rparr>"
    using call q repo True tk
    by (auto simp: GetDeviceAlerts_valid on_ok_def wrap_err_def in_store_def split: outcome.splits)
  then show ?thesis using page_keeps [OF inv q] by simp
qed

lemma alerts_no_panic:
  assumes repo: "sv_repo S = R"
    and tk: "\<And>t. request_token req = Some (Some t) \<Longrightarrow> LastTime t \<noteq> None"
  shows "\<not> is_panic (fst (GetDeviceAlerts S req w))"
proof (cases "validateGetDeviceAlertsReq req = None \<and> request_token req \<noteq> None")
  case False
  then show ?thesis by (cases "validateGetDeviceAlertsReq req") (auto simp: GetDeviceAlerts_refused)
next
  case True
  then obtain o' where o': "request_token req = Some o'" by blast
  have "0 < page_size (gar_PageSize req)" "page_size (gar_PageSize req) < 9223372036854775807"
    using True page_size_bounds [of "gar_PageSize req"] by (auto simp: validateAlerts_None_iff)
  moreover have "case o' of None \<Rightarrow> True | Some t \<Rightarrow> LastTime t \<noteq> None"
    using tk o' by (auto split: option.split)
  ultimately have "\<not> is_panic (fst (repo_GetDeviceAlerts R (gar_DeviceID req) (request_timeframe req)
      \<lparr>po_Size = page_size (gar_PageSize req), po_Token = o'\<rparr> (st_store w)))" by (rule page_safe)
  then show ?thesis using True o' repo
    by (auto simp: GetDeviceAlerts_valid on_ok_def wrap_err_def in_store_def split: outcome.splits prod.splits)
qed

lemma alerts_bound:
  assumes repo: "sv_repo S = R" and call: "GetDeviceAlerts S req w = (Ok reply, w')"
  shows "int (length (gares_Alerts reply)) \<le> page_size (gar_PageSize req)"
proof -
  have valid: "validateGetDeviceAlertsReq req = None"
    using call by (cases "validateGetDeviceAlertsReq req") (auto simp: GetDeviceAlerts_refused)
  obtain tk where tk: "request_token req = Some tk"
    using call valid by (cases "request_token req") (auto simp: GetDeviceAlerts_refused)
  have n: "0 < page_size (gar_PageSize req)" "page_size (gar_PageSize req) < 9223372036854775807"
    using valid page_size_bounds [of "gar_PageSize req"] by (auto simp: validateAlerts_None_iff)
  obtain page s1 where "repo_GetDeviceAlerts R (gar_DeviceID req) (request_timeframe req)
      \<lparr>po_Size = page_size (gar_PageSize req), po_Token = tk\<rparr> (st_store w) = (Ok page, s1)"
    and "gares_Alerts reply = pg_Items page"
    using call repo by (auto simp: GetDeviceAlerts_valid [OF valid tk] on_ok_def wrap_err_def in_store_def
        page_reply_def split: outcome.splits prod.splits option.splits sum.splits)
  then show ?thesis using page_bound [OF n] by metis
qed

lemma alerts_shown:
  assumes inv: "inv (st_store w)" and repo: "sv_repo S = R"
    and call: "GetDeviceAlerts S req w = (Ok reply, w')" and a: "a \<in> set (gares_Alerts reply)"
  shows "a \<in> set (ct_alerts (view (st_store w)) (gar_DeviceID req)) \<and> in_timeframe (request_timeframe req) (al_Time a)"
proof -
  have valid: "validateGetDeviceAlertsReq req = None"
    using call by (cases "validateGetDeviceAlertsReq req") (auto simp: GetDeviceAlerts_refused)
  obtain tk where tk: "request_token req = Some tk"
    using call valid by (cases "request_token req") (auto simp: GetDeviceAlerts_refused)
  obtain page s1 where "repo_GetDeviceAlerts R (gar_DeviceID req) (request_timeframe req)
      \<lparr>po_Size = page_size (gar_PageSize req), po_Token = tk\<rparr> (st_store w) = (Ok page, s1)"
    and "gares_Alerts reply = pg_Items page"
    using call repo by (auto simp: GetDeviceAlerts_valid [OF valid tk] on_ok_def wrap_err_def in_store_def
        page_reply_def split: outcome.splits prod.splits option.splits sum.splits)
  then show ?thesis using page_items [OF inv] a by metis
qed

text \<open>
  One page: its alerts are the next of the listing, and its token is empty at the end of the
  listing and otherwise decodes to where the listing goes on.
\<close>

lemma alerts_page_call:
  assumes inv: "inv (st_store w)" and h: "healthy k (st_store w)" and repo: "sv_repo S = R"
    and valid: "validateGetDeviceAlertsReq req = None"
    and times: "\<forall>a \<in> set (ct_alerts (view (st_store w)) (gar_DeviceID req)). json_time_ok (al_Time a)"
    and tk: "request_token req = Some tk" "issued (st_store w) (gar_DeviceID req) (request_timeframe req) tk"
    and L: "L = listing (st_store w) (gar_DeviceID req) (request_timeframe req) tk"
    and n: "n = page_size (gar_PageSize req)"
  shows "\<exists>tok. GetDeviceAlerts S req w = (Ok \<lparr>gares_Alerts = take (nat n) L, gares_NextPageToken = tok\<rparr>, w) \<and>
    (if int (length L) \<le> n then tok = []
     else tok \<noteq> [] \<and> (\<exists>nt. request_token (req\<lparr>gar_PageToken := tok\<rparr>) = Some nt \<and>
       issued (st_store w) (gar_DeviceID req) (request_timeframe req) nt \<and>
       listing (st_store w) (gar_DeviceID req) (request_timeframe req) nt = drop (nat n) L \<and>
       repo_GetDeviceAlerts R (gar_DeviceID req) (request_timeframe req) \<lparr>po_Size = n, po_Token = tk\<rparr> (st_store w)
         = (Ok \<lparr>pg_Items = take (nat n) L, pg_NextPageToken = nt\<rparr>, st_store w)))"
proof -
  have bounds: "0 < n" "n < 9223372036854775807"
    using valid page_size_bounds [of "gar_PageSize req"] n by (auto simp: validateAlerts_None_iff)
  from page_law [OF inv h tk(2) bounds] obtain nt where
    page: "repo_GetDeviceAlerts R (gar_DeviceID req) (request_timeframe req) \<lparr>po_Size = n, po_Token = tk\<rparr> (st_store w)
        = (Ok \<lparr>pg_Items = take (nat n) L, pg_NextPageToken = nt\<rparr>, st_store w)"
    and nt: "if int (length L) \<le> n then nt = None
      else issued (st_store w) (gar_DeviceID req) (request_timeframe req) nt \<and> nt \<noteq> None \<and>
        listing (st_store w) (gar_DeviceID req) (request_timeframe req) nt = drop (nat n) L"
    unfolding L by blast
  have run: "GetDeviceAlerts S req w =
      (page_reply \<lparr>pg_Items = take (nat n) L, pg_NextPageToken = nt\<rparr>, w)"
    using page repo by (simp add: GetDeviceAlerts_valid [OF valid tk(1)] on_ok_def wrap_err_def in_store_def flip: n)
  show ?thesis
  proof (cases "int (length L) \<le> n")
    case True
    then show ?thesis using run nt by (simp add: page_reply_def)
  next
    case False
    with nt obtain t where t: "nt = Some t" by auto
    with nt False have "issued (st_store w) (gar_DeviceID req) (request_timeframe req) (Some t)" by simp
    then have "token_ok t" using issued_token [OF inv] times by (fastforce simp: token_ok_def)
    then obtain tok where tok: "encodePageToken t = Inr tok" "tok \<noteq> []" using encode_token_ok by blast
    then have "decodePageToken tok = Some t" using decode_encode_token \<open>token_ok t\<close> by blast
    then show ?thesis using run nt t tok False page by (simp add: page_reply_def request_token_def)
  qed
qed

lemma alerts_page:
  assumes inv: "inv (st_store w)" and h: "healthy k (st_store w)" and repo: "sv_repo S = R"
    and valid: "validateGetDeviceAlertsReq req = None"
    and times: "\<forall>a \<in> set (ct_alerts (view (st_store w)) (gar_DeviceID req)). json_time_ok (al_Time a)"
    and tk: "request_token req = Some tk" "issued (st_store w) (gar_DeviceID req) (request_timeframe req) tk"
    and L: "L = listing (st_store w) (gar_DeviceID req) (request_timeframe req) tk"
    and n: "n = page_size (gar_PageSize req)"
  shows "\<exists>tok. GetDeviceAlerts S req w = (Ok \<lparr>gares_Alerts = take (nat n) L, gares_NextPageToken = tok\<rparr>, w) \<and>
    (if int (length L) \<le> n then tok = []
     else tok \<noteq> [] \<and> (\<exists>nt. request_token (req\<lparr>gar_PageToken := tok\<rparr>) = Some nt \<and>
       issued (st_store w) (gar_DeviceID req) (request_timeframe req) nt \<and>
       listing (st_store w) (gar_DeviceID req) (request_timeframe req) nt = drop (nat n) L))"
  using alerts_page_call [OF assms] by metis

text \<open>Following the tokens shows the listing from the first token on, whatever the page size.\<close>

lemma follow_listing:
  assumes "inv (st_store w)" and "healthy k (st_store w)" and "sv_repo S = R"
    and "validateGetDeviceAlertsReq req = None"
    and "\<forall>a \<in> set (ct_alerts (view (st_store w)) (gar_DeviceID req)). json_time_ok (al_Time a)"
    and "request_token req = Some tk"
    and "issued (st_store w) (gar_DeviceID req) (request_timeframe req) tk"
    and "length (listing (st_store w) (gar_DeviceID req) (request_timeframe req) tk) < fuel"
  shows "follow_pages fuel S req w = (Ok (Some (listing (st_store w) (gar_DeviceID req) (request_timeframe req) tk)), w)"
  using assms
proof (induction fuel arbitrary: req tk)
  case (Suc fuel)
  let ?n = "page_size (gar_PageSize req)"
  let ?L = "listing (st_store w) (gar_DeviceID req) (request_timeframe req) tk"
  have n: "0 < ?n" using Suc.prems(4) page_size_bounds by (simp add: validateAlerts_None_iff)
  from alerts_page [OF Suc.prems(1-7) refl refl] obtain tok where
    run: "GetDeviceAlerts S req w = (Ok \<lparr>gares_Alerts = take (nat ?n) ?L, gares_NextPageToken = tok\<rparr>, w)"
    and tok: "if int (length ?L) \<le> ?n then tok = []
     else tok \<noteq> [] \<and> (\<exists>nt. request_token (req\<lparr>gar_PageToken := tok\<rparr>) = Some nt \<and>
       issued (st_store w) (gar_DeviceID req) (request_timeframe req) nt \<and>
       listing (st_store w) (gar_DeviceID req) (request_timeframe req) nt = drop (nat ?n) ?L)"
    by blast
  show ?case
  proof (cases "int (length ?L) \<le> ?n")
    case True
    then show ?thesis using run tok by simp
  next
    case False
    let ?req = "req\<lparr>gar_PageToken := tok\<rparr>"
    have same: "gar_DeviceID ?req = gar_DeviceID req" "request_timeframe ?req = request_timeframe req"
      "validateGetDeviceAlertsReq ?req = None"
      using Suc.prems(4) by (simp_all add: request_timeframe_def validateAlerts_None_iff)
    from tok False obtain nt where nt: "request_token ?req = Some nt" "tok \<noteq> []"
      "issued (st_store w) (gar_DeviceID req) (request_timeframe req) nt"
      "listing (st_store w) (gar_DeviceID req) (request_timeframe req) nt = drop (nat ?n) ?L" by auto
    have "length (drop (nat ?n) ?L) < fuel" using Suc.prems(8) False n by simp
    then have "follow_pages fuel S ?req w = (Ok (Some (drop (nat ?n) ?L)), w)"
      using Suc.IH [of ?req nt] Suc.prems(1-3,5) nt same by simp
    then show ?thesis using run nt(2) by simp
  qed
qed simp

end

end
