(* ===== verification/Proto.thy ===== *)
theory Proto
  imports GoFloat
begin

text \<open>
  \<^verbatim>\<open>proto/gen/iot/v1/service.pb.go\<close>: the generated messages with their getters and
  \<^verbatim>\<open>Reset\<close>, without the reflection data. \<open>'t\<close> is the protobuf timestamp of the library; a
  field of message type is a pointer, and so is the receiver of a getter: \<open>None\<close> is nil.
\<close>

section \<open>The enumeration of reasons\<close>

datatype Alert_Reason = REASON_UNSPECIFIED | REASON_TEMPERATURE_HIGH | REASON_BATTERY_LOW

definition Alert_Reason_number :: "Alert_Reason \<Rightarrow> int" where
  "Alert_Reason_number r =
     (case r of REASON_UNSPECIFIED \<Rightarrow> 0 | REASON_TEMPERATURE_HIGH \<Rightarrow> 1 | REASON_BATTERY_LOW \<Rightarrow> 2)"

definition Alert_Reason_name :: "(int \<times> string) list" where
  "Alert_Reason_name =
     [(0, ''REASON_UNSPECIFIED''), (1, ''REASON_TEMPERATURE_HIGH''), (2, ''REASON_BATTERY_LOW'')]"

definition Alert_Reason_value :: "(string \<times> int) list" where
  "Alert_Reason_value =
     [(''REASON_UNSPECIFIED'', 0), (''REASON_TEMPERATURE_HIGH'', 1), (''REASON_BATTERY_LOW'', 2)]"

section \<open>The messages\<close>

record 't RecordMetricRequestPb =
  prm_DeviceId :: string
  prm_Timestamp :: "'t option"
  prm_Temperature :: float64
  prm_Battery :: int

record ConfigureDeviceRequestPb =
  pcd_DeviceId :: string
  pcd_TemperatureThreshold :: float64
  pcd_BatteryThreshold :: int

record 't TimeframePb =
  ptf_Start :: "'t option"
  ptf_End :: "'t option"

record 't GetDeviceAlertsRequestPb =
  pga_DeviceId :: string
  pga_Timeframe :: "'t TimeframePb option"
  pga_PageSize :: int
  pga_PageToken :: string

record 't AlertPb =
  pal_Timestamp :: "'t option"
  pal_Reason :: Alert_Reason
  pal_Description :: string

record 't GetDeviceAlertsResponsePb =
  pgr_Alerts :: "'t AlertPb list"
  pgr_NextPageToken :: string

text \<open>\<^verbatim>\<open>Reset\<close> stores the zero message.\<close>

definition prm_Reset :: "'t RecordMetricRequestPb \<Rightarrow> 't RecordMetricRequestPb" where
  "prm_Reset x = \<lparr>prm_DeviceId = [], prm_Timestamp = None, prm_Temperature = f_zero, prm_Battery = 0\<rparr>"

definition pcd_Reset :: "ConfigureDeviceRequestPb \<Rightarrow> ConfigureDeviceRequestPb" where
  "pcd_Reset x = \<lparr>pcd_DeviceId = [], pcd_TemperatureThreshold = f_zero, pcd_BatteryThreshold = 0\<rparr>"

definition ptf_Reset :: "'t TimeframePb \<Rightarrow> 't TimeframePb" where
  "ptf_Reset x = \<lparr>ptf_Start = None, ptf_End = None\<rparr>"

definition pga_Reset :: "'t GetDeviceAlertsRequestPb \<Rightarrow> 't GetDeviceAlertsRequestPb" where
  "pga_Reset x = \<lparr>pga_DeviceId = [], pga_Timeframe = None, pga_PageSize = 0, pga_PageToken = []\<rparr>"

definition pal_Reset :: "'t AlertPb \<Rightarrow> 't AlertPb" where
  "pal_Reset x = \<lparr>pal_Timestamp = None, pal_Reason = REASON_UNSPECIFIED, pal_Description = []\<rparr>"

definition pgr_Reset :: "'t GetDeviceAlertsResponsePb \<Rightarrow> 't GetDeviceAlertsResponsePb" where
  "pgr_Reset x = \<lparr>pgr_Alerts = [], pgr_NextPageToken = []\<rparr>"

section \<open>Getters\<close>

definition prm_GetDeviceId :: "'t RecordMetricRequestPb option \<Rightarrow> string" where
  "prm_GetDeviceId x = (case x of Some m \<Rightarrow> prm_DeviceId m | None \<Rightarrow> [])"

definition prm_GetTimestamp :: "'t RecordMetricRequestPb option \<Rightarrow> 't option" where
  "prm_GetTimestamp x = (case x of Some m \<Rightarrow> prm_Timestamp m | None \<Rightarrow> None)"

definition prm_GetTemperature :: "'t RecordMetricRequestPb option \<Rightarrow> float64" where
  "prm_GetTemperature x = (case x of Some m \<Rightarrow> prm_Temperature m | None \<Rightarrow> f_zero)"

definition prm_GetBattery :: "'t RecordMetricRequestPb option \<Rightarrow> int" where
  "prm_GetBattery x = (case x of Some m \<Rightarrow> prm_Battery m | None \<Rightarrow> 0)"

definition pcd_GetDeviceId :: "ConfigureDeviceRequestPb option \<Rightarrow> string" where
  "pcd_GetDeviceId x = (case x of Some m \<Rightarrow> pcd_DeviceId m | None \<Rightarrow> [])"

definition pcd_GetTemperatureThreshold :: "ConfigureDeviceRequestPb option \<Rightarrow> float64" where
  "pcd_GetTemperatureThreshold x = (case x of Some m \<Rightarrow> pcd_TemperatureThreshold m | None \<Rightarrow> f_zero)"

definition pcd_GetBatteryThreshold :: "ConfigureDeviceRequestPb option \<Rightarrow> int" where
  "pcd_GetBatteryThreshold x = (case x of Some m \<Rightarrow> pcd_BatteryThreshold m | None \<Rightarrow> 0)"

definition ptf_GetStart :: "'t TimeframePb option \<Rightarrow> 't option" where
  "ptf_GetStart x = (case x of Some m \<Rightarrow> ptf_Start m | None \<Rightarrow> None)"

definition ptf_GetEnd :: "'t TimeframePb option \<Rightarrow> 't option" where
  "ptf_GetEnd x = (case x of Some m \<Rightarrow> ptf_End m | None \<Rightarrow> None)"

definition pga_GetDeviceId :: "'t GetDeviceAlertsRequestPb option \<Rightarrow> string" where
  "pga_GetDeviceId x = (case x of Some m \<Rightarrow> pga_DeviceId m | None \<Rightarrow> [])"

definition pga_GetTimeframe :: "'t GetDeviceAlertsRequestPb option \<Rightarrow> 't TimeframePb option" where
  "pga_GetTimeframe x = (case x of Some m \<Rightarrow> pga_Timeframe m | None \<Rightarrow> None)"

definition pga_GetPageSize :: "'t GetDeviceAlertsRequestPb option \<Rightarrow> int" where
  "pga_GetPageSize x = (case x of Some m \<Rightarrow> pga_PageSize m | None \<Rightarrow> 0)"

definition pga_GetPageToken :: "'t GetDeviceAlertsRequestPb option \<Rightarrow> string" where
  "pga_GetPageToken x = (case x of Some m \<Rightarrow> pga_PageToken m | None \<Rightarrow> [])"

definition pal_GetTimestamp :: "'t AlertPb option \<Rightarrow> 't option" where
  "pal_GetTimestamp x = (case x of Some m \<Rightarrow> pal_Timestamp m | None \<Rightarrow> None)"

definition pal_GetReason :: "'t AlertPb option \<Rightarrow> Alert_Reason" where
  "pal_GetReason x = (case x of Some m \<Rightarrow> pal_Reason m | None \<Rightarrow> REASON_UNSPECIFIED)"

definition pal_GetDescription :: "'t AlertPb option \<Rightarrow> string" where
  "pal_GetDescription x = (case x of Some m \<Rightarrow> pal_Description m | None \<Rightarrow> [])"

definition pgr_GetAlerts :: "'t GetDeviceAlertsResponsePb option \<Rightarrow> 't AlertPb list" where
  "pgr_GetAlerts x = (case x of Some m \<Rightarrow> pgr_Alerts m | None \<Rightarrow> [])"

definition pgr_GetNextPageToken :: "'t GetDeviceAlertsResponsePb option \<Rightarrow> string" where
  "pgr_GetNextPageToken x = (case x of Some m \<Rightarrow> pgr_NextPageToken m | None \<Rightarrow> [])"

lemmas getter_defs =
  prm_GetDeviceId_def prm_GetTimestamp_def prm_GetTemperature_def prm_GetBattery_def pcd_GetDeviceId_def pcd_GetTemperatureThreshold_def pcd_GetBatteryThreshold_def ptf_GetStart_def ptf_GetEnd_def pga_GetDeviceId_def pga_GetTimeframe_def pga_GetPageSize_def pga_GetPageToken_def pal_GetTimestamp_def pal_GetReason_def pal_GetDescription_def pgr_GetAlerts_def pgr_GetNextPageToken_def

lemmas reset_defs = prm_Reset_def pcd_Reset_def ptf_Reset_def pga_Reset_def pal_Reset_def pgr_Reset_def

section \<open>Laws of the messages\<close>

text \<open>The getters are total: a getter of a nil message returns what it returns for a message that was
  reset, whatever that message held.\<close>

lemma nil_message_reads_as_zero:
  "prm_GetDeviceId None = prm_GetDeviceId (Some (prm_Reset r)) \<and>
   prm_GetTimestamp None = prm_GetTimestamp (Some (prm_Reset r)) \<and>
   prm_GetTemperature None = prm_GetTemperature (Some (prm_Reset r)) \<and>
   prm_GetBattery None = prm_GetBattery (Some (prm_Reset r)) \<and>
   pcd_GetDeviceId None = pcd_GetDeviceId (Some (pcd_Reset c)) \<and>
   pcd_GetTemperatureThreshold None = pcd_GetTemperatureThreshold (Some (pcd_Reset c)) \<and>
   pcd_GetBatteryThreshold None = pcd_GetBatteryThreshold (Some (pcd_Reset c)) \<and>
   ptf_GetStart None = ptf_GetStart (Some (ptf_Reset t)) \<and>
   ptf_GetEnd None = ptf_GetEnd (Some (ptf_Reset t)) \<and>
   pga_GetDeviceId None = pga_GetDeviceId (Some (pga_Reset g)) \<and>
   pga_GetTimeframe None = pga_GetTimeframe (Some (pga_Reset g)) \<and>
   pga_GetPageSize None = pga_GetPageSize (Some (pga_Reset g)) \<and>
   pga_GetPageToken None = pga_GetPageToken (Some (pga_Reset g)) \<and>
   pal_GetTimestamp None = pal_GetTimestamp (Some (pal_Reset a)) \<and>
   pal_GetReason None = pal_GetReason (Some (pal_Reset a)) \<and>
   pal_GetDescription None = pal_GetDescription (Some (pal_Reset a)) \<and>
   pgr_GetAlerts None = pgr_GetAlerts (Some (pgr_Reset p)) \<and>
   pgr_GetNextPageToken None = pgr_GetNextPageToken (Some (pgr_Reset p))"
  by (simp add: getter_defs reset_defs)

text \<open>The two tables of reasons are inverse to each other and agree with the constants.\<close>

lemma reason_tables_inverse:
  "map_of Alert_Reason_name n = Some s \<longleftrightarrow> map_of Alert_Reason_value s = Some n"
  by (auto simp: Alert_Reason_name_def Alert_Reason_value_def split: if_splits)

end
