(* ===== verification/Handlers.thy ===== *)
theory Handlers
  imports Service Proto
begin

text \<open>
  The two front ends of the service: the REST handler of \<^verbatim>\<open>device/echo_handler.go\<close> and the
  Connect handler of \<^verbatim>\<open>device/connect_handler.go\<close>, with the generated messages of
  \<^verbatim>\<open>proto/gen/iot/v1/service.pb.go\<close> and the device id getters of
  \<^verbatim>\<open>device/device_id.go\<close>. Echo's binding of a request and the conversions of the
  protobuf timestamp type belong to libraries and are parameters.
\<close>

section \<open>Alerts as messages\<close>

definition AlertReason_Proto :: "string \<Rightarrow> Alert_Reason" where
  "AlertReason_Proto r =
     (if r = AlertReasonTemperatureHigh then REASON_TEMPERATURE_HIGH
      else if r = AlertReasonBatteryLow then REASON_BATTERY_LOW
      else REASON_UNSPECIFIED)"

definition Alert_Proto :: "(go_time \<Rightarrow> 't) \<Rightarrow> Alert \<Rightarrow> 't AlertPb" where
  "Alert_Proto ts_New a = \<lparr>pal_Timestamp = Some (ts_New (al_Time a)),
     pal_Reason = AlertReason_Proto (al_Reason a), pal_Description = al_Desc a\<rparr>"

lemma reasons_distinct [simp]:
  "AlertReasonTemperatureHigh \<noteq> AlertReasonBatteryLow" "AlertReasonBatteryLow \<noteq> AlertReasonTemperatureHigh"
  by (simp_all add: AlertReasonTemperatureHigh_def AlertReasonBatteryLow_def)

lemma AlertReason_Proto_unspecified_iff:
  "AlertReason_Proto r = REASON_UNSPECIFIED \<longleftrightarrow>
   r \<noteq> AlertReasonTemperatureHigh \<and> r \<noteq> AlertReasonBatteryLow"
  by (simp add: AlertReason_Proto_def)

section \<open>The REST handler\<close>

text \<open>
  \<^verbatim>\<open>c.JSON\<close> fails when the value cannot be marshalled; of a list of alerts that is when one
  of their times cannot. \<open>Bind\<close> is \<^verbatim>\<open>c.Bind\<close> of a request type.
\<close>

fun marshal_alerts :: "Alert list \<Rightarrow> string option" where
  "marshal_alerts [] = None"
| "marshal_alerts (a # as) =
     (case t_MarshalJSON (al_Time a) of Inl e \<Rightarrow> Some e | Inr _ \<Rightarrow> marshal_alerts as)"

definition ConfigureDevice_echo ::
  "('c \<Rightarrow> go_error + ConfigureDeviceRequest) \<Rightarrow> 's Service \<Rightarrow> 'c \<Rightarrow> ('s svc_state, 'b) echo_handler" where
  "ConfigureDevice_echo Bind svc c w =
     (case Bind c of
        Inl err \<Rightarrow> (Err err, w)
      | Inr req \<Rightarrow> on_ok (ConfigureDevice svc req) (\<lambda>_ w. (Ok (NoContent 201), w)) w)"

definition RecordMetric_echo ::
  "('c \<Rightarrow> go_error + RecordMetricRequest) \<Rightarrow> 's Service \<Rightarrow> 'c \<Rightarrow> ('s svc_state, 'b) echo_handler" where
  "RecordMetric_echo Bind svc c w =
     (case Bind c of
        Inl err \<Rightarrow> (Err err, w)
      | Inr req \<Rightarrow> on_ok (RecordMetric svc req) (\<lambda>_ w. (Ok (NoContent 201), w)) w)"

definition GetDeviceAlerts_echo ::
  "('c \<Rightarrow> go_error + GetDeviceAlertsRequest) \<Rightarrow> 's Service \<Rightarrow> 'c
   \<Rightarrow> ('s svc_state, GetDeviceAlertsResponse) echo_handler" where
  "GetDeviceAlerts_echo Bind svc c w =
     (case Bind c of
        Inl err \<Rightarrow> (Err err, w)
      | Inr req \<Rightarrow>
          on_ok (GetDeviceAlerts svc req)
            (\<lambda>res w. (case marshal_alerts (gares_Alerts res) of
                        Some e \<Rightarrow> (Err (ErrNew e), w)
                      | None \<Rightarrow> (Ok (JSONReply 200 res), w))) w)"

text \<open>The routes: method, path, and the operation behind it.\<close>

datatype operation = OpConfigureDevice | OpRecordMetric | OpGetDeviceAlerts

definition echo_routes :: "(string \<times> string \<times> operation) list" where
  "echo_routes =
    [(''POST'', ''/devices/:device_id/config'', OpConfigureDevice),
     (''POST'', ''/devices/:device_id/metrics'', OpRecordMetric),
     (''GET'', ''/devices/:device_id/alerts'', OpGetDeviceAlerts)]"

definition EchoRequestDeviceIDGetter :: "('c \<Rightarrow> string \<Rightarrow> string) \<Rightarrow> 'c \<Rightarrow> string option" where
  "EchoRequestDeviceIDGetter Param c =
     (let deviceID = Param c ''device_id'' in if deviceID = [] then None else Some deviceID)"

section \<open>The Connect handler\<close>

definition ConfigureDevice_connect ::
  "'s Service \<Rightarrow> ConfigureDeviceRequestPb \<Rightarrow> ('s svc_state, go_error, unit) run" where
  "ConfigureDevice_connect svc msg =
     ConfigureDevice svc \<lparr>cdr_DeviceID = pcd_DeviceId msg,
       cdr_TemperatureThreshold = pcd_TemperatureThreshold msg,
       cdr_BatteryThreshold = pcd_BatteryThreshold msg\<rparr>"

definition record_request_of :: "('t \<Rightarrow> go_time) \<Rightarrow> 't RecordMetricRequestPb \<Rightarrow> RecordMetricRequest" where
  "record_request_of AsTime msg =
     \<lparr>rmr_DeviceID = prm_DeviceId msg, rmr_Temperature = prm_Temperature msg,
      rmr_Battery = prm_Battery msg,
      rmr_Timestamp = (case prm_Timestamp msg of None \<Rightarrow> zero_time | Some t \<Rightarrow> AsTime t)\<rparr>"

definition RecordMetric_connect ::
  "('t \<Rightarrow> go_time) \<Rightarrow> 's Service \<Rightarrow> 't RecordMetricRequestPb \<Rightarrow> ('s svc_state, go_error, unit) run" where
  "RecordMetric_connect AsTime svc msg = RecordMetric svc (record_request_of AsTime msg)"

definition alerts_request_of :: "('t \<Rightarrow> go_time) \<Rightarrow> 't GetDeviceAlertsRequestPb \<Rightarrow> GetDeviceAlertsRequest" where
  "alerts_request_of AsTime msg =
     \<lparr>gar_DeviceID = pga_DeviceId msg,
      gar_TimeframeStart = (case pga_Timeframe msg of None \<Rightarrow> None
        | Some tf \<Rightarrow> map_option (\<lambda>t. t_UTC (AsTime t)) (ptf_Start tf)),
      gar_TimeframeEnd = (case pga_Timeframe msg of None \<Rightarrow> None
        | Some tf \<Rightarrow> map_option (\<lambda>t. t_UTC (AsTime t)) (ptf_End tf)),
      gar_PageSize = pga_PageSize msg, gar_PageToken = pga_PageToken msg\<rparr>"

definition GetDeviceAlerts_connect ::
  "('t \<Rightarrow> go_time) \<Rightarrow> (go_time \<Rightarrow> 't) \<Rightarrow> 's Service \<Rightarrow> 't GetDeviceAlertsRequestPb
   \<Rightarrow> ('s svc_state, go_error, 't GetDeviceAlertsResponsePb) run" where
  "GetDeviceAlerts_connect AsTime ts_New svc msg =
     on_ok (GetDeviceAlerts svc (alerts_request_of AsTime msg))
       (\<lambda>res w. (Ok \<lparr>pgr_Alerts = map (Alert_Proto ts_New) (gares_Alerts res),
                    pgr_NextPageToken = gares_NextPageToken res\<rparr>, w))"

text \<open>
  \<^verbatim>\<open>req.Any()\<close> is a message; those with a device id are the three requests. \<open>AnyOther\<close> is
  any message without one.
\<close>

datatype 't any_request =
    AnyRecordMetric "'t RecordMetricRequestPb"
  | AnyConfigureDevice ConfigureDeviceRequestPb
  | AnyGetDeviceAlerts "'t GetDeviceAlertsRequestPb"
  | AnyOther

definition ConnectRequestDeviceIDGetter :: "'t any_request \<Rightarrow> string option" where
  "ConnectRequestDeviceIDGetter req =
     (case req of
        AnyRecordMetric m \<Rightarrow> Some (prm_GetDeviceId (Some m))
      | AnyConfigureDevice m \<Rightarrow> Some (pcd_GetDeviceId (Some m))
      | AnyGetDeviceAlerts m \<Rightarrow> Some (pga_GetDeviceId (Some m))
      | AnyOther \<Rightarrow> None)"

section \<open>The two front ends agree\<close>

lemma marshal_alerts_None_iff:
  "marshal_alerts as = None \<longleftrightarrow> (\<forall>a \<in> set as. \<exists>b. t_MarshalJSON (al_Time a) = Inr b)"
  by (induction as) (auto split: sum.split)

text \<open>The REST answer to a call that creates something: no content on success, the error otherwise.\<close>

definition created :: "(go_error, 'a) outcome \<times> 'w \<Rightarrow> (go_error, 'b echo_reply) outcome \<times> 'w" where
  "created r = (case r of
     (Ok _, w) \<Rightarrow> (Ok (NoContent 201), w) | (Err e, w) \<Rightarrow> (Err e, w) | (Panic p, w) \<Rightarrow> (Panic p, w))"

text \<open>The device id the rate limiter keys on is the one the service is called with.\<close>

lemma connect_key_is_device:
  "ConnectRequestDeviceIDGetter (AnyConfigureDevice m) = Some (pcd_DeviceId m)"
  "ConnectRequestDeviceIDGetter (AnyRecordMetric r) = Some (rmr_DeviceID (record_request_of AsTime r))"
  "ConnectRequestDeviceIDGetter (AnyGetDeviceAlerts g) = Some (gar_DeviceID (alerts_request_of AsTime g))"
  by (simp_all add: ConnectRequestDeviceIDGetter_def prm_GetDeviceId_def pcd_GetDeviceId_def
      pga_GetDeviceId_def record_request_of_def alerts_request_of_def)

end
