(* ===== verification/RateLimiter.thy ===== *)
theory RateLimiter
  imports HttpError GoFloat
begin

text \<open>
  \<^verbatim>\<open>rlimit/rate_limiter.go\<close> and the two middlewares of \<^verbatim>\<open>http/rate_limit.go\<close>. The
  token bucket itself, \<^verbatim>\<open>rate.Limiter\<close>, belongs to a library: \<open>NewLimiter\<close> makes one
  and \<open>LWait\<close> waits on it in a context (which carries the time and the cancellation), both
  parameters. Limiters are shared by pointer, so they live in a heap and an entry holds an address:
  a goroutine goes on with the limiter it was given after the lock is released.
\<close>

section \<open>State\<close>

record entry =
  en_limiter :: nat
  en_seen :: int

record 'l RateLimiter =
  rl_limiters :: "string \<Rightarrow> entry option"
  rl_heap :: "'l list"
  rl_limit :: float64
  rl_burst :: int
  rl_ttl :: int
  rl_gcInterval :: int

definition NewRateLimiter :: "float64 \<Rightarrow> int \<Rightarrow> int \<Rightarrow> int \<Rightarrow> 'l RateLimiter" where
  "NewRateLimiter limit burst ttl gcInterval =
     \<lparr>rl_limiters = (\<lambda>_. None), rl_heap = [], rl_limit = limit, rl_burst = burst,
      rl_ttl = ttl, rl_gcInterval = gcInterval\<rparr>"

text \<open>The collector runs only when both durations are positive.\<close>

definition gc_started :: "'l RateLimiter \<Rightarrow> bool" where
  "gc_started m \<longleftrightarrow> 0 < rl_ttl m \<and> 0 < rl_gcInterval m"

section \<open>Operations\<close>

definition getLimiter ::
  "(float64 \<Rightarrow> int \<Rightarrow> 'l) \<Rightarrow> int \<Rightarrow> string \<Rightarrow> 'l RateLimiter \<Rightarrow> nat \<times> 'l RateLimiter" where
  "getLimiter NewLimiter now key m =
     (case rl_limiters m key of
        None \<Rightarrow>
          (length (rl_heap m),
           m\<lparr>rl_limiters := (rl_limiters m)(key \<mapsto> \<lparr>en_limiter = length (rl_heap m), en_seen = now\<rparr>),
             rl_heap := rl_heap m @ [NewLimiter (rl_limit m) (rl_burst m)]\<rparr>)
      | Some e \<Rightarrow>
          (en_limiter e, m\<lparr>rl_limiters := (rl_limiters m)(key \<mapsto> e\<lparr>en_seen := now\<rparr>)\<rparr>))"

text \<open>\<open>wait_on a\<close> is \<^verbatim>\<open>Limiter.Wait\<close> on the limiter at address \<open>a\<close>.\<close>

definition wait_on ::
  "('c \<Rightarrow> 'l \<Rightarrow> go_error option \<times> 'l) \<Rightarrow> 'c \<Rightarrow> nat \<Rightarrow> 'l RateLimiter
   \<Rightarrow> go_error option \<times> 'l RateLimiter" where
  "wait_on LWait ctx a m =
     (case LWait ctx (rl_heap m ! a) of (err, l) \<Rightarrow> (err, m\<lparr>rl_heap := (rl_heap m)[a := l]\<rparr>))"

definition Wait ::
  "(float64 \<Rightarrow> int \<Rightarrow> 'l) \<Rightarrow> ('c \<Rightarrow> 'l \<Rightarrow> go_error option \<times> 'l) \<Rightarrow> int \<Rightarrow> 'c \<Rightarrow> string
   \<Rightarrow> 'l RateLimiter \<Rightarrow> go_error option \<times> 'l RateLimiter" where
  "Wait NewLimiter LWait now ctx key m =
     (case getLimiter NewLimiter now key m of (a, m') \<Rightarrow> wait_on LWait ctx a m')"

text \<open>One tick of the collector at time \<open>now\<close>.\<close>

definition gc_tick :: "int \<Rightarrow> 'l RateLimiter \<Rightarrow> 'l RateLimiter" where
  "gc_tick now m = m\<lparr>rl_limiters :=
     (\<lambda>key. case rl_limiters m key of
        None \<Rightarrow> None
      | Some e \<Rightarrow> if now - en_seen e > rl_ttl m then None else Some e)\<rparr>"

section \<open>Well-formed states\<close>

text \<open>Every entry points into the heap and no two keys share a limiter.\<close>

definition rl_inv :: "'l RateLimiter \<Rightarrow> bool" where
  "rl_inv m \<longleftrightarrow>
     (\<forall>k e. rl_limiters m k = Some e \<longrightarrow> en_limiter e < length (rl_heap m)) \<and>
     (\<forall>k e k' e'. rl_limiters m k = Some e \<longrightarrow> rl_limiters m k' = Some e' \<longrightarrow>
        en_limiter e = en_limiter e' \<longrightarrow> k = k')"

lemma rl_inv_new [simp]: "rl_inv (NewRateLimiter limit burst ttl gci)"
  by (simp add: rl_inv_def NewRateLimiter_def)

lemma rl_inv_get:
  assumes inv: "rl_inv m" and get: "getLimiter NewLimiter now key m = (a, m')"
  shows "rl_inv m' \<and> a < length (rl_heap m') \<and> (\<exists>e. rl_limiters m' key = Some e \<and> en_limiter e = a)"
proof (cases "rl_limiters m key")
  case None
  then show ?thesis using inv get
    by (auto simp: getLimiter_def rl_inv_def less_Suc_eq split: if_splits) (metis less_irrefl)+
next
  case (Some e)
  then show ?thesis using inv get by (fastforce simp: getLimiter_def rl_inv_def split: if_splits)
qed

lemma rl_inv_wait_on: "rl_inv m \<Longrightarrow> wait_on LWait ctx a m = (err, m') \<Longrightarrow> rl_inv m'"
  by (auto simp: wait_on_def rl_inv_def split: prod.splits)

lemma rl_inv_gc: "rl_inv m \<Longrightarrow> rl_inv (gc_tick now m)"
  by (fastforce simp: gc_tick_def rl_inv_def split: option.splits if_splits)

text \<open>What a key has left: its limiter and when it was last seen.\<close>

definition budget :: "'l RateLimiter \<Rightarrow> string \<Rightarrow> ('l \<times> int) option" where
  "budget m k = map_option (\<lambda>e. (rl_heap m ! en_limiter e, en_seen e)) (rl_limiters m k)"

lemma budget_new [simp]: "budget (NewRateLimiter limit burst ttl gci) k = None"
  by (simp add: budget_def NewRateLimiter_def)

lemma budget_gc:
  "budget (gc_tick now m) k =
     (case budget m k of None \<Rightarrow> None | Some (l, seen) \<Rightarrow> if now - seen > rl_ttl m then None else Some (l, seen))"
  by (simp add: budget_def gc_tick_def split: option.split)

text \<open>A wait in terms of budgets: the limiter of the key, a fresh one if it has none.\<close>

definition limiter_for :: "(float64 \<Rightarrow> int \<Rightarrow> 'l) \<Rightarrow> 'l RateLimiter \<Rightarrow> string \<Rightarrow> 'l" where
  "limiter_for NewLimiter m k =
     (case budget m k of None \<Rightarrow> NewLimiter (rl_limit m) (rl_burst m) | Some (l, _) \<Rightarrow> l)"

lemma Wait_budget:
  assumes inv: "rl_inv m" and wait: "Wait NewLimiter LWait now ctx key m = (err, m')"
  shows "err = fst (LWait ctx (limiter_for NewLimiter m key)) \<and>
    budget m' key = Some (snd (LWait ctx (limiter_for NewLimiter m key)), now) \<and>
    (\<forall>k. k \<noteq> key \<longrightarrow> budget m' k = budget m k) \<and>
    rl_limit m' = rl_limit m \<and> rl_burst m' = rl_burst m \<and> rl_ttl m' = rl_ttl m"
proof (cases "rl_limiters m key")
  case None
  have "budget m' k = budget m k" if "k \<noteq> key" for k
    using inv wait None that
    by (cases "rl_limiters m k")
      (auto simp: Wait_def getLimiter_def wait_on_def budget_def rl_inv_def nth_append split: prod.splits)
  then show ?thesis using wait None
    by (auto simp: Wait_def getLimiter_def wait_on_def budget_def limiter_for_def split: prod.splits)
next
  case (Some e)
  have bound: "en_limiter e < length (rl_heap m)" using inv Some by (simp add: rl_inv_def)
  have "budget m' k = budget m k" if "k \<noteq> key" for k
  proof (cases "rl_limiters m k")
    case None
    then show ?thesis using wait Some that
      by (auto simp: Wait_def getLimiter_def wait_on_def budget_def split: prod.splits)
  next
    case (Some e')
    then have "en_limiter e \<noteq> en_limiter e'"
      using inv that \<open>rl_limiters m key = Some e\<close> by (auto simp: rl_inv_def)
    then show ?thesis using wait Some \<open>rl_limiters m key = Some e\<close> that
      by (auto simp: Wait_def getLimiter_def wait_on_def budget_def split: prod.splits)
  qed
  then show ?thesis using wait Some bound
    by (auto simp: Wait_def getLimiter_def wait_on_def budget_def limiter_for_def split: prod.splits)
qed

lemma rl_inv_Wait:
  assumes inv: "rl_inv m" and wait: "Wait NewLimiter LWait now ctx key m = (err, m')"
  shows "rl_inv m'"
proof -
  obtain a m1 where get: "getLimiter NewLimiter now key m = (a, m1)" by fastforce
  then have "wait_on LWait ctx a m1 = (err, m')" using wait by (simp add: Wait_def)
  moreover have "rl_inv m1" using rl_inv_get [OF inv get] by simp
  ultimately show ?thesis by (rule rl_inv_wait_on [rotated])
qed

section \<open>The interface of the middlewares\<close>

text \<open>
  What \<^verbatim>\<open>http.RateLimiter\<close> promises: a wait on a key looks at and changes the budget of
  that key only; time passing, \<open>tick\<close>, treats each key by itself.
\<close>

datatype 'c rl_event = Request string 'c | Tick int

fun trace ::
  "('c \<Rightarrow> string \<Rightarrow> 'm \<Rightarrow> go_error option \<times> 'm) \<Rightarrow> (int \<Rightarrow> 'm \<Rightarrow> 'm) \<Rightarrow> 'c rl_event list \<Rightarrow> 'm
   \<Rightarrow> (string \<times> go_error option) list" where
  "trace wait tick [] m = []"
| "trace wait tick (Request k ctx # evs) m =
     (case wait ctx k m of (e, m') \<Rightarrow> (k, e) # trace wait tick evs m')"
| "trace wait tick (Tick t # evs) m = trace wait tick evs (tick t m)"

text \<open>The events one key takes part in: its requests and the ticks.\<close>

definition concerns :: "string \<Rightarrow> 'c rl_event \<Rightarrow> bool" where
  "concerns k ev = (case ev of Request k' _ \<Rightarrow> k' = k | Tick _ \<Rightarrow> True)"

locale keyed_limiter =
  fixes wait :: "'c \<Rightarrow> string \<Rightarrow> 'm \<Rightarrow> go_error option \<times> 'm"
    and tick :: "int \<Rightarrow> 'm \<Rightarrow> 'm"
    and inv :: "'m \<Rightarrow> bool"
    and bud :: "'m \<Rightarrow> string \<Rightarrow> 'b option"
  assumes wait_inv: "inv m \<Longrightarrow> wait ctx k m = (e, m') \<Longrightarrow> inv m'"
    and wait_other: "inv m \<Longrightarrow> wait ctx k m = (e, m') \<Longrightarrow> k' \<noteq> k \<Longrightarrow> bud m' k' = bud m k'"
    and wait_own: "inv m \<Longrightarrow> inv n \<Longrightarrow> bud m k = bud n k \<Longrightarrow>
      wait ctx k m = (e, m') \<Longrightarrow> wait ctx k n = (f, n') \<Longrightarrow> e = f \<and> bud m' k = bud n' k"
    and tick_inv: "inv m \<Longrightarrow> inv (tick t m)"
    and tick_own: "inv m \<Longrightarrow> inv n \<Longrightarrow> bud m k = bud n k \<Longrightarrow> bud (tick t m) k = bud (tick t n) k"
begin

text \<open>What one key sees of a trace depends on its own requests and the ticks alone.\<close>

lemma trace_own:
  assumes "inv m" and "inv n" and "bud m k = bud n k"
  shows "filter (\<lambda>r. fst r = k) (trace wait tick evs m) = trace wait tick (filter (concerns k) evs) n"
  using assms
proof (induction evs arbitrary: m n)
  case (Cons ev evs)
  show ?case
  proof (cases ev)
    case (Request k' ctx)
    obtain e m' where m': "wait ctx k' m = (e, m')" by fastforce
    note inv' = wait_inv [OF Cons.prems(1) m']
    show ?thesis
    proof (cases "k' = k")
      case True
      obtain f n' where n': "wait ctx k n = (f, n')" by fastforce
      have "e = f" "bud m' k = bud n' k"
        using wait_own [OF Cons.prems] m' n' True by auto
      then show ?thesis
        using Cons.IH [OF inv' wait_inv [OF Cons.prems(2) n']] m' n' True Request by (simp add: concerns_def)
    next
      case False
      then have "bud m' k = bud n k" using wait_other [OF Cons.prems(1) m'] Cons.prems(3) by simp
      then show ?thesis using Cons.IH [OF inv' Cons.prems(2)] m' False Request by (simp add: concerns_def)
    qed
  next
    case (Tick t)
    then show ?thesis
      using Cons.IH [OF tick_inv [OF Cons.prems(1)] tick_inv [OF Cons.prems(2)] tick_own [OF Cons.prems]]
      by (simp add: concerns_def)
  qed
qed simp

end

text \<open>The program's limiter, for any token bucket; a request carries its time and its context.\<close>

definition rl_wait ::
  "(float64 \<Rightarrow> int \<Rightarrow> 'l) \<Rightarrow> ('c \<Rightarrow> 'l \<Rightarrow> go_error option \<times> 'l) \<Rightarrow> int \<times> 'c \<Rightarrow> string
   \<Rightarrow> 'l RateLimiter \<Rightarrow> go_error option \<times> 'l RateLimiter" where
  "rl_wait NewLimiter LWait ctx key m = Wait NewLimiter LWait (fst ctx) (snd ctx) key m"

definition rl_ok :: "float64 \<Rightarrow> int \<Rightarrow> int \<Rightarrow> 'l RateLimiter \<Rightarrow> bool" where
  "rl_ok limit burst ttl m \<longleftrightarrow> rl_inv m \<and> rl_limit m = limit \<and> rl_burst m = burst \<and> rl_ttl m = ttl"

interpretation limiter: keyed_limiter "rl_wait NewLimiter LWait" gc_tick "rl_ok limit burst ttl" budget
  for NewLimiter :: "float64 \<Rightarrow> int \<Rightarrow> 'l" and LWait :: "'c \<Rightarrow> 'l \<Rightarrow> go_error option \<times> 'l"
    and limit :: float64 and burst ttl :: int
proof unfold_locales
  fix m :: "'l RateLimiter" and ctx k e m'
  assume m: "rl_ok limit burst ttl m" and w: "rl_wait NewLimiter LWait ctx k m = (e, m')"
  then have i: "rl_inv m" and W: "Wait NewLimiter LWait (fst ctx) (snd ctx) k m = (e, m')"
    by (simp_all add: rl_ok_def rl_wait_def)
  show "rl_ok limit burst ttl m'"
    using rl_inv_Wait [OF i W] Wait_budget [OF i W] m by (simp add: rl_ok_def)
  show "budget m' k' = budget m k'" if "k' \<noteq> k" for k'
    using Wait_budget [OF i W] that by simp
next
  fix m n :: "'l RateLimiter" and k ctx e m' f n'
  assume m: "rl_ok limit burst ttl m" "rl_ok limit burst ttl n" and b: "budget m k = budget n k"
    and "rl_wait NewLimiter LWait ctx k m = (e, m')" "rl_wait NewLimiter LWait ctx k n = (f, n')"
  then have W: "Wait NewLimiter LWait (fst ctx) (snd ctx) k m = (e, m')"
    "Wait NewLimiter LWait (fst ctx) (snd ctx) k n = (f, n')" by (simp_all add: rl_wait_def)
  have "limiter_for NewLimiter m k = limiter_for NewLimiter n k"
    using m b by (cases "budget n k") (simp_all add: limiter_for_def rl_ok_def)
  then show "e = f \<and> budget m' k = budget n' k"
    using Wait_budget [OF _ W(1)] Wait_budget [OF _ W(2)] m by (simp add: rl_ok_def)
next
  fix m :: "'l RateLimiter" and t
  assume "rl_ok limit burst ttl m"
  then show "rl_ok limit burst ttl (gc_tick t m)" by (simp add: rl_ok_def rl_inv_gc) (simp add: gc_tick_def)
next
  fix m n :: "'l RateLimiter" and k t
  assume "rl_ok limit burst ttl m" "rl_ok limit burst ttl n" "budget m k = budget n k"
  then show "budget (gc_tick t m) k = budget (gc_tick t n) k"
    by (cases "budget n k") (simp_all add: budget_gc rl_ok_def split_beta)
qed

section \<open>Interleaving\<close>

text \<open>
  Requests run in goroutines of their own. Under the lock a goroutine gets the address of its
  limiter, and later, without the lock, it waits there; the collector may run in between. The
  ghost list \<open>owner\<close> names the key each address was made for.
\<close>

record 'l rl_system =
  sys_rl :: "'l RateLimiter"
  sys_pending :: "(string \<times> nat) list"

datatype 'c rl_action = Get string int | WaitOn nat 'c | Collect int

inductive rl_step ::
  "(float64 \<Rightarrow> int \<Rightarrow> 'l) \<Rightarrow> ('c \<Rightarrow> 'l \<Rightarrow> go_error option \<times> 'l) \<Rightarrow> 'l rl_system \<Rightarrow> 'c rl_action \<Rightarrow> 'l rl_system \<Rightarrow> bool"
  for NewLimiter LWait where
  get: "getLimiter NewLimiter now key (sys_rl s) = (a, m) \<Longrightarrow>
     rl_step NewLimiter LWait s (Get key now) \<lparr>sys_rl = m, sys_pending = sys_pending s @ [(key, a)]\<rparr>"
| wait: "i < length (sys_pending s) \<Longrightarrow> wait_on LWait ctx (snd (sys_pending s ! i)) (sys_rl s) = (err, m) \<Longrightarrow>
     rl_step NewLimiter LWait s (WaitOn i ctx)
       \<lparr>sys_rl = m, sys_pending = take i (sys_pending s) @ drop (Suc i) (sys_pending s)\<rparr>"
| collect: "gc_started (sys_rl s) \<Longrightarrow>
     rl_step NewLimiter LWait s (Collect now) (s\<lparr>sys_rl := gc_tick now (sys_rl s)\<rparr>)"

inductive rl_reach ::
  "(float64 \<Rightarrow> int \<Rightarrow> 'l) \<Rightarrow> ('c \<Rightarrow> 'l \<Rightarrow> go_error option \<times> 'l) \<Rightarrow> 'l rl_system \<Rightarrow> bool"
  for NewLimiter LWait where
  start: "rl_reach NewLimiter LWait \<lparr>sys_rl = NewRateLimiter limit burst ttl gci, sys_pending = []\<rparr>"
| step: "rl_reach NewLimiter LWait s \<Longrightarrow> rl_step NewLimiter LWait s act s' \<Longrightarrow> rl_reach NewLimiter LWait s'"

definition owned :: "string list \<Rightarrow> 'l rl_system \<Rightarrow> bool" where
  "owned owner s \<longleftrightarrow> length owner = length (rl_heap (sys_rl s)) \<and>
     (\<forall>k e. rl_limiters (sys_rl s) k = Some e \<longrightarrow> en_limiter e < length owner \<and> owner ! en_limiter e = k) \<and>
     (\<forall>(k, a) \<in> set (sys_pending s). a < length owner \<and> owner ! a = k)"

lemma owned_step:
  assumes "rl_step NewLimiter LWait s act s'" and "owned owner s"
  shows "\<exists>new. owned (owner @ new) s'"
  using assms
proof (cases rule: rl_step.cases)
  case (get now key a m)
  show ?thesis
  proof (cases "rl_limiters (sys_rl s) key")
    case None
    then have "owned (owner @ [key]) s'" using get assms(2)
      by (auto simp: owned_def getLimiter_def nth_append less_Suc_eq split: if_splits)
    then show ?thesis by blast
  next
    case (Some e)
    then have "owned (owner @ []) s'" using get assms(2)
      by (auto simp: owned_def getLimiter_def split: if_splits)
    then show ?thesis by blast
  qed
next
  case (wait i ctx err m)
  then have "owned (owner @ []) s'" using assms(2)
    by (auto simp: owned_def wait_on_def split: prod.splits dest!: in_set_takeD in_set_dropD)
  then show ?thesis by blast
next
  case (collect now)
  then have "owned (owner @ []) s'" using assms(2)
    by (auto simp: owned_def gc_tick_def split: option.splits if_splits)
  then show ?thesis by blast
qed

lemma reach_owned: "rl_reach NewLimiter LWait s \<Longrightarrow> \<exists>owner. owned owner s"
proof (induction rule: rl_reach.induct)
  case (start limit burst ttl gci)
  show ?case by (rule exI [of _ "[]"]) (simp add: owned_def NewRateLimiter_def)
next
  case (step s act s')
  then show ?case using owned_step by blast
qed

section \<open>The middlewares\<close>

text \<open>
  \<open>wait\<close> is the limiter in the world of the handler; \<open>keyGetter\<close> and \<open>RemoteAddr\<close> read the
  request \<open>c\<close>.
\<close>

definition NewEchoRateLimiterMiddleware ::
  "('q \<Rightarrow> string \<Rightarrow> 'w \<Rightarrow> go_error option \<times> 'w) \<Rightarrow> ('q \<Rightarrow> string option) \<Rightarrow> ('q \<Rightarrow> string)
   \<Rightarrow> ('q \<Rightarrow> ('w, 'b) echo_handler) \<Rightarrow> 'q \<Rightarrow> ('w, 'b) echo_handler" where
  "NewEchoRateLimiterMiddleware wait keyGetter RemoteAddr next_h c w =
     (let key = (case keyGetter c of Some k \<Rightarrow> k | None \<Rightarrow> RemoteAddr c)
      in case wait c key w of
           (Some err, w') \<Rightarrow>
             if errors_Is err ErrCanceled then (Ok (NoContent 408), w') else (Ok (NoContent 429), w')
         | (None, w') \<Rightarrow> next_h c w')"

definition NewConnectRateLimitInterceptor ::
  "('q \<Rightarrow> string \<Rightarrow> 'w \<Rightarrow> go_error option \<times> 'w) \<Rightarrow> ('q \<Rightarrow> string option) \<Rightarrow> ('q \<Rightarrow> string)
   \<Rightarrow> ('q \<Rightarrow> ('w, 'b) unary_func) \<Rightarrow> 'q \<Rightarrow> ('w, 'b) unary_func" where
  "NewConnectRateLimitInterceptor wait keyGetter PeerAddr next_f req w =
     (let key = (case keyGetter req of Some k \<Rightarrow> k | None \<Rightarrow> PeerAddr req)
      in case wait req key w of
           (Some err, w') \<Rightarrow>
             if errors_Is err ErrCanceled then (Err (ErrConnect CodeCanceled ''canceled'' []), w')
             else (Err (ErrConnect CodeResourceExhausted ''resource exhausted'' []), w')
         | (None, w') \<Rightarrow> next_f req w')"

text \<open>A refused request never reaches the handler; an admitted one does, after its wait.\<close>

lemma echo_limited:
  "wait c (case keyGetter c of Some k \<Rightarrow> k | None \<Rightarrow> RemoteAddr c) w = (None, w') \<Longrightarrow>
   NewEchoRateLimiterMiddleware wait keyGetter RemoteAddr h c w = h c w'"
  "wait c (case keyGetter c of Some k \<Rightarrow> k | None \<Rightarrow> RemoteAddr c) w = (Some err, w') \<Longrightarrow>
   NewEchoRateLimiterMiddleware wait keyGetter RemoteAddr h c w =
     (Ok (NoContent (if errors_Is err ErrCanceled then 408 else 429)), w')"
  by (simp_all add: NewEchoRateLimiterMiddleware_def)

lemma connect_limited:
  "wait c (case keyGetter c of Some k \<Rightarrow> k | None \<Rightarrow> PeerAddr c) w = (None, w') \<Longrightarrow>
   NewConnectRateLimitInterceptor wait keyGetter PeerAddr h c w = h c w'"
  "wait c (case keyGetter c of Some k \<Rightarrow> k | None \<Rightarrow> PeerAddr c) w = (Some err, w') \<Longrightarrow>
   NewConnectRateLimitInterceptor wait keyGetter PeerAddr h c w =
     (Err (if errors_Is err ErrCanceled then ErrConnect CodeCanceled ''canceled'' []
           else ErrConnect CodeResourceExhausted ''resource exhausted'' []), w')"
  by (simp_all add: NewConnectRateLimitInterceptor_def)

section \<open>Properties\<close>

text \<open>C27. Devices do not disturb each other: whatever requests and collections happen, and whatever token
  bucket is used, the answers one key gets are those it would get if the requests of all other keys
  were left out.\<close>

theorem keys_isolated:
  "filter (\<lambda>r. fst r = k) (trace (rl_wait NewLimiter LWait) gc_tick evs (NewRateLimiter limit burst ttl gci)) =
   trace (rl_wait NewLimiter LWait) gc_tick (filter (concerns k) evs) (NewRateLimiter limit burst ttl gci)"
proof (rule limiter.trace_own)
  show "rl_ok limit burst ttl (NewRateLimiter limit burst ttl gci)"
    by (simp add: rl_ok_def) (simp add: NewRateLimiter_def)
  then show "rl_ok limit burst ttl (NewRateLimiter limit burst ttl gci)" .
qed simp

text \<open>C22. Under every interleaving of requests and collections a limiter serves one key for ever: two
  goroutines that hold the same limiter ask for the same key, a goroutine never holds the limiter that
  is now the entry of another key, and no limiter is the entry of two keys.\<close>

theorem limiter_never_shared:
  assumes "rl_reach NewLimiter LWait s"
  shows "(\<forall>k k' a. (k, a) \<in> set (sys_pending s) \<longrightarrow> (k', a) \<in> set (sys_pending s) \<longrightarrow> k = k') \<and>
    (\<forall>k k' e. (k, en_limiter e) \<in> set (sys_pending s) \<longrightarrow> rl_limiters (sys_rl s) k' = Some e \<longrightarrow> k = k') \<and>
    (\<forall>k k' e e'. rl_limiters (sys_rl s) k = Some e \<longrightarrow> rl_limiters (sys_rl s) k' = Some e' \<longrightarrow>
       en_limiter e = en_limiter e' \<longrightarrow> k = k')"
proof -
  obtain owner where o: "owned owner s" using reach_owned [OF assms] by blast
  have entry: "rl_limiters (sys_rl s) k = Some e \<Longrightarrow> owner ! en_limiter e = k" for k e
    using o by (simp add: owned_def)
  have pending: "(k, a) \<in> set (sys_pending s) \<Longrightarrow> owner ! a = k" for k a
    using o by (auto simp: owned_def)
  show ?thesis by (intro conjI allI impI) (metis entry pending)+
qed

lemma limiter_never_shared_witness:
  "\<exists>s. rl_reach (\<lambda>_ _. ()) (\<lambda>_ l. (None, l)) s \<and> length (sys_pending s) = 2 \<and>
    (\<forall>k k' a. (k, a) \<in> set (sys_pending s) \<longrightarrow> (k', a) \<in> set (sys_pending s) \<longrightarrow> k = k')"
proof -
  let ?s0 = "\<lparr>sys_rl = NewRateLimiter f_zero 1 5 1, sys_pending = []\<rparr> :: unit rl_system"
  let ?nl = "\<lambda>_ _. ()" and ?lw = "\<lambda>_ l. (None, l)"
  obtain a1 m1 where g1: "getLimiter ?nl 0 ''d1'' (sys_rl ?s0) = (a1, m1)" by fastforce
  let ?s1 = "\<lparr>sys_rl = m1, sys_pending = sys_pending ?s0 @ [(''d1'', a1)]\<rparr>"
  obtain a2 m2 where g2: "getLimiter ?nl 3 ''d2'' (sys_rl ?s1) = (a2, m2)" by fastforce
  let ?s2 = "\<lparr>sys_rl = m2, sys_pending = sys_pending ?s1 @ [(''d2'', a2)]\<rparr>"
  have r: "rl_reach ?nl ?lw ?s2"
    by (rule rl_reach.step [OF rl_reach.step [OF rl_reach.start rl_step.get [OF g1]] rl_step.get [OF g2]])
  show ?thesis using limiter_never_shared [OF r] r by (intro exI [of _ ?s2]) auto
qed

text \<open>A limiter that counts the requests it has admitted and admits a burst of them.\<close>

definition counting :: "unit \<Rightarrow> int \<Rightarrow> go_error option \<times> int" where
  "counting ctx l = (if 0 < l then (None, l - 1) else (Some (ErrNew ''rate: limited''), l))"

text \<open>C29. What a collection forgets: a key that was seen within its lifetime is answered afterwards by the limiter it
  had, so the tokens it has spent stay spent; one that was idle for longer, however many requests it had
  made before, and one never seen are answered by a brand-new limiter.\<close>

theorem collected_by_lifetime:
  assumes "rl_inv m"
  shows "fst (Wait NewLimiter LWait now' ctx key (gc_tick now m)) = fst (LWait ctx
    (case budget m key of
       Some (l, seen) \<Rightarrow> if now - seen \<le> rl_ttl m then l else NewLimiter (rl_limit m) (rl_burst m)
     | None \<Rightarrow> NewLimiter (rl_limit m) (rl_burst m)))"
proof -
  obtain err m' where w: "Wait NewLimiter LWait now' ctx key (gc_tick now m) = (err, m')" by fastforce
  have kept: "rl_limit (gc_tick now m) = rl_limit m" "rl_burst (gc_tick now m) = rl_burst m" by (simp_all add: gc_tick_def)
  have "limiter_for NewLimiter (gc_tick now m) key =
    (case budget m key of
       Some (l, seen) \<Rightarrow> if now - seen \<le> rl_ttl m then l else NewLimiter (rl_limit m) (rl_burst m)
     | None \<Rightarrow> NewLimiter (rl_limit m) (rl_burst m))"
    by (auto simp: limiter_for_def budget_gc kept split: option.split)
  then show ?thesis using Wait_budget [OF rl_inv_gc [OF assms(1)] w] w by simp
qed

lemma collected_by_lifetime_witness:
  "let m = snd (Wait (\<lambda>_ b. b) counting 0 () ''d1'' (NewRateLimiter f_zero 1 300 60)) in
   fst (Wait (\<lambda>_ b. b) counting 301 () ''d1'' (gc_tick 300 m)) \<noteq> None \<and>
   fst (Wait (\<lambda>_ b. b) counting 400 () ''d1'' (gc_tick 360 m)) = None"
proof -
  let ?m = "(NewRateLimiter f_zero 1 300 60)\<lparr>rl_limiters := [''d1'' \<mapsto> \<lparr>en_limiter = 0, en_seen = 0\<rparr>], rl_heap := [0]\<rparr>"
  have m: "snd (Wait (\<lambda>_ b. b) counting 0 () ''d1'' (NewRateLimiter f_zero 1 300 60)) = ?m"
    by (simp add: Wait_def getLimiter_def wait_on_def counting_def NewRateLimiter_def)
  have "rl_inv ?m" and b: "budget ?m ''d1'' = Some (0, 0)" by (simp_all add: rl_inv_def budget_def)
  note result = collected_by_lifetime [OF this(1), of "\<lambda>_ b. b" counting _ "()" "''d1''", unfolded b]
  show ?thesis using result [of 301 300] result [of 400 360]
    unfolding m by (simp add: counting_def NewRateLimiter_def)
qed

end
