(* ===== verification/Configuration.thy ===== *)
theory Configuration
  imports Log RateLimiter
begin

text \<open>
  \<^verbatim>\<open>config/config.go\<close> and what \<^verbatim>\<open>run\<close> in \<^verbatim>\<open>main.go\<close> makes of a configuration: the
  logger, the rate limiter and the address. Opening and decoding the YAML file and reading the
  environment are library calls and parameters of \<open>Load\<close>.
\<close>

section \<open>The configuration\<close>

record LoggerConfig =
  lc_Level :: string
  lc_Structured :: bool

record RateLimitConfig =
  rlc_Tokens :: int
  rlc_Seconds :: int

record AppConfig =
  app_Port :: int
  app_SQLiteDir :: string
  app_Logger :: LoggerConfig
  app_DeviceRateLimit :: "RateLimitConfig option"

definition Validate :: "AppConfig \<Rightarrow> string list" where
  "Validate c =
     (if \<not> snd (ParseLevel (lc_Level (app_Logger c)))
      then [''logger.level: must be one of [debug, info, warn, error]''] else []) @
     (if app_Port c < 1 \<and> app_Port c > 65535 then [''port: must be between 1 and 65535''] else []) @
     (case app_DeviceRateLimit c of
        None \<Rightarrow> []
      | Some rl \<Rightarrow>
          (if rlc_Tokens rl \<le> 0 then [''deviceRateLimit.tokens: must be greater than 0''] else []) @
          (if rlc_Seconds rl \<le> 0 then [''deviceRateLimit.seconds: must be greater than 0''] else []))"

definition default_config :: AppConfig where
  "default_config = \<lparr>app_Port = 8080, app_SQLiteDir = ''./data/'',
     app_Logger = \<lparr>lc_Level = ''info'', lc_Structured = True\<rparr>, app_DeviceRateLimit = None\<rparr>"

text \<open>
  \<open>open_file\<close> opens a path, \<open>decode\<close> reads the opened file over a configuration, \<open>env\<close>
  reads the environment over it; invalid values end the process with status 1.
\<close>

datatype load_result = Loaded AppConfig | LoadFailed go_error | Exited int "string list"

definition Load ::
  "(string \<Rightarrow> go_error + 'f) \<Rightarrow> ('f \<Rightarrow> AppConfig \<Rightarrow> go_error + AppConfig)
   \<Rightarrow> (AppConfig \<Rightarrow> go_error + AppConfig) \<Rightarrow> string \<Rightarrow> load_result" where
  "Load open_file decode env configFile =
     (let quoted = CHR 0x27 # configFile @ [CHR 0x27];
          read = (if configFile = [] then Inr default_config
                  else case open_file configFile of
                         Inl err \<Rightarrow> Inl (ErrWrapf (''open config file at path '' @ quoted) err)
                       | Inr file \<Rightarrow>
                           (case decode file default_config of
                              Inl err \<Rightarrow> Inl (ErrWrapf (''decode config file at path '' @ quoted) err)
                            | Inr cfg \<Rightarrow> Inr cfg))
      in case read of
           Inl err \<Rightarrow> LoadFailed err
         | Inr cfg \<Rightarrow>
             (case env cfg of
                Inl err \<Rightarrow> LoadFailed (ErrWrapf ''parse config environment variables'' err)
              | Inr cfg' \<Rightarrow>
                  if Validate cfg' = [] then Loaded cfg' else Exited 1 (Validate cfg')))"

section \<open>What run makes of it\<close>

definition run_logger :: "AppConfig \<Rightarrow> Logger" where
  "run_logger cfg = NewLogger (if lc_Structured (app_Logger cfg) then [] else [WithDevelopment])"

text \<open>Durations are nanoseconds.\<close>

definition run_rate_limiter :: "RateLimitConfig \<Rightarrow> 'l RateLimiter" where
  "run_rate_limiter rl =
     NewRateLimiter (f_div (f_of_int (rlc_Tokens rl)) (f_of_int (rlc_Seconds rl)))
       (min (rlc_Tokens rl) 50) (5 * 60 * 1000000000) (60 * 1000000000)"

definition run_host_port :: "AppConfig \<Rightarrow> string" where
  "run_host_port cfg = '':'' @ int_dec (app_Port cfg)"

section \<open>What validation guarantees\<close>

lemma Validate_Nil_iff:
  "Validate c = [] \<longleftrightarrow>
   snd (ParseLevel (lc_Level (app_Logger c))) \<and>
   (\<forall>rl. app_DeviceRateLimit c = Some rl \<longrightarrow> 0 < rlc_Tokens rl \<and> 0 < rlc_Seconds rl)"
  by (cases "app_DeviceRateLimit c") (auto simp: Validate_def)

lemma Load_Loaded:
  assumes "Load open_file decode env f = Loaded cfg"
  shows "Validate cfg = [] \<and> (\<exists>c0. env c0 = Inr cfg)"
  using assms by (auto simp: Load_def Let_def split: sum.splits if_splits)

lemma run_rate_limiter_simps [simp]:
  "rl_burst (run_rate_limiter rl) = min (rlc_Tokens rl) 50"
  "rl_ttl (run_rate_limiter rl) = 300000000000"
  "gc_started (run_rate_limiter rl)"
  "rl_inv (run_rate_limiter rl)"
  by (simp_all add: run_rate_limiter_def NewRateLimiter_def gc_started_def rl_inv_def)

text \<open>Loading a configuration never rejects a port: validation is the same for every port.\<close>

lemma port_not_validated: "Validate (c\<lparr>app_Port := p\<rparr>) = Validate c"
  by (simp add: Validate_def)

text \<open>A configuration that loads is one validation accepts, and the limiter that run builds
  from it has a burst of at least one and at most fifty requests per device, so that no device is
  shut out for good; its collector runs.\<close>

lemma loaded_limiter:
  assumes "Load open_file decode env f = Loaded cfg" and "app_DeviceRateLimit cfg = Some rl"
  shows "1 \<le> rl_burst (run_rate_limiter rl) \<and> rl_burst (run_rate_limiter rl) \<le> 50 \<and>
    rl_burst (run_rate_limiter rl) \<le> rlc_Tokens rl \<and> 0 < rlc_Seconds rl \<and> gc_started (run_rate_limiter rl)"
  using Load_Loaded [OF assms(1)] assms(2) by (auto simp: Validate_Nil_iff)

text \<open>Whatever level the configuration asks for, the program logs at level info: the validated
  level is not handed to the logger.\<close>

lemma level_not_applied: "lg_level (run_logger cfg) = LevelInfo"
  by (simp add: run_logger_def NewLogger_def WithDevelopment_def)

end
