(* ===== verification/Server.thy ===== *)
theory Server
  imports Handlers Configuration
begin

text \<open>
  \<^verbatim>\<open>http/log.go\<close>, \<^verbatim>\<open>http/recover.go\<close> and the wiring of \<^verbatim>\<open>run\<close> in
  \<^verbatim>\<open>main.go\<close>: the chains of middlewares around the REST routes and the Connect procedures. The frameworks themselves are parameters: \<open>Recover\<close> and \<open>WithRecover\<close> catch
  panics, \<open>RequestLogger\<close> runs the next handler and then a logging function.
\<close>

section \<open>The world of a request\<close>

text \<open>The service's state with its log, and the rate limiter. The request type \<open>'q\<close> is open.\<close>

record ('s, 'l) world =
  wd_svc :: "'s svc_state"
  wd_rl :: "'l RateLimiter"

definition in_svc :: "('s svc_state, 'e, 'a) run \<Rightarrow> (('s, 'l) world, 'e, 'a) run" where
  "in_svc m w = (case m (wd_svc w) of (res, s) \<Rightarrow> (res, w\<lparr>wd_svc := s\<rparr>))"

definition log_to :: "(LogEntry list \<Rightarrow> LogEntry list) \<Rightarrow> ('s, 'l) world \<Rightarrow> ('s, 'l) world" where
  "log_to f w = w\<lparr>wd_svc := (wd_svc w)\<lparr>st_log := f (st_log (wd_svc w))\<rparr>\<rparr>"

lemma log_to_simps [simp]:
  "st_store (wd_svc (log_to f w)) = st_store (wd_svc w)" "wd_rl (log_to f w) = wd_rl w"
  "st_log (wd_svc (log_to f w)) = f (st_log (wd_svc w))"
  by (simp_all add: log_to_def)

section \<open>Logging\<close>

record RequestLoggerValues =
  v_StartTime :: go_time
  v_Method :: string
  v_URI :: string
  v_Status :: int
  v_Latency :: string
  v_Error :: "go_error option"

text \<open>\<^verbatim>\<open>LogValuesFunc\<close>: a preflight request is not logged.\<close>

definition LogValuesFunc :: "Logger \<Rightarrow> RequestLoggerValues \<Rightarrow> LogEntry list \<Rightarrow> go_error option \<times> LogEntry list" where
  "LogValuesFunc logger v out =
     (if v_Method v = ''OPTIONS'' then (None, out)
      else
        let logArgs = [(''time'', LTime (t_UTC (v_StartTime v))), (''http.method'', LStr (v_Method v)),
              (''http.uri'', LStr (v_URI v)), (''http.status'', LInt (v_Status v)),
              (''duration'', LStr (v_Latency v))];
            (level, logArgs) = (case v_Error v of
                None \<Rightarrow> (LevelInfo, logArgs)
              | Some err \<Rightarrow> (LevelError, logArgs @ [(''error'', LErr err)]))
        in (v_Error v, logger_Log logger level ''http request'' logArgs out))"

definition NewEchoLogMiddleware ::
  "((RequestLoggerValues \<Rightarrow> LogEntry list \<Rightarrow> go_error option \<times> LogEntry list) \<Rightarrow> 'h \<Rightarrow> 'h) \<Rightarrow> Logger \<Rightarrow> 'h \<Rightarrow> 'h" where
  "NewEchoLogMiddleware RequestLogger logger = RequestLogger (LogValuesFunc logger)"

text \<open>\<^verbatim>\<open>strings.Split(s, "/")\<close>.\<close>

fun split_slash :: "string \<Rightarrow> string list" where
  "split_slash [] = [[]]"
| "split_slash (c # s) =
     (if c = CHR ''/'' then [] # split_slash s
      else case split_slash s of p # ps \<Rightarrow> (c # p) # ps | [] \<Rightarrow> [[c]])"

definition procedure_attrs :: "string \<Rightarrow> (string \<times> log_val) list" where
  "procedure_attrs procedure =
     (case split_slash procedure of
        [a, service, meth] \<Rightarrow> [(''connect.service'', LStr service), (''connect.method'', LStr meth)]
      | _ \<Rightarrow> [(''connect.procedure'', LStr procedure)])"

text \<open>
  \<open>Procedure\<close> is the procedure of a request, \<open>start\<close> its rendered start time, \<open>duration\<close> the
  rendered time it took, and \<open>code_text\<close> renders a Connect code.
\<close>

definition NewConnectLogInterceptor ::
  "('q \<Rightarrow> string) \<Rightarrow> ('q \<Rightarrow> string) \<Rightarrow> ('q \<Rightarrow> string) \<Rightarrow> (connect_code \<Rightarrow> string) \<Rightarrow> Logger
   \<Rightarrow> ('q \<Rightarrow> (('s, 'l) world, 'b) unary_func) \<Rightarrow> 'q \<Rightarrow> (('s, 'l) world, 'b) unary_func" where
  "NewConnectLogInterceptor Procedure start duration code_text logger next_f req w =
     (let keyVals = (''protocol'', LStr ''connect'') # procedure_attrs (Procedure req) @
            [(''start_time'', LStr (start req))]
      in case next_f req w of
           (Panic p, w') \<Rightarrow> (Panic p, w')
         | (Ok res, w') \<Rightarrow>
             (Ok res, log_to (logger_Log logger LevelInfo ''unary rpc called''
                (keyVals @ [(''duration'', LStr (duration req))])) w')
         | (Err err, w') \<Rightarrow>
             (let code = (case errors_As is_connect_error err of
                    Some (ErrConnect c m ds) \<Rightarrow> [(''error_code'', LStr (code_text c))]
                  | _ \<Rightarrow> [])
              in (Err err, log_to (logger_Log logger LevelError ''unary rpc called''
                   (keyVals @ code @ [(''error'', LErr err), (''duration'', LStr (duration req))])) w')))"

section \<open>Recovering\<close>

text \<open>The function \<^verbatim>\<open>WithConnectRecover\<close> hands to the framework.\<close>

definition connect_recover ::
  "Logger \<Rightarrow> string \<Rightarrow> string \<Rightarrow> ('s, 'l) world \<Rightarrow> go_error \<times> ('s, 'l) world" where
  "connect_recover logger procedure recovered w =
     (ErrConnect CodeInternal ''internal Error'' [],
      log_to (logger_Log logger LevelError ''recovered from rpc handler panic''
        [(''procedure'', LStr procedure), (''recovered'', LStr recovered)]) w)"

definition WithConnectRecover ::
  "((string \<Rightarrow> string \<Rightarrow> ('s, 'l) world \<Rightarrow> go_error \<times> ('s, 'l) world) \<Rightarrow> 'f \<Rightarrow> 'f) \<Rightarrow> Logger \<Rightarrow> 'f \<Rightarrow> 'f" where
  "WithConnectRecover WithRecover logger = WithRecover (connect_recover logger)"

section \<open>The chains that run builds\<close>

text \<open>The first middleware of a list is the outermost.\<close>

definition chain :: "('h \<Rightarrow> 'h) list \<Rightarrow> 'h \<Rightarrow> 'h" where
  "chain ms h = foldr (\<lambda>m h. m h) ms h"

text \<open>
  What a request carries for the limiter: the time it asks, its context, and the remote address.
\<close>

record 'c meta =
  mt_now :: int
  mt_ctx :: 'c
  mt_remote :: string

definition limit_wait ::
  "(float64 \<Rightarrow> int \<Rightarrow> 'l) \<Rightarrow> ('c \<Rightarrow> 'l \<Rightarrow> go_error option \<times> 'l) \<Rightarrow> ('q \<Rightarrow> 'c meta) \<Rightarrow> 'q \<Rightarrow> string
   \<Rightarrow> ('s, 'l) world \<Rightarrow> go_error option \<times> ('s, 'l) world" where
  "limit_wait NewLimiter LWait meta_of q key w =
     (case Wait NewLimiter LWait (mt_now (meta_of q)) (mt_ctx (meta_of q)) key (wd_rl w) of
        (err, rl) \<Rightarrow> (err, w\<lparr>wd_rl := rl\<rparr>))"

definition run_middleware ::
  "(violations \<Rightarrow> violations) \<Rightarrow>
   ((RequestLoggerValues \<Rightarrow> LogEntry list \<Rightarrow> go_error option \<times> LogEntry list) \<Rightarrow>
      ('q \<Rightarrow> (('s, 'l) world, 'b) echo_handler) \<Rightarrow> 'q \<Rightarrow> (('s, 'l) world, 'b) echo_handler) \<Rightarrow>
   (float64 \<Rightarrow> int \<Rightarrow> 'l) \<Rightarrow> ('c \<Rightarrow> 'l \<Rightarrow> go_error option \<times> 'l) \<Rightarrow> ('q \<Rightarrow> 'c meta) \<Rightarrow> ('q \<Rightarrow> string \<Rightarrow> string) \<Rightarrow>
   AppConfig \<Rightarrow> (('q \<Rightarrow> (('s, 'l) world, 'b) echo_handler) \<Rightarrow> 'q \<Rightarrow> (('s, 'l) world, 'b) echo_handler) list" where
  "run_middleware ord RequestLogger NewLimiter LWait meta_of Param cfg =
     [\<lambda>h q. NewEchoErrorMiddleware ord (h q), NewEchoLogMiddleware RequestLogger (run_logger cfg)] @
     (if app_DeviceRateLimit cfg = None then []
      else [NewEchoRateLimiterMiddleware (limit_wait NewLimiter LWait meta_of)
              (EchoRequestDeviceIDGetter Param) (\<lambda>q. mt_remote (meta_of q))])"

definition run_interceptors ::
  "(violations \<Rightarrow> violations) \<Rightarrow> ((string \<times> string) list \<Rightarrow> (string \<times> string) list option) \<Rightarrow>
   ('q \<Rightarrow> string) \<Rightarrow> ('q \<Rightarrow> string) \<Rightarrow> ('q \<Rightarrow> string) \<Rightarrow> (connect_code \<Rightarrow> string) \<Rightarrow>
   (float64 \<Rightarrow> int \<Rightarrow> 'l) \<Rightarrow> ('c \<Rightarrow> 'l \<Rightarrow> go_error option \<times> 'l) \<Rightarrow> ('q \<Rightarrow> 'c meta) \<Rightarrow> ('q \<Rightarrow> 't any_request) \<Rightarrow>
   AppConfig \<Rightarrow> (('q \<Rightarrow> (('s, 'l) world, 'b) unary_func) \<Rightarrow> 'q \<Rightarrow> (('s, 'l) world, 'b) unary_func) list" where
  "run_interceptors ord new_detail Procedure start duration code_text NewLimiter LWait meta_of Any cfg =
     [\<lambda>f q. NewConnectErrorInterceptor ord new_detail (f q),
      NewConnectLogInterceptor Procedure start duration code_text (run_logger cfg)] @
     (if app_DeviceRateLimit cfg = None then []
      else [NewConnectRateLimitInterceptor (limit_wait NewLimiter LWait meta_of)
              (\<lambda>q. ConnectRequestDeviceIDGetter (Any q)) (\<lambda>q. mt_remote (meta_of q))])"

text \<open>\<^verbatim>\<open>NewServer\<close> puts \<^verbatim>\<open>middleware.Recover()\<close> around every route.\<close>

definition rest_stack where
  "rest_stack Recover ms h = Recover (chain ms h)"

definition connect_stack where
  "connect_stack WithRecover logger ims f = WithConnectRecover WithRecover logger (chain ims f)"

section \<open>What the chains guarantee\<close>

text \<open>
  The documented behaviour of Echo's two middlewares. \<open>recovers\<close>: a panic of the next handler
  becomes an answer of the central error handler, anything else passes. \<open>logs_requests\<close>: the next
  handler runs, then the logging function with the error it returned, whose error, if any, is the
  result; a panic passes through unlogged.
\<close>

definition recovers :: "(('q \<Rightarrow> ('w, 'b) echo_handler) \<Rightarrow> 'q \<Rightarrow> ('w, 'b) echo_handler) \<Rightarrow> bool" where
  "recovers Recover \<longleftrightarrow> (\<forall>h q w.
     (case h q w of
        (Panic p, w') \<Rightarrow> \<exists>r. Recover h q w = (Ok r, w')
      | (Ok r, w') \<Rightarrow> Recover h q w = (Ok r, w')
      | (Err e, w') \<Rightarrow> Recover h q w = (Err e, w')))"

definition error_of :: "(go_error, 'a) outcome \<Rightarrow> go_error option" where
  "error_of res = (case res of Err e \<Rightarrow> Some e | _ \<Rightarrow> None)"

definition log_result ::
  "(RequestLoggerValues \<Rightarrow> LogEntry list \<Rightarrow> go_error option \<times> LogEntry list) \<Rightarrow> RequestLoggerValues
   \<Rightarrow> (go_error, 'a) outcome \<Rightarrow> ('s, 'l) world \<Rightarrow> (go_error, 'a) outcome \<times> ('s, 'l) world" where
  "log_result f v res w =
     (case f v (st_log (wd_svc w)) of
        (None, out) \<Rightarrow> (res, log_to (\<lambda>_. out) w)
      | (Some e, out) \<Rightarrow> (Err e, log_to (\<lambda>_. out) w))"

definition logs_requests ::
  "((RequestLoggerValues \<Rightarrow> LogEntry list \<Rightarrow> go_error option \<times> LogEntry list) \<Rightarrow>
      ('q \<Rightarrow> (('s, 'l) world, 'b) echo_handler) \<Rightarrow> 'q \<Rightarrow> (('s, 'l) world, 'b) echo_handler) \<Rightarrow> bool" where
  "logs_requests RequestLogger \<longleftrightarrow> (\<forall>f h q w.
     if is_panic (fst (h q w)) then RequestLogger f h q w = h q w
     else \<exists>v. v_Error v = error_of (fst (h q w)) \<and>
            RequestLogger f h q w = log_result f v (fst (h q w)) (snd (h q w)))"

text \<open>Instances, for the witnesses.\<close>

definition demo_recover :: "('q \<Rightarrow> ('w, 'b) echo_handler) \<Rightarrow> 'q \<Rightarrow> ('w, 'b) echo_handler" where
  "demo_recover h q w = (case h q w of (Panic p, w') \<Rightarrow> (Ok (NoContent 500), w') | r \<Rightarrow> r)"

definition demo_request_logger ::
  "(RequestLoggerValues \<Rightarrow> LogEntry list \<Rightarrow> go_error option \<times> LogEntry list) \<Rightarrow>
      ('q \<Rightarrow> (('s, 'l) world, 'b) echo_handler) \<Rightarrow> 'q \<Rightarrow> (('s, 'l) world, 'b) echo_handler" where
  "demo_request_logger f h q w =
     (if is_panic (fst (h q w)) then h q w
      else log_result f \<lparr>v_StartTime = zero_time, v_Method = ''GET'', v_URI = ''/'', v_Status = 200,
             v_Latency = ''1ms'', v_Error = error_of (fst (h q w))\<rparr> (fst (h q w)) (snd (h q w)))"

lemma demo_recovers: "recovers demo_recover"
  by (auto simp: recovers_def demo_recover_def split: prod.split outcome.split)

lemma demo_logs: "logs_requests demo_request_logger"
  unfolding logs_requests_def demo_request_logger_def
  by (metis RequestLoggerValues.select_convs(6))

lemma LogValuesFunc_error:
  "fst (LogValuesFunc l v out) = None \<or> fst (LogValuesFunc l v out) = v_Error v"
  by (simp add: LogValuesFunc_def Let_def split: option.split)

text \<open>Logging a request leaves the store and the limiter alone and returns the result it was given.\<close>

lemma log_middleware_effect:
  assumes "logs_requests RequestLogger"
  shows "\<exists>f. NewEchoLogMiddleware RequestLogger l h q w = (fst (h q w), log_to f (snd (h q w)))"
proof (cases "is_panic (fst (h q w))")
  case True
  then have "NewEchoLogMiddleware RequestLogger l h q w = (fst (h q w), log_to (\<lambda>x. x) (snd (h q w)))"
    using assms by (simp add: logs_requests_def NewEchoLogMiddleware_def log_to_def)
  then show ?thesis by blast
next
  case False
  then obtain v where v: "v_Error v = error_of (fst (h q w))"
    "RequestLogger (LogValuesFunc l) h q w = log_result (LogValuesFunc l) v (fst (h q w)) (snd (h q w))"
    using assms [unfolded logs_requests_def, rule_format, of h q w "LogValuesFunc l"] by auto
  obtain e out where e: "LogValuesFunc l v (st_log (wd_svc (snd (h q w)))) = (e, out)" by fastforce
  then have "e = None \<or> e = error_of (fst (h q w))"
    using LogValuesFunc_error [of l v "st_log (wd_svc (snd (h q w)))"] v(1) by simp
  then have "log_result (LogValuesFunc l) v (fst (h q w)) (snd (h q w)) =
      (fst (h q w), log_to (\<lambda>_. out) (snd (h q w)))"
    using e by (auto simp: log_result_def error_of_def split: outcome.splits option.splits)
  then show ?thesis using v(2) by (auto simp: NewEchoLogMiddleware_def)
qed

lemma error_middleware_answers:
  "\<exists>r. fst (NewEchoErrorMiddleware ord h w) = Ok r \<or> (\<exists>p. fst (NewEchoErrorMiddleware ord h w) = Panic p)"
  by (auto simp: NewEchoErrorMiddleware_def Let_def split: prod.split outcome.split)

text \<open>The chains unfolded: error handling outermost, then the log, then the limiter if configured.\<close>

lemma rest_chain:
  "chain (run_middleware ord RequestLogger NewLimiter LWait meta_of Param cfg) h q =
   NewEchoErrorMiddleware ord (NewEchoLogMiddleware RequestLogger (run_logger cfg)
     (if app_DeviceRateLimit cfg = None then h
      else NewEchoRateLimiterMiddleware (limit_wait NewLimiter LWait meta_of)
             (EchoRequestDeviceIDGetter Param) (\<lambda>q. mt_remote (meta_of q)) h) q)"
  by (simp add: chain_def run_middleware_def)

text \<open>Every REST request is answered: whatever the handler does, return a value, an error or
  panic, with or without a rate limiter, what leaves the stack is a response.\<close>

lemma rest_always_answers:
  assumes "recovers Recover"
  shows "\<exists>r. fst (rest_stack Recover (run_middleware ord RequestLogger NewLimiter LWait meta_of Param cfg) h q w) = Ok r"
proof -
  let ?c = "chain (run_middleware ord RequestLogger NewLimiter LWait meta_of Param cfg) h"
  obtain res w' where c: "?c q w = (res, w')" by fastforce
  have "(\<exists>r. res = Ok r) \<or> (\<exists>p. res = Panic p)"
    using c error_middleware_answers [of ord] unfolding rest_chain by (metis fst_conv)
  moreover note assms [unfolded recovers_def, rule_format, of ?c q w]
  ultimately show ?thesis using c by (auto simp: rest_stack_def)
qed

text \<open>What the handler or the limiter in front of it answers reaches the client: a value as it is, an error as the
  structured error made of it, whose status is that of the error; nothing but the log is touched.\<close>

lemma rest_inner:
  assumes "recovers Recover" and "logs_requests RequestLogger"
    and inner: "inner = (if app_DeviceRateLimit cfg = None then h
      else NewEchoRateLimiterMiddleware (limit_wait NewLimiter LWait meta_of)
             (EchoRequestDeviceIDGetter Param) (\<lambda>q. mt_remote (meta_of q)) h)"
  shows "inner q w = (Ok r, w') \<Longrightarrow>
      \<exists>f. rest_stack Recover (run_middleware ord RequestLogger NewLimiter LWait meta_of Param cfg) h q w = (Ok r, log_to f w')"
    and "inner q w = (Err err, w') \<Longrightarrow>
      \<exists>f. rest_stack Recover (run_middleware ord RequestLogger NewLimiter LWait meta_of Param cfg) h q w =
        (Ok (ErrorReply (re_Code (rest_error_of ord err)) \<lparr>rer_Error = rest_error_of ord err\<rparr>), log_to f w')"
proof -
  let ?c = "chain (run_middleware ord RequestLogger NewLimiter LWait meta_of Param cfg) h"
  obtain f where f: "NewEchoLogMiddleware RequestLogger (run_logger cfg) inner q w = (fst (inner q w), log_to f (snd (inner q w)))"
    using log_middleware_effect [OF assms(2)] by blast
  have c: "?c q w = NewEchoErrorMiddleware ord (NewEchoLogMiddleware RequestLogger (run_logger cfg) inner q) w"
    unfolding rest_chain inner by simp
  note rec = assms(1) [unfolded recovers_def, rule_format, of ?c q w]
  {
    assume "inner q w = (Ok r, w')"
    then have "?c q w = (Ok r, log_to f w')" using c f by (simp add: NewEchoErrorMiddleware_def)
    then show "\<exists>f. rest_stack Recover (run_middleware ord RequestLogger NewLimiter LWait meta_of Param cfg) h q w = (Ok r, log_to f w')"
      using rec by (auto simp: rest_stack_def)
  }
  {
    assume "inner q w = (Err err, w')"
    then have "?c q w = (Ok (ErrorReply (re_Code (rest_error_of ord err)) \<lparr>rer_Error = rest_error_of ord err\<rparr>), log_to f w')"
      using c f by (simp add: NewEchoErrorMiddleware_def Let_def)
    then show "\<exists>f. rest_stack Recover (run_middleware ord RequestLogger NewLimiter LWait meta_of Param cfg) h q w =
        (Ok (ErrorReply (re_Code (rest_error_of ord err)) \<lparr>rer_Error = rest_error_of ord err\<rparr>), log_to f w')"
      using rec by (auto simp: rest_stack_def)
  }
qed

text \<open>Without a rate limiter.\<close>

lemma rest_ok_response:
  assumes "recovers Recover" and "logs_requests RequestLogger" and "app_DeviceRateLimit cfg = None"
    and "h q w = (Ok r, w')"
  shows "\<exists>f. rest_stack Recover (run_middleware ord RequestLogger NewLimiter LWait meta_of Param cfg) h q w =
    (Ok r, log_to f w')"
  by (rule rest_inner(1) [OF assms(1,2) refl]) (simp add: assms(3,4))

lemma rest_error_response:
  assumes "recovers Recover" and "logs_requests RequestLogger" and "app_DeviceRateLimit cfg = None"
    and "h q w = (Err err, w')"
  shows "\<exists>f. rest_stack Recover (run_middleware ord RequestLogger NewLimiter LWait meta_of Param cfg) h q w =
    (Ok (ErrorReply (re_Code (rest_error_of ord err)) \<lparr>rer_Error = rest_error_of ord err\<rparr>), log_to f w')"
  by (rule rest_inner(2) [OF assms(1,2) refl]) (simp add: assms(3,4))

text \<open>With one: a request it refuses is answered 429, or 408 when its context was cancelled while it waited, and the
  handler does not run, whatever it is; one it admits goes on to the handler.\<close>

lemma rest_limited_request:
  assumes "recovers Recover" and "logs_requests RequestLogger" and "app_DeviceRateLimit cfg \<noteq> None"
    and "Wait NewLimiter LWait (mt_now (meta_of q)) (mt_ctx (meta_of q))
      (case EchoRequestDeviceIDGetter Param q of Some k \<Rightarrow> k | None \<Rightarrow> mt_remote (meta_of q)) (wd_rl w) = (Some err, rl)"
  shows "\<exists>f. rest_stack Recover (run_middleware ord RequestLogger NewLimiter LWait meta_of Param cfg) h q w =
    (Ok (NoContent (if errors_Is err ErrCanceled then 408 else 429)), log_to f (w\<lparr>wd_rl := rl\<rparr>))"
  by (rule rest_inner(1) [OF assms(1,2) refl], simp only: assms(3) if_False, rule echo_limited(2))
    (simp add: limit_wait_def assms(4))

lemma rest_admitted_request:
  assumes "recovers Recover" and "logs_requests RequestLogger" and "app_DeviceRateLimit cfg \<noteq> None"
    and "Wait NewLimiter LWait (mt_now (meta_of q)) (mt_ctx (meta_of q))
      (case EchoRequestDeviceIDGetter Param q of Some k \<Rightarrow> k | None \<Rightarrow> mt_remote (meta_of q)) (wd_rl w) = (None, rl)"
  shows "h q (w\<lparr>wd_rl := rl\<rparr>) = (Ok r, w') \<Longrightarrow>
      \<exists>f. rest_stack Recover (run_middleware ord RequestLogger NewLimiter LWait meta_of Param cfg) h q w = (Ok r, log_to f w')"
    and "h q (w\<lparr>wd_rl := rl\<rparr>) = (Err err, w') \<Longrightarrow>
      \<exists>f. rest_stack Recover (run_middleware ord RequestLogger NewLimiter LWait meta_of Param cfg) h q w =
        (Ok (ErrorReply (re_Code (rest_error_of ord err)) \<lparr>rer_Error = rest_error_of ord err\<rparr>), log_to f w')"
proof -
  have through: "NewEchoRateLimiterMiddleware (limit_wait NewLimiter LWait meta_of) (EchoRequestDeviceIDGetter Param)
      (\<lambda>q. mt_remote (meta_of q)) h q w = h q (w\<lparr>wd_rl := rl\<rparr>)"
    by (rule echo_limited(1)) (simp add: limit_wait_def assms(4))
  show "h q (w\<lparr>wd_rl := rl\<rparr>) = (Ok r, w') \<Longrightarrow>
      \<exists>f. rest_stack Recover (run_middleware ord RequestLogger NewLimiter LWait meta_of Param cfg) h q w = (Ok r, log_to f w')"
    by (rule rest_inner(1) [OF assms(1,2) refl]) (simp only: assms(3) if_False through)
  show "h q (w\<lparr>wd_rl := rl\<rparr>) = (Err err, w') \<Longrightarrow>
      \<exists>f. rest_stack Recover (run_middleware ord RequestLogger NewLimiter LWait meta_of Param cfg) h q w =
        (Ok (ErrorReply (re_Code (rest_error_of ord err)) \<lparr>rer_Error = rest_error_of ord err\<rparr>), log_to f w')"
    by (rule rest_inner(2) [OF assms(1,2) refl]) (simp only: assms(3) if_False through)
qed

definition demo_limited :: AppConfig where
  "demo_limited = default_config\<lparr>app_DeviceRateLimit := Some \<lparr>rlc_Tokens = 1, rlc_Seconds = 60\<rparr>\<rparr>"

text \<open>
  The documented behaviour of \<^verbatim>\<open>connect.WithRecover\<close>: a panic of the next function becomes the
  error its argument makes, anything else passes.
\<close>

definition recovers_rpc ::
  "((string \<Rightarrow> string \<Rightarrow> 'w \<Rightarrow> go_error \<times> 'w) \<Rightarrow> ('q \<Rightarrow> ('w, 'b) unary_func) \<Rightarrow> 'q \<Rightarrow> ('w, 'b) unary_func) \<Rightarrow> bool" where
  "recovers_rpc WithRecover \<longleftrightarrow> (\<forall>mk f q w.
     (case f q w of
        (Panic p, w') \<Rightarrow> \<exists>proc. WithRecover mk f q w = (case mk proc p w' of (e, w'') \<Rightarrow> (Err e, w''))
      | r \<Rightarrow> WithRecover mk f q w = r))"

definition demo_rpc_recover ::
  "(string \<Rightarrow> string \<Rightarrow> 'w \<Rightarrow> go_error \<times> 'w) \<Rightarrow> ('q \<Rightarrow> ('w, 'b) unary_func) \<Rightarrow> 'q \<Rightarrow> ('w, 'b) unary_func" where
  "demo_rpc_recover mk f q w = (case f q w of
     (Panic p, w') \<Rightarrow> (case mk ''/iot.v1.DeviceService/RecordMetric'' p w' of (e, w'') \<Rightarrow> (Err e, w'')) | r \<Rightarrow> r)"

lemma demo_rpc_recovers: "recovers_rpc demo_rpc_recover"
  unfolding recovers_rpc_def demo_rpc_recover_def
  by (auto split: prod.split outcome.split intro!: exI [of _ "''/iot.v1.DeviceService/RecordMetric''"])

lemma connect_error_is_connect: "\<exists>c m ds. connect_error_of ord new_detail err = ErrConnect c m ds"
proof (cases "errors_As is_connect_error err")
  case None
  then show ?thesis
    by (auto simp: connect_error_of_def BadRequestError_ConnectError_def split: option.split go_error.split)
next
  case (Some e)
  then have "is_connect_error e" by (auto simp: errors_As_def find_Some_iff)
  then show ?thesis using Some by (cases e) (auto simp: connect_error_of_def)
qed

lemma connect_chain:
  "chain (run_interceptors ord new_detail Procedure start duration code_text NewLimiter LWait meta_of Any cfg) f q =
   NewConnectErrorInterceptor ord new_detail
     (NewConnectLogInterceptor Procedure start duration code_text (run_logger cfg)
       (if app_DeviceRateLimit cfg = None then f
        else NewConnectRateLimitInterceptor (limit_wait NewLimiter LWait meta_of)
          (\<lambda>q. ConnectRequestDeviceIDGetter (Any q)) (\<lambda>q. mt_remote (meta_of q)) f) q)"
  by (simp add: chain_def run_interceptors_def)

text \<open>Every Connect call gets a reply or a Connect error: whatever the handler does, return, fail with any
  error or panic, with or without a limiter, no panic and no unclassified error leaves the stack.\<close>

lemma connect_always_answers:
  assumes "recovers_rpc WithRecover"
  shows "case fst (connect_stack WithRecover logger (run_interceptors ord new_detail Procedure start duration code_text
      NewLimiter LWait meta_of Any cfg) f q w) of Ok r \<Rightarrow> True | Err e \<Rightarrow> \<exists>c m ds. e = ErrConnect c m ds | Panic p \<Rightarrow> False"
proof -
  let ?c = "chain (run_interceptors ord new_detail Procedure start duration code_text NewLimiter LWait meta_of Any cfg) f"
  obtain r w' where c: "?c q w = (r, w')" by fastforce
  note rec = assms [unfolded recovers_rpc_def, rule_format, of "connect_recover logger" ?c q w, unfolded c]
  show ?thesis
  proof (cases r)
    case (Err e)
    then have "\<exists>err. e = connect_error_of ord new_detail err"
      using c unfolding connect_chain by (auto simp: NewConnectErrorInterceptor_def split: prod.splits outcome.splits)
    then show ?thesis using rec Err connect_error_is_connect
      by (auto simp: connect_stack_def WithConnectRecover_def)
  qed (use rec in \<open>auto simp: connect_stack_def WithConnectRecover_def connect_recover_def\<close>)
qed

text \<open>The entry a call leaves in the log when the limiter refused it.\<close>

definition refused_call_entry :: "(connect_code \<Rightarrow> string) \<Rightarrow> connect_code \<Rightarrow> LogEntry \<Rightarrow> bool" where
  "refused_call_entry code_text code e \<longleftrightarrow> le_Level e = LevelError \<and> le_Msg e = ''unary rpc called'' \<and>
     (''error_code'', LStr (code_text code)) \<in> set (le_Attrs e)"

text \<open>C33. A Connect call its limiter refuses, keyed by the device its message names and by the peer's address
  when it names none, is answered resource exhausted, or canceled when its context was cancelled
  while it waited; the method does not run, the service's store is as it was, whatever the method is, and
  the only trace is one entry of the log, which does carry the error code.\<close>

theorem connect_limited_request:
  assumes "recovers_rpc WithRecover" and "app_DeviceRateLimit cfg \<noteq> None"
    and "Wait NewLimiter LWait (mt_now (meta_of q)) (mt_ctx (meta_of q))
      (case ConnectRequestDeviceIDGetter (Any q) of Some k \<Rightarrow> k | None \<Rightarrow> mt_remote (meta_of q)) (wd_rl w) = (Some err, rl)"
  defines "code \<equiv> if errors_Is err ErrCanceled then CodeCanceled else CodeResourceExhausted"
    and "msg \<equiv> if errors_Is err ErrCanceled then ''canceled'' else ''resource exhausted''"
  shows "\<exists>entry. connect_stack WithRecover logger (run_interceptors ord new_detail Procedure start duration code_text
      NewLimiter LWait meta_of Any cfg) f q w =
    (Err (ErrConnect code msg []), log_to (\<lambda>out. out @ [entry]) (w\<lparr>wd_rl := rl\<rparr>)) \<and> refused_call_entry code_text code entry"
proof -
  let ?c = "chain (run_interceptors ord new_detail Procedure start duration code_text NewLimiter LWait meta_of Any cfg) f"
  let ?r = "NewConnectRateLimitInterceptor (limit_wait NewLimiter LWait meta_of)
      (\<lambda>q. ConnectRequestDeviceIDGetter (Any q)) (\<lambda>q. mt_remote (meta_of q)) f"
  have r: "?r q w = (Err (ErrConnect code msg []), w\<lparr>wd_rl := rl\<rparr>)"
    using connect_limited(2) [where wait = "limit_wait NewLimiter LWait meta_of" and keyGetter = "\<lambda>q. ConnectRequestDeviceIDGetter (Any q)"
        and PeerAddr = "\<lambda>q. mt_remote (meta_of q)" and c = q and w = w and err = err and w' = "w\<lparr>wd_rl := rl\<rparr>" and h = f]
      assms(3) by (simp add: limit_wait_def code_def msg_def)
  let ?entry = "\<lparr>le_Level = LevelError, le_Msg = ''unary rpc called'', le_Attrs = (''protocol'', LStr ''connect'') #
      procedure_attrs (Procedure q) @ [(''start_time'', LStr (start q)), (''error_code'', LStr (code_text code)),
      (''error'', LErr (ErrConnect code msg [])), (''duration'', LStr (duration q))]\<rparr>"
  have log: "logger_Log (run_logger cfg) LevelError m args out = out @ [\<lparr>le_Level = LevelError, le_Msg = m, le_Attrs = args\<rparr>]" for m args out
    by (auto simp: logger_Log_def run_logger_def NewLogger_def WithDevelopment_def LevelError_def LevelInfo_def)
  have "?c q w = (Err (ErrConnect code msg []), log_to (\<lambda>out. out @ [?entry]) (w\<lparr>wd_rl := rl\<rparr>))"
    unfolding connect_chain using assms(2) r
    by (simp add: NewConnectErrorInterceptor_def NewConnectLogInterceptor_def Let_def log connect_error_of_def del: not_None_eq)
  then have "connect_stack WithRecover logger (run_interceptors ord new_detail Procedure start duration code_text
      NewLimiter LWait meta_of Any cfg) f q w = (Err (ErrConnect code msg []), log_to (\<lambda>out. out @ [?entry]) (w\<lparr>wd_rl := rl\<rparr>))"
    using assms(1) [unfolded recovers_rpc_def, rule_format, of "connect_recover logger" ?c q w]
    by (simp add: connect_stack_def WithConnectRecover_def)
  then show ?thesis by (intro exI [of _ ?entry]) (simp add: refused_call_entry_def)
qed

lemma connect_limited_request_witness:
  "\<exists>w'. connect_stack demo_rpc_recover (NewLogger []) (run_interceptors (\<lambda>fv. fv) (\<lambda>_. None) (\<lambda>q. '''') (\<lambda>q. [])
      (\<lambda>q. []) (\<lambda>c. ''(8) resource_exhausted'') (\<lambda>_ b. b) (\<lambda>_ l. if 0 < l then (None, l - 1) else (Some (ErrNew ''late''), l))
      (\<lambda>_. \<lparr>mt_now = 0, mt_ctx = (), mt_remote = ''1.2.3.4''\<rparr>) (\<lambda>q. AnyOther :: unit any_request) demo_limited)
      (\<lambda>q w. (Panic ''boom'', w)) () \<lparr>wd_svc = \<lparr>st_store = (), st_log = []\<rparr>, wd_rl = NewRateLimiter f_zero 0 0 0\<rparr> =
    (Err (ErrConnect CodeResourceExhausted ''resource exhausted'' []) :: (go_error, unit) outcome, w') \<and> length (st_log (wd_svc w')) = 1"
proof -
  let ?L = "\<lambda>_ l. if 0 < l then (None, l - 1) else (Some (ErrNew ''late''), l :: int)"
  let ?meta = "\<lambda>_ :: unit. \<lparr>mt_now = 0, mt_ctx = (), mt_remote = ''1.2.3.4''\<rparr>"
  let ?w = "\<lparr>wd_svc = \<lparr>st_store = (), st_log = []\<rparr>, wd_rl = NewRateLimiter f_zero 0 0 0 :: int RateLimiter\<rparr>"
  have lim: "app_DeviceRateLimit demo_limited \<noteq> None" by (simp add: demo_limited_def)
  obtain rl where "Wait (\<lambda>_ b. b) ?L 0 () ''1.2.3.4'' (NewRateLimiter f_zero 0 0 0) = (Some (ErrNew ''late''), rl)"
    by (simp add: Wait_def getLimiter_def wait_on_def NewRateLimiter_def)
  then have wait: "Wait (\<lambda>_ b. b) ?L (mt_now (?meta ())) (mt_ctx (?meta ()))
      (case ConnectRequestDeviceIDGetter (AnyOther :: unit any_request) of Some k \<Rightarrow> k | None \<Rightarrow> mt_remote (?meta ())) (wd_rl ?w)
      = (Some (ErrNew ''late''), rl)" by (simp add: ConnectRequestDeviceIDGetter_def)
  have "\<not> errors_Is (ErrNew ''late'') ErrCanceled" by code_simp
  with connect_limited_request [where f = "\<lambda>q w. (Panic ''boom'', w)" and ord = "\<lambda>fv. fv" and new_detail = "\<lambda>_. None"
      and Procedure = "\<lambda>q. ''''" and start = "\<lambda>q. []" and duration = "\<lambda>q. []" and code_text = "\<lambda>c. ''(8) resource_exhausted''"
      and logger = "NewLogger []" and Any = "\<lambda>q. AnyOther :: unit any_request"
      and q = "()" and w = ?w and meta_of = ?meta and NewLimiter = "\<lambda>_ b. b" and LWait = ?L, OF demo_rpc_recovers lim wait]
  show ?thesis by auto
qed

end
