(* ===== verification/Rpc.thy ===== *)
theory Rpc
  imports Server
begin

text \<open>
  \<^verbatim>\<open>proto/gen/iot/v1/iotv1connect/service.connect.go\<close>: the names of the service and its
  procedures, the client, the routing of requests to the handler, and the handler that implements
  nothing. \<^verbatim>\<open>connect.NewClient\<close>, \<^verbatim>\<open>CallUnary\<close> and \<^verbatim>\<open>connect.NewUnaryHandler\<close>
  belong to a library and are parameters.
\<close>

section \<open>Names\<close>

definition DeviceServiceName :: string where
  "DeviceServiceName = ''iot.v1.DeviceService''"

definition DeviceServiceRecordMetricProcedure :: string where
  "DeviceServiceRecordMetricProcedure = ''/iot.v1.DeviceService/RecordMetric''"

definition DeviceServiceConfigureDeviceProcedure :: string where
  "DeviceServiceConfigureDeviceProcedure = ''/iot.v1.DeviceService/ConfigureDevice''"

definition DeviceServiceGetDeviceAlertsProcedure :: string where
  "DeviceServiceGetDeviceAlertsProcedure = ''/iot.v1.DeviceService/GetDeviceAlerts''"

lemmas procedure_defs = DeviceServiceRecordMetricProcedure_def DeviceServiceConfigureDeviceProcedure_def
  DeviceServiceGetDeviceAlertsProcedure_def

lemma procedures_distinct [simp]:
  "DeviceServiceRecordMetricProcedure \<noteq> DeviceServiceConfigureDeviceProcedure"
  "DeviceServiceRecordMetricProcedure \<noteq> DeviceServiceGetDeviceAlertsProcedure"
  "DeviceServiceConfigureDeviceProcedure \<noteq> DeviceServiceRecordMetricProcedure"
  "DeviceServiceConfigureDeviceProcedure \<noteq> DeviceServiceGetDeviceAlertsProcedure"
  "DeviceServiceGetDeviceAlertsProcedure \<noteq> DeviceServiceRecordMetricProcedure"
  "DeviceServiceGetDeviceAlertsProcedure \<noteq> DeviceServiceConfigureDeviceProcedure"
  by (simp_all add: procedure_defs)

section \<open>The client\<close>

text \<open>What a procedure's client is made of: its URL, the name of its method in the schema, its options.\<close>

record 'o procedure_client =
  pc_URL :: string
  pc_Method :: string
  pc_Options :: "'o list"

record 'o deviceServiceClient =
  dsc_recordMetric :: "'o procedure_client"
  dsc_configureDevice :: "'o procedure_client"
  dsc_getDeviceAlerts :: "'o procedure_client"

text \<open>\<^verbatim>\<open>strings.TrimRight(s, "/")\<close> drops every slash at the end.\<close>

definition trim_right_slashes :: "string \<Rightarrow> string" where
  "trim_right_slashes s = rev (dropWhile ((=) (CHR ''/'')) (rev s))"

definition NewDeviceServiceClient :: "string \<Rightarrow> 'o list \<Rightarrow> 'o deviceServiceClient" where
  "NewDeviceServiceClient baseURL opts =
     (let baseURL = trim_right_slashes baseURL
      in \<lparr>dsc_recordMetric = \<lparr>pc_URL = baseURL @ DeviceServiceRecordMetricProcedure,
            pc_Method = ''RecordMetric'', pc_Options = opts\<rparr>,
          dsc_configureDevice = \<lparr>pc_URL = baseURL @ DeviceServiceConfigureDeviceProcedure,
            pc_Method = ''ConfigureDevice'', pc_Options = opts\<rparr>,
          dsc_getDeviceAlerts = \<lparr>pc_URL = baseURL @ DeviceServiceGetDeviceAlertsProcedure,
            pc_Method = ''GetDeviceAlerts'', pc_Options = opts\<rparr>\<rparr>)"

definition client_RecordMetric ::
  "('o procedure_client \<Rightarrow> 't RecordMetricRequestPb \<Rightarrow> ('w, go_error, unit) run) \<Rightarrow> 'o deviceServiceClient
   \<Rightarrow> 't RecordMetricRequestPb \<Rightarrow> ('w, go_error, unit) run" where
  "client_RecordMetric CallUnary c req = CallUnary (dsc_recordMetric c) req"

definition client_ConfigureDevice ::
  "('o procedure_client \<Rightarrow> ConfigureDeviceRequestPb \<Rightarrow> ('w, go_error, unit) run) \<Rightarrow> 'o deviceServiceClient
   \<Rightarrow> ConfigureDeviceRequestPb \<Rightarrow> ('w, go_error, unit) run" where
  "client_ConfigureDevice CallUnary c req = CallUnary (dsc_configureDevice c) req"

definition client_GetDeviceAlerts ::
  "('o procedure_client \<Rightarrow> 't GetDeviceAlertsRequestPb \<Rightarrow> ('w, go_error, 't GetDeviceAlertsResponsePb) run)
   \<Rightarrow> 'o deviceServiceClient \<Rightarrow> 't GetDeviceAlertsRequestPb
   \<Rightarrow> ('w, go_error, 't GetDeviceAlertsResponsePb) run" where
  "client_GetDeviceAlerts CallUnary c req = CallUnary (dsc_getDeviceAlerts c) req"

section \<open>The handler\<close>

record ('t, 'w) DeviceServiceHandler =
  dsh_RecordMetric :: "'t RecordMetricRequestPb \<Rightarrow> ('w, go_error, unit) run"
  dsh_ConfigureDevice :: "ConfigureDeviceRequestPb \<Rightarrow> ('w, go_error, unit) run"
  dsh_GetDeviceAlerts :: "'t GetDeviceAlertsRequestPb \<Rightarrow> ('w, go_error, 't GetDeviceAlertsResponsePb) run"

text \<open>
  An HTTP handler answers a request in a world. \<open>unaryR\<close>, \<open>unaryC\<close> and \<open>unaryG\<close> are the
  instances of \<^verbatim>\<open>connect.NewUnaryHandler\<close>, given the procedure, the method of the schema and
  the options; \<open>NotFound\<close> is \<^verbatim>\<open>http.NotFound\<close>.
\<close>

type_synonym ('q, 'r, 'w) http_handler = "'q \<Rightarrow> 'w \<Rightarrow> 'r \<times> 'w"

definition NewDeviceServiceHandler ::
  "('q \<Rightarrow> string) \<Rightarrow> ('q, 'r, 'w) http_handler \<Rightarrow>
   (string \<Rightarrow> ('t RecordMetricRequestPb \<Rightarrow> ('w, go_error, unit) run) \<Rightarrow> string \<Rightarrow> 'o list \<Rightarrow> ('q, 'r, 'w) http_handler) \<Rightarrow>
   (string \<Rightarrow> (ConfigureDeviceRequestPb \<Rightarrow> ('w, go_error, unit) run) \<Rightarrow> string \<Rightarrow> 'o list \<Rightarrow> ('q, 'r, 'w) http_handler) \<Rightarrow>
   (string \<Rightarrow> ('t GetDeviceAlertsRequestPb \<Rightarrow> ('w, go_error, 't GetDeviceAlertsResponsePb) run) \<Rightarrow> string \<Rightarrow> 'o list
     \<Rightarrow> ('q, 'r, 'w) http_handler) \<Rightarrow>
   ('t, 'w) DeviceServiceHandler \<Rightarrow> 'o list \<Rightarrow> string \<times> ('q, 'r, 'w) http_handler" where
  "NewDeviceServiceHandler URLPath NotFound unaryR unaryC unaryG svc opts =
     (let recordMetricHandler = unaryR DeviceServiceRecordMetricProcedure (dsh_RecordMetric svc) ''RecordMetric'' opts;
          configureDeviceHandler = unaryC DeviceServiceConfigureDeviceProcedure (dsh_ConfigureDevice svc) ''ConfigureDevice'' opts;
          getDeviceAlertsHandler = unaryG DeviceServiceGetDeviceAlertsProcedure (dsh_GetDeviceAlerts svc) ''GetDeviceAlerts'' opts
      in (''/iot.v1.DeviceService/'', \<lambda>r.
            if URLPath r = DeviceServiceRecordMetricProcedure then recordMetricHandler r
            else if URLPath r = DeviceServiceConfigureDeviceProcedure then configureDeviceHandler r
            else if URLPath r = DeviceServiceGetDeviceAlertsProcedure then getDeviceAlertsHandler r
            else NotFound r))"

text \<open>\<^verbatim>\<open>UnimplementedDeviceServiceHandler\<close>.\<close>

definition UnimplementedDeviceServiceHandler :: "('t, 'w) DeviceServiceHandler" where
  "UnimplementedDeviceServiceHandler =
     \<lparr>dsh_RecordMetric = (\<lambda>_ w. (Err (ErrConnect CodeUnimplemented ''iot.v1.DeviceService.RecordMetric is not implemented'' []), w)),
      dsh_ConfigureDevice = (\<lambda>_ w. (Err (ErrConnect CodeUnimplemented ''iot.v1.DeviceService.ConfigureDevice is not implemented'' []), w)),
      dsh_GetDeviceAlerts = (\<lambda>_ w. (Err (ErrConnect CodeUnimplemented ''iot.v1.DeviceService.GetDeviceAlerts is not implemented'' []), w))\<rparr>"

text \<open>The handler of the program, \<^verbatim>\<open>device.ConnectHandler\<close>.\<close>

definition NewConnectHandler ::
  "('t \<Rightarrow> go_time) \<Rightarrow> (go_time \<Rightarrow> 't) \<Rightarrow> 's Service \<Rightarrow> ('t, 's svc_state) DeviceServiceHandler" where
  "NewConnectHandler AsTime ts_New svc =
     \<lparr>dsh_RecordMetric = RecordMetric_connect AsTime svc,
      dsh_ConfigureDevice = ConfigureDevice_connect svc,
      dsh_GetDeviceAlerts = GetDeviceAlerts_connect AsTime ts_New svc\<rparr>"

section \<open>Routing\<close>

lemma trim_right_slashes_last: "trim_right_slashes s = [] \<or> last (trim_right_slashes s) \<noteq> CHR ''/''"
proof (cases "dropWhile ((=) (CHR ''/'')) (rev s)")
  case Nil
  then show ?thesis by (simp add: trim_right_slashes_def)
next
  case (Cons c cs)
  then have "c \<noteq> CHR ''/''" using hd_dropWhile [of "(=) (CHR ''/'')" "rev s"] by auto
  with Cons show ?thesis by (simp add: trim_right_slashes_def)
qed

lemma trim_right_slashes_idem [simp]: "trim_right_slashes (s @ [CHR ''/'']) = trim_right_slashes s"
  by (simp add: trim_right_slashes_def)

text \<open>The three procedures, with the client and the method that belong to each.\<close>

datatype rpc = RpcRecordMetric | RpcConfigureDevice | RpcGetDeviceAlerts

definition rpc_procedure :: "rpc \<Rightarrow> string" where
  "rpc_procedure r = (case r of RpcRecordMetric \<Rightarrow> DeviceServiceRecordMetricProcedure
     | RpcConfigureDevice \<Rightarrow> DeviceServiceConfigureDeviceProcedure
     | RpcGetDeviceAlerts \<Rightarrow> DeviceServiceGetDeviceAlertsProcedure)"

definition rpc_client :: "rpc \<Rightarrow> 'o deviceServiceClient \<Rightarrow> 'o procedure_client" where
  "rpc_client r c = (case r of RpcRecordMetric \<Rightarrow> dsc_recordMetric c
     | RpcConfigureDevice \<Rightarrow> dsc_configureDevice c | RpcGetDeviceAlerts \<Rightarrow> dsc_getDeviceAlerts c)"

definition rpc_method ::
  "(string \<Rightarrow> ('t RecordMetricRequestPb \<Rightarrow> ('w, go_error, unit) run) \<Rightarrow> string \<Rightarrow> 'o list \<Rightarrow> ('q, 'r, 'w) http_handler) \<Rightarrow>
   (string \<Rightarrow> (ConfigureDeviceRequestPb \<Rightarrow> ('w, go_error, unit) run) \<Rightarrow> string \<Rightarrow> 'o list \<Rightarrow> ('q, 'r, 'w) http_handler) \<Rightarrow>
   (string \<Rightarrow> ('t GetDeviceAlertsRequestPb \<Rightarrow> ('w, go_error, 't GetDeviceAlertsResponsePb) run) \<Rightarrow> string \<Rightarrow> 'o list
     \<Rightarrow> ('q, 'r, 'w) http_handler) \<Rightarrow>
   ('t, 'w) DeviceServiceHandler \<Rightarrow> 'o list \<Rightarrow> rpc \<Rightarrow> ('q, 'r, 'w) http_handler" where
  "rpc_method unaryR unaryC unaryG svc opts r = (case r of
     RpcRecordMetric \<Rightarrow> unaryR (rpc_procedure r) (dsh_RecordMetric svc) ''RecordMetric'' opts
   | RpcConfigureDevice \<Rightarrow> unaryC (rpc_procedure r) (dsh_ConfigureDevice svc) ''ConfigureDevice'' opts
   | RpcGetDeviceAlerts \<Rightarrow> unaryG (rpc_procedure r) (dsh_GetDeviceAlerts svc) ''GetDeviceAlerts'' opts)"

lemma client_url:
  "pc_URL (rpc_client r (NewDeviceServiceClient base opts)) = trim_right_slashes base @ rpc_procedure r"
  by (simp add: rpc_client_def rpc_procedure_def NewDeviceServiceClient_def Let_def split: rpc.split)

lemma handler_path [simp]:
  "fst (NewDeviceServiceHandler URLPath NotFound unaryR unaryC unaryG svc opts) = ''/iot.v1.DeviceService/''"
  by (simp add: NewDeviceServiceHandler_def Let_def)

lemma procedure_mounted: "\<exists>rest. rpc_procedure r = ''/iot.v1.DeviceService/'' @ rest"
  by (cases r) (simp_all add: rpc_procedure_def procedure_defs)

lemma handler_serves:
  "URLPath q = rpc_procedure r \<Longrightarrow>
   snd (NewDeviceServiceHandler URLPath NotFound unaryR unaryC unaryG svc opts) q = rpc_method unaryR unaryC unaryG svc opts r q"
  by (cases r) (simp_all add: NewDeviceServiceHandler_def rpc_method_def rpc_procedure_def)

lemma handler_not_found:
  "URLPath q \<notin> range rpc_procedure \<Longrightarrow>
   snd (NewDeviceServiceHandler URLPath NotFound unaryR unaryC unaryG svc opts) q = NotFound q"
  by (auto simp: NewDeviceServiceHandler_def rpc_procedure_def image_iff split: rpc.split)
    (metis rpc.simps(7) rpc.simps(8) rpc.simps(9))+

section \<open>Properties\<close>

text \<open>Client and server agree on the routes: whatever slashes end the base address, the request a
  client of the generated package sends for a procedure has a path under the one the server mounts the
  handler at, and is answered by that procedure's method of the service; and no two procedures are
  sent to the same address.\<close>

lemma client_reaches_method:
  assumes "pc_URL (rpc_client r (NewDeviceServiceClient base copts)) = trim_right_slashes base @ URLPath q"
  shows "(\<exists>rest. URLPath q = fst (NewDeviceServiceHandler URLPath NotFound unaryR unaryC unaryG svc opts) @ rest) \<and>
    snd (NewDeviceServiceHandler URLPath NotFound unaryR unaryC unaryG svc opts) q = rpc_method unaryR unaryC unaryG svc opts r q \<and>
    (pc_URL (rpc_client r' (NewDeviceServiceClient base copts)) = pc_URL (rpc_client r (NewDeviceServiceClient base copts)) \<longleftrightarrow> r' = r)"
proof -
  have path: "URLPath q = rpc_procedure r" using assms by (simp add: client_url)
  have "rpc_procedure r' = rpc_procedure r \<longleftrightarrow> r' = r"
    by (cases r; cases r') (simp_all add: rpc_procedure_def)
  then show ?thesis using path procedure_mounted [of r] handler_serves [where URLPath = URLPath, OF path] by (simp add: client_url)
qed

text \<open>The log names procedures as the schema does: an entry for a call of a procedure carries the
  service's name and the name of the method that the client of that procedure is built for.\<close>

lemma log_names_procedure:
  "procedure_attrs (rpc_procedure r) =
     [(''connect.service'', LStr DeviceServiceName),
      (''connect.method'', LStr (pc_Method (rpc_client r (NewDeviceServiceClient base copts))))]"
  by (cases r) (simp_all add: procedure_attrs_def rpc_procedure_def procedure_defs DeviceServiceName_def
      rpc_client_def NewDeviceServiceClient_def Let_def)

end
