(* ===== verification/Connection.thy ===== *)
theory Connection
  imports HttpError
begin

text \<open>
  \<^verbatim>\<open>sqlite/conn.go\<close>: opening the database file and waiting until it answers. The driver, the
  file system and the passing of time are parameters: a ping returns an error or not, and during a
  pause the context may be done.
\<close>

definition connMaxRetries :: nat where "connMaxRetries = 5"

text \<open>\<^verbatim>\<open>strings.TrimSuffix(dir, "/")\<close>.\<close>

definition trim_slash :: "string \<Rightarrow> string" where
  "trim_slash dir = (if dir \<noteq> [] \<and> last dir = CHR ''/'' then butlast dir else dir)"

type_synonym OpenOption = "string \<Rightarrow> string"

definition WithDir :: "string \<Rightarrow> OpenOption" where
  "WithDir dir opts = dir"

text \<open>The file \<open>Open\<close> opens for the directory the options leave.\<close>

definition db_file :: "string \<Rightarrow> string" where
  "db_file dir = (if dir = [] then ''devices.db'' else trim_slash dir @ ''/'' @ ''devices.db'')"

definition db_dsn :: "string \<Rightarrow> string" where
  "db_dsn file = ''file:'' @ file @ ''?_journal_mode=WAL&_busy_timeout=5000''"

section \<open>Waiting for the database\<close>

text \<open>
  \<open>ping i\<close> is the error of the \<open>i\<close>-th ping, and \<open>done_in i\<close> the error of the context if it
  is done during the pause after it. The result carries the number of pings.
\<close>

fun wait_loop :: "(nat \<Rightarrow> go_error option) \<Rightarrow> (nat \<Rightarrow> go_error option) \<Rightarrow> nat \<Rightarrow> nat \<Rightarrow> go_error \<Rightarrow> go_error option \<times> nat" where
  "wait_loop ping done_in i 0 err = (Some (ErrWrapf ''sqlite db unhealthy'' err), i)"
| "wait_loop ping done_in i (Suc n) err =
     (case ping i of
        None \<Rightarrow> (None, Suc i)
      | Some e \<Rightarrow>
          (case done_in i of
             Some d \<Rightarrow> (Some d, Suc i)
           | None \<Rightarrow> wait_loop ping done_in (Suc i) n e))"

definition waitHealthy :: "(nat \<Rightarrow> go_error option) \<Rightarrow> (nat \<Rightarrow> go_error option) \<Rightarrow> go_error option \<times> nat" where
  "waitHealthy ping done_in = wait_loop ping done_in 0 connMaxRetries (ErrNew [])"

section \<open>Opening\<close>

text \<open>
  \<open>mkdir\<close>, \<open>open_db\<close> and \<open>exec\<close> are the calls of the operating system and the driver.
\<close>

definition Open ::
  "(string \<Rightarrow> go_error option) \<Rightarrow> (string \<Rightarrow> go_error + 'd) \<Rightarrow> ('d \<Rightarrow> string \<Rightarrow> go_error option)
   \<Rightarrow> ('d \<Rightarrow> nat \<Rightarrow> go_error option) \<Rightarrow> (nat \<Rightarrow> go_error option) \<Rightarrow> OpenOption list \<Rightarrow> go_error + 'd" where
  "Open mkdir open_db exec ping done_in opts =
     (let dir = fold (\<lambda>opt o'. opt o') opts []
      in case (if dir = [] then None else mkdir dir) of
           Some err \<Rightarrow> Inl (ErrWrapf ''create sqlite directory'' err)
         | None \<Rightarrow>
             (case open_db (db_dsn (db_file dir)) of
                Inl err \<Rightarrow> Inl err
              | Inr db \<Rightarrow>
                  (case exec db ''PRAGMA foreign_keys = on;'' of
                     Some err \<Rightarrow> Inl (ErrWrapf ''enable foreign keys'' err)
                   | None \<Rightarrow>
                       (case exec db ''PRAGMA journal_mode = WAL;'' of
                          Some err \<Rightarrow> Inl (ErrWrapf ''enable WAL mode'' err)
                        | None \<Rightarrow>
                            (case fst (waitHealthy (ping db) done_in) of
                               Some err \<Rightarrow> Inl err
                             | None \<Rightarrow> Inr db)))))"

section \<open>What it guarantees\<close>

lemma wait_loop_pings: "snd (wait_loop ping done_in i n err) \<le> i + n"
  by (induction ping done_in i n err rule: wait_loop.induct) (auto split: option.split)

lemma wait_loop_ok_iff:
  "fst (wait_loop ping done_in i n err) = None \<longleftrightarrow>
   (\<exists>k < n. ping (i + k) = None \<and> (\<forall>j < k. ping (i + j) \<noteq> None \<and> done_in (i + j) = None))"
proof (induction n arbitrary: i err)
  case (Suc n)
  have "(\<exists>k < Suc n. ping (i + k) = None \<and> (\<forall>j < k. ping (i + j) \<noteq> None \<and> done_in (i + j) = None)) \<longleftrightarrow>
      ping i = None \<or> (ping i \<noteq> None \<and> done_in i = None \<and> (\<exists>k < n. ping (Suc i + k) = None \<and>
        (\<forall>j < k. ping (Suc i + j) \<noteq> None \<and> done_in (Suc i + j) = None)))"
    by (simp add: Ex_less_Suc2 All_less_Suc2) blast
  then show ?case using Suc.IH [of "Suc i"] by (simp split: option.split)
qed simp

lemma wait_loop_error:
  "fst (wait_loop ping done_in i n err) = Some e \<Longrightarrow>
   (\<exists>k < n. done_in (i + k) = Some e) \<or>
   (n = 0 \<and> e = ErrWrapf ''sqlite db unhealthy'' err) \<or>
   (0 < n \<and> (\<exists>p. ping (i + n - 1) = Some p \<and> e = ErrWrapf ''sqlite db unhealthy'' p))"
proof (induction n arbitrary: i err)
  case (Suc n)
  obtain p where p: "ping i = Some p" using Suc.prems by (auto split: option.splits)
  show ?case
  proof (cases "done_in i")
    case None
    then have "fst (wait_loop ping done_in (Suc i) n p) = Some e" using Suc.prems p by simp
    from Suc.IH [OF this] show ?thesis using p
      by (cases "n = 0") (auto simp: less_Suc_eq_0_disj)
  next
    case (Some d)
    then have "done_in (i + 0) = Some e" using Suc.prems p by simp
    then show ?thesis by blast
  qed
qed simp

section \<open>Properties\<close>

text \<open>C37. Waiting for the database pings it at most five times. It succeeds exactly when one of the five
  pings is answered and the context was not done before; otherwise it returns the error of the context
  or, when all pings failed, the error of the last one.\<close>

theorem wait_healthy:
  "snd (waitHealthy ping done_in) \<le> 5 \<and>
   (fst (waitHealthy ping done_in) = None \<longleftrightarrow>
      (\<exists>k < 5. ping k = None \<and> (\<forall>j < k. ping j \<noteq> None \<and> done_in j = None))) \<and>
   (\<forall>e. fst (waitHealthy ping done_in) = Some e \<longrightarrow>
      (\<exists>k < 5. done_in k = Some e) \<or> (\<exists>p. ping 4 = Some p \<and> e = ErrWrapf ''sqlite db unhealthy'' p))"
  using wait_loop_pings [of ping done_in 0 5 "ErrNew []"] wait_loop_ok_iff [of ping done_in 0 5 "ErrNew []"]
    wait_loop_error [of ping done_in 0 5 "ErrNew []"]
  by (auto simp: waitHealthy_def connMaxRetries_def)

lemma wait_healthy_witness:
  "fst (waitHealthy (\<lambda>k. if k < 3 then Some ErrDeadlineExceeded else None) (\<lambda>_. None)) = None"
proof -
  let ?ping = "\<lambda>k :: nat. if k < 3 then Some ErrDeadlineExceeded else None"
  have "\<exists>k < 5. ?ping k = None \<and> (\<forall>j < k. ?ping j \<noteq> None \<and> (None :: go_error option) = None)"
    by (rule exI [of _ 3]) simp
  then show ?thesis using wait_healthy [of ?ping "\<lambda>_. None"] by simp
qed

end
