(* ===== verification/Cli.thy ===== *)
theory Cli
  imports HttpError
begin

text \<open>
  What the two programs of the repository hand to \<^verbatim>\<open>urfave/cli\<close>: their flags and commands. The
  library itself, which parses the arguments and calls the action of a command, is a parameter.
\<close>

text \<open>A flag with its name, aliases, default value and usage.\<close>

datatype cli_flag = StringFlag string "string list" string string | IntFlag string "string list" int string

record cli_command =
  cmd_Name :: string
  cmd_Usage :: string

record cli_app =
  cli_Name :: string
  cli_Usage :: string
  cli_Flags :: "cli_flag list"
  cli_Commands :: "cli_command list"
  cli_DefaultCommand :: string

text \<open>
  \<^verbatim>\<open>RunContext\<close> fails, or prints a help text, or calls the action of the command with a context,
  which the accessors read.
\<close>

datatype 'c cli_outcome = CliFailed go_error | CliShown | CliRun 'c

record 'c cli_lib =
  lib_RunContext :: "cli_app \<Rightarrow> string list \<Rightarrow> 'c cli_outcome"
  lib_String :: "'c \<Rightarrow> string \<Rightarrow> string"
  lib_Int :: "'c \<Rightarrow> string \<Rightarrow> int"
  lib_Int64 :: "'c \<Rightarrow> string \<Rightarrow> int"

text \<open>
  The documented behaviour without arguments: the default command runs, and every flag has its value.
\<close>

definition reads_flag :: "'c cli_lib \<Rightarrow> 'c \<Rightarrow> cli_flag \<Rightarrow> bool" where
  "reads_flag lib c fl =
     (case fl of
        StringFlag name aliases v usage \<Rightarrow> lib_String lib c name = v
      | IntFlag name aliases v usage \<Rightarrow> lib_Int lib c name = v \<and> lib_Int64 lib c name = v)"

definition runs_bare :: "'c cli_lib \<Rightarrow> cli_app \<Rightarrow> bool" where
  "runs_bare lib app \<longleftrightarrow> (cli_DefaultCommand app \<in> cmd_Name ` set (cli_Commands app) \<longrightarrow>
     (\<exists>c. lib_RunContext lib app [] = CliRun c \<and> list_all (reads_flag lib c) (cli_Flags app)))"

end
