(* ===== verification/Startup.thy ===== *)
theory Startup
  imports Rpc Connection Cli
begin

text \<open>
  \<^verbatim>\<open>http/server.go\<close>, \<^verbatim>\<open>sqlite/migrate.go\<close> and \<^verbatim>\<open>main.go\<close>: what the server registers
  and reports, the migration of the database, and the start and the end of the program.
  Listening, shutting down, the migration library and the packages for health and reflection are
  parameters.
\<close>

section \<open>The server\<close>

text \<open>
  The patterns of the mux, the routes of Echo, the registered Connect services, and, once it serves,
  the names its health checker and its reflector know.
\<close>

record ServerState =
  srv_addr :: string
  srv_patterns :: "string list"
  srv_routes :: "(string \<times> string) list"
  srv_connectServices :: "string list"
  srv_health :: "string list"
  srv_reflected :: "string list"

definition NewServer :: "string \<Rightarrow> ServerState" where
  "NewServer addr = \<lparr>srv_addr = addr, srv_patterns = [], srv_routes = [], srv_connectServices = [],
     srv_health = [], srv_reflected = []\<rparr>"

text \<open>\<^verbatim>\<open>ServeMux.Handle\<close> panics when the pattern is registered already.\<close>

definition mux_Handle :: "string \<Rightarrow> (ServerState, go_error, unit) run" where
  "mux_Handle pattern s =
     (if pattern \<in> set (srv_patterns s) then (Panic (''http: multiple registrations for '' @ pattern), s)
      else (Ok (), s\<lparr>srv_patterns := srv_patterns s @ [pattern]\<rparr>))"

definition RegisterEcho :: "(string \<times> string \<times> operation) list \<Rightarrow> ServerState \<Rightarrow> ServerState" where
  "RegisterEcho routes s = s\<lparr>srv_routes := srv_routes s @ map (\<lambda>(verb, path, _). (verb, path)) routes\<rparr>"

definition RegisterConnect :: "string \<Rightarrow> (ServerState, go_error, unit) run" where
  "RegisterConnect path = on_ok (mux_Handle path)
     (\<lambda>_ s. (Ok (), s\<lparr>srv_connectServices := srv_connectServices s @ [path]\<rparr>))"

text \<open>\<^verbatim>\<open>strings.Trim(s, "/")\<close>.\<close>

definition trim_slashes :: "string \<Rightarrow> string" where
  "trim_slashes s = trim_right_slashes (dropWhile ((=) (CHR ''/'')) s)"

text \<open>
  What the packages for health and reflection bring: the name of the health service and the three
  paths of their handlers.
\<close>

record grpc_paths =
  HealthV1ServiceName :: string
  health_path :: string
  reflect_path :: string
  reflect_alpha_path :: string

definition Serve :: "grpc_paths \<Rightarrow> (ServerState \<Rightarrow> go_error option) \<Rightarrow> (ServerState, go_error, unit) run" where
  "Serve g ListenAndServe s =
     (let names = map trim_slashes (srv_connectServices s);
          s = s\<lparr>srv_routes := srv_routes s @ [(''GET'', ''/healthz'')], srv_health := names\<rparr>
      in on_ok (mux_Handle (health_path g)) (\<lambda>_ s.
           let s = s\<lparr>srv_reflected := names @ [HealthV1ServiceName g]\<rparr>
           in on_ok (mux_Handle (reflect_path g)) (\<lambda>_.
                on_ok (mux_Handle (reflect_alpha_path g)) (\<lambda>_.
                  on_ok (mux_Handle ''/'') (\<lambda>_ s.
                    (case ListenAndServe s of None \<Rightarrow> (Ok (), s) | Some err \<Rightarrow> (Err err, s))))) s) s)"

text \<open>A context is done, with an error, or has a deadline in nanoseconds from now, or neither.\<close>

record go_ctx =
  ctx_Err :: "go_error option"
  ctx_deadline :: "int option"

definition WithTimeout :: "go_ctx \<Rightarrow> int \<Rightarrow> go_ctx" where
  "WithTimeout ctx d = ctx\<lparr>ctx_deadline := Some (case ctx_deadline ctx of None \<Rightarrow> d | Some t \<Rightarrow> min t d)\<rparr>"

definition Stop :: "(go_ctx \<Rightarrow> go_error option) \<Rightarrow> go_ctx \<Rightarrow> go_error option" where
  "Stop Shutdown ctx = Shutdown (WithTimeout ctx (10 * 1000000000))"

section \<open>Migration\<close>

text \<open>
  \<open>iofs_New\<close>, \<open>WithInstance\<close>, \<open>NewWithInstance\<close>, \<open>Up\<close> and \<open>close_source\<close> are the calls
  of the migration library on the world \<open>'w\<close>; the deferred close runs on every return after the
  source was opened.
\<close>

record ('d, 'sd, 'drv, 'm, 'w) migrate_lib =
  ml_New :: "'w \<Rightarrow> (go_error + 'sd) \<times> 'w"
  ml_Close :: "'sd \<Rightarrow> 'w \<Rightarrow> 'w"
  ml_WithInstance :: "'d \<Rightarrow> 'w \<Rightarrow> (go_error + 'drv) \<times> 'w"
  ml_NewWithInstance :: "'sd \<Rightarrow> 'drv \<Rightarrow> 'w \<Rightarrow> (go_error + 'm) \<times> 'w"
  ml_Up :: "'m \<Rightarrow> 'w \<Rightarrow> go_error option \<times> 'w"
  ml_ErrNoChange :: go_error

definition Migrate :: "('d, 'sd, 'drv, 'm, 'w) migrate_lib \<Rightarrow> 'd \<Rightarrow> 'w \<Rightarrow> go_error option \<times> 'w" where
  "Migrate lib db w =
     (case ml_New lib w of
        (Inl err, w) \<Rightarrow> (Some (ErrWrapf ''open migrations fs'' err), w)
      | (Inr sd, w) \<Rightarrow>
          (case (case ml_WithInstance lib db w of
                   (Inl err, w) \<Rightarrow> (Some (ErrWrapf ''create sqlite driver'' err), w)
                 | (Inr driver, w) \<Rightarrow>
                     (case ml_NewWithInstance lib sd driver w of
                        (Inl err, w) \<Rightarrow> (Some (ErrWrapf ''create migrate instance'' err), w)
                      | (Inr m, w) \<Rightarrow>
                          (case ml_Up lib m w of
                             (Some err, w) \<Rightarrow>
                               (if errors_Is err (ml_ErrNoChange lib) then (None, w)
                                else (Some (ErrWrapf ''migrate up'' err), w))
                           | (None, w) \<Rightarrow> (None, w)))) of
             (res, w) \<Rightarrow> (res, ml_Close lib sd w)))"

section \<open>The program\<close>

text \<open>Everything outside the program that \<^verbatim>\<open>run\<close> calls.\<close>

record ('f, 'd, 'sd, 'drv, 'm, 'w) host =
  h_open_file :: "string \<Rightarrow> go_error + 'f"
  h_decode :: "'f \<Rightarrow> AppConfig \<Rightarrow> go_error + AppConfig"
  h_env :: "AppConfig \<Rightarrow> go_error + AppConfig"
  h_mkdir :: "string \<Rightarrow> go_error option"
  h_open_db :: "string \<Rightarrow> go_error + 'd"
  h_exec :: "'d \<Rightarrow> string \<Rightarrow> go_error option"
  h_ping :: "'d \<Rightarrow> nat \<Rightarrow> go_error option"
  h_done_in :: "nat \<Rightarrow> go_error option"
  h_migrate :: "('d, 'sd, 'drv, 'm, 'w) migrate_lib"
  h_grpc :: grpc_paths
  h_ListenAndServe :: "ServerState \<Rightarrow> go_error option"
  h_Shutdown :: "go_ctx \<Rightarrow> go_error option"

text \<open>
  What ends the wait of \<^verbatim>\<open>run\<close>: the server goroutine returns or the context is done. \<open>st_ctx\<close> is
  the context when \<^verbatim>\<open>Stop\<close> is called. A panic of the goroutine ends the process.
\<close>

record stop_event =
  st_interrupted :: bool
  st_ctx :: go_ctx

datatype run_end = Returned "go_error option" | ProcessExit int | Crashed string

record 'w run_result =
  rr_end :: run_end
  rr_log :: "LogEntry list"
  rr_served :: "(ServerState \<times> bool) option"
  rr_world :: 'w

definition registered :: "AppConfig \<Rightarrow> ServerState" where
  "registered cfg = snd (RegisterConnect ''/iot.v1.DeviceService/''
     (RegisterEcho echo_routes (NewServer (run_host_port cfg))))"

definition run_serve :: "('f, 'd, 'sd, 'drv, 'm, 'w) host \<Rightarrow> stop_event \<Rightarrow> Logger \<Rightarrow> AppConfig \<Rightarrow> LogEntry list \<Rightarrow> 'w \<Rightarrow> 'w run_result" where
  "run_serve h ev logger cfg out w =
     (let limited = app_DeviceRateLimit cfg \<noteq> None;
          out = (if limited then logger_Info logger ''device rate limiter enabled'' [] out else out);
          out = logger_Info logger ''server listening'' [(''port'', LInt (app_Port cfg))] out
      in case Serve (h_grpc h) (h_ListenAndServe h) (registered cfg) of
           (Panic p, s) \<Rightarrow> \<lparr>rr_end = Crashed p, rr_log = out, rr_served = None, rr_world = w\<rparr>
         | (res, s) \<Rightarrow>
             (let err = (if st_interrupted ev then None
                         else case res of Err e \<Rightarrow> Some (ErrWrapf ''start server'' e) | _ \<Rightarrow> None);
                  out = (case Stop (h_Shutdown h) (st_ctx ev) of
                           Some e \<Rightarrow> logger_Error logger ''failed to stop server'' [(''error'', LErr e)] out
                         | None \<Rightarrow> logger_Info logger ''server stopped'' [] out)
              in \<lparr>rr_end = Returned err, rr_log = out, rr_served = Some (s, limited), rr_world = w\<rparr>))"

definition run_main :: "('f, 'd, 'sd, 'drv, 'm, 'w) host \<Rightarrow> stop_event \<Rightarrow> string \<Rightarrow> 'w \<Rightarrow> 'w run_result" where
  "run_main h ev configFile w =
     (case Load (h_open_file h) (h_decode h) (h_env h) configFile of
        LoadFailed err \<Rightarrow> \<lparr>rr_end = Returned (Some err), rr_log = [], rr_served = None, rr_world = w\<rparr>
      | Exited code msgs \<Rightarrow> \<lparr>rr_end = ProcessExit code, rr_log = [], rr_served = None, rr_world = w\<rparr>
      | Loaded cfg \<Rightarrow>
          (let logger = run_logger cfg
           in case Open (h_mkdir h) (h_open_db h) (h_exec h) (h_ping h) (h_done_in h) [WithDir (app_SQLiteDir cfg)] of
                Inl err \<Rightarrow> \<lparr>rr_end = Returned (Some (ErrWrapf ''open sqlite'' err)), rr_log = [], rr_served = None, rr_world = w\<rparr>
              | Inr db \<Rightarrow>
                  (let out = logger_Info logger ''opened sqlite database connection'' [] []
                   in case Migrate (h_migrate h) db w of
                        (Some err, w') \<Rightarrow> \<lparr>rr_end = Returned (Some (ErrWrapf ''migrate sqlite'' err)), rr_log = out,
                          rr_served = None, rr_world = w'\<rparr>
                      | (None, w') \<Rightarrow>
                          run_serve h ev logger cfg (logger_Info logger ''migrated sqlite database'' [] out) w')))"

text \<open>\<^verbatim>\<open>main\<close>: an error of \<^verbatim>\<open>run\<close> is logged and makes the exit status 1.\<close>

definition main_exit :: "'w run_result \<Rightarrow> int \<times> LogEntry list" where
  "main_exit r =
     (case rr_end r of
        Returned None \<Rightarrow> (0, rr_log r)
      | Returned (Some err) \<Rightarrow>
          (1, logger_Error (NewLogger []) ''failed to run service'' [(''error'', LErr err)] (rr_log r))
      | ProcessExit code \<Rightarrow> (code, rr_log r)
      | Crashed p \<Rightarrow> (2, rr_log r))"

text \<open>What \<^verbatim>\<open>main\<close> declares, and how it gets to \<^verbatim>\<open>run\<close>.\<close>

definition service_app :: cli_app where
  "service_app = \<lparr>cli_Name = ''iot-metrics'',
     cli_Usage = ''Collect metrics from simulated IoT devices and trigger alerts when thresholds are breached'',
     cli_Flags = [StringFlag ''config-file'' [''c''] []
       ''path to yaml config file (required if not using environment variables)''],
     cli_Commands = [\<lparr>cmd_Name = ''run'', cmd_Usage = ''[default] runs the service''\<rparr>],
     cli_DefaultCommand = ''run''\<rparr>"

definition service_main ::
  "'c cli_lib \<Rightarrow> ('f, 'd, 'sd, 'drv, 'm, 'w) host \<Rightarrow> stop_event \<Rightarrow> string list \<Rightarrow> 'w \<Rightarrow> int \<times> LogEntry list" where
  "service_main lib h ev args w =
     (case lib_RunContext lib service_app args of
        CliFailed err \<Rightarrow> main_exit \<lparr>rr_end = Returned (Some err), rr_log = [], rr_served = None, rr_world = w\<rparr>
      | CliShown \<Rightarrow> main_exit \<lparr>rr_end = Returned None, rr_log = [], rr_served = None, rr_world = w\<rparr>
      | CliRun c \<Rightarrow> main_exit (run_main h ev (lib_String lib c ''config-file'') w))"

text \<open>Without arguments the service reads its configuration from the environment.\<close>

lemma service_defaults:
  assumes "runs_bare lib service_app"
  shows "service_main lib h ev [] w = main_exit (run_main h ev [] w)"
  using assms by (auto simp: runs_bare_def service_main_def service_app_def reads_flag_def)

section \<open>What the start guarantees\<close>

definition grpc_ok :: "grpc_paths \<Rightarrow> bool" where
  "grpc_ok g \<longleftrightarrow> distinct [''/iot.v1.DeviceService/'', health_path g, reflect_path g, reflect_alpha_path g, ''/'']"

lemma mux_Handle_new: "pattern \<notin> set (srv_patterns s) \<Longrightarrow> mux_Handle pattern s = (Ok (), s\<lparr>srv_patterns := srv_patterns s @ [pattern]\<rparr>)"
  by (simp add: mux_Handle_def)

lemma registered_eq:
  "registered cfg = (NewServer (run_host_port cfg))\<lparr>srv_patterns := [''/iot.v1.DeviceService/''],
     srv_routes := map (\<lambda>(verb, path, _). (verb, path)) echo_routes, srv_connectServices := [''/iot.v1.DeviceService/'']\<rparr>"
  by (simp add: registered_def RegisterConnect_def RegisterEcho_def NewServer_def mux_Handle_new on_ok_def)

lemma trim_service: "trim_slashes ''/iot.v1.DeviceService/'' = DeviceServiceName"
  by (simp add: trim_slashes_def trim_right_slashes_def DeviceServiceName_def)

text \<open>What the server holds when it listens.\<close>

definition serving :: "grpc_paths \<Rightarrow> AppConfig \<Rightarrow> ServerState" where
  "serving g cfg = \<lparr>srv_addr = run_host_port cfg,
     srv_patterns = [''/iot.v1.DeviceService/'', health_path g, reflect_path g, reflect_alpha_path g, ''/''],
     srv_routes = map (\<lambda>(verb, path, _). (verb, path)) echo_routes @ [(''GET'', ''/healthz'')],
     srv_connectServices = [''/iot.v1.DeviceService/''], srv_health = [DeviceServiceName],
     srv_reflected = [DeviceServiceName, HealthV1ServiceName g]\<rparr>"

lemma Serve_registered:
  assumes "grpc_ok g"
  shows "Serve g listen (registered cfg) =
    ((case listen (serving g cfg) of None \<Rightarrow> Ok () | Some err \<Rightarrow> Err err), serving g cfg)"
proof -
  have "health_path g \<notin> {''/iot.v1.DeviceService/''}"
    "reflect_path g \<notin> {''/iot.v1.DeviceService/'', health_path g}"
    "reflect_alpha_path g \<notin> {''/iot.v1.DeviceService/'', health_path g, reflect_path g}"
    "''/'' \<notin> {''/iot.v1.DeviceService/'', health_path g, reflect_path g, reflect_alpha_path g}"
    using assms unfolding grpc_ok_def by auto
  then show ?thesis
    by (simp add: Serve_def Let_def registered_eq NewServer_def mux_Handle_def on_ok_def serving_def trim_service
        split: option.split)
qed

lemma Migrate_ups:
  "Migrate lib db w = (None, w') \<Longrightarrow>
   \<exists>m w3 w4. ml_Up lib m w3 = (None, w4) \<or> (\<exists>e. ml_Up lib m w3 = (Some e, w4) \<and> errors_Is e (ml_ErrNoChange lib))"
  by (auto simp: Migrate_def split: prod.splits sum.splits option.splits if_splits)

lemma Open_pinged:
  assumes "Open mkdir open_db exec ping done_in opts = Inr db"
  shows "\<exists>k < connMaxRetries. ping db k = None"
  using assms wait_loop_ok_iff [of "ping db" done_in 0 connMaxRetries "ErrNew []"]
  by (auto simp: Open_def waitHealthy_def Let_def split: option.splits sum.splits if_splits)

lemma run_serve_ok:
  assumes "grpc_ok (h_grpc h)"
  shows "rr_served (run_serve h ev logger cfg out w) = Some (serving (h_grpc h) cfg, app_DeviceRateLimit cfg \<noteq> None) \<and>
    rr_world (run_serve h ev logger cfg out w) = w \<and>
    (\<exists>err. rr_end (run_serve h ev logger cfg out w) = Returned err \<and> (st_interrupted ev \<longrightarrow> err = None))"
  by (auto simp: run_serve_def Serve_registered [OF assms] Let_def split: option.split outcome.split)

section \<open>Properties\<close>


text \<open>A host on which everything works: the world is the version of the schema.\<close>

definition demo_host :: "(unit, unit, unit, unit, unit, nat) host" where
  "demo_host = \<lparr>h_open_file = \<lambda>_. Inr (), h_decode = \<lambda>_ c. Inr c, h_env = Inr, h_mkdir = \<lambda>_. None,
     h_open_db = \<lambda>_. Inr (), h_exec = \<lambda>_ _. None, h_ping = \<lambda>_ k. if k < 2 then Some ErrDeadlineExceeded else None,
     h_done_in = \<lambda>_. None,
     h_migrate = \<lparr>ml_New = \<lambda>w. (Inr (), w), ml_Close = \<lambda>_ w. w, ml_WithInstance = \<lambda>_ w. (Inr (), w),
       ml_NewWithInstance = \<lambda>_ _ w. (Inr (), w),
       ml_Up = \<lambda>_ w. if w = 1 then (Some (ErrNew ''no change''), w) else (None, 1),
       ml_ErrNoChange = ErrNew ''no change''\<rparr>,
     h_grpc = \<lparr>HealthV1ServiceName = ''grpc.health.v1.Health'', health_path = ''/grpc.health.v1.Health/'',
       reflect_path = ''/grpc.reflection.v1.ServerReflection/'',
       reflect_alpha_path = ''/grpc.reflection.v1alpha.ServerReflection/''\<rparr>,
     h_ListenAndServe = \<lambda>_. Some (ErrNew ''http: Server closed''), h_Shutdown = ctx_Err\<rparr>"

definition demo_interrupt :: stop_event where
  "demo_interrupt = \<lparr>st_interrupted = True, st_ctx = \<lparr>ctx_Err = Some ErrCanceled, ctx_deadline = None\<rparr>\<rparr>"

lemma demo_grpc: "grpc_ok (h_grpc demo_host)"
  by (simp add: grpc_ok_def demo_host_def)

lemma demo_exit: "fst (main_exit (run_main demo_host demo_interrupt [] w)) = 0"
proof -
  have load: "Load (h_open_file demo_host) (h_decode demo_host) (h_env demo_host) [] = Loaded default_config"
    by (simp add: Load_def demo_host_def Validate_def default_config_def ParseLevel_def)
  have "Open (h_mkdir demo_host) (h_open_db demo_host) (h_exec demo_host) (h_ping demo_host) (h_done_in demo_host) opts = Inr ()" for opts
    by (simp add: Open_def demo_host_def waitHealthy_def connMaxRetries_def eval_nat_numeral Let_def)
  moreover have "fst (Migrate (h_migrate demo_host) () w) = None"
    by (simp add: Migrate_def demo_host_def)
  then obtain w' where "Migrate (h_migrate demo_host) () w = (None, w')" by (metis surjective_pairing)
  ultimately show ?thesis
    using load run_serve_ok [OF demo_grpc, of demo_interrupt]
    by (auto simp: run_main_def main_exit_def Let_def demo_interrupt_def split: run_end.splits option.splits)
qed


text \<open>
  With a request under way, a \<^verbatim>\<open>Shutdown\<close> whose context is done returns the error of the context.
\<close>

definition shutdown_under_way :: "(go_ctx \<Rightarrow> go_error option) \<Rightarrow> bool" where
  "shutdown_under_way Shutdown \<longleftrightarrow> (\<forall>ctx. ctx_Err ctx \<noteq> None \<longrightarrow> Shutdown ctx = ctx_Err ctx)"

lemma error_logged: "logger_Error (run_logger cfg) msg args out =
   out @ [\<lparr>le_Level = LevelError, le_Msg = msg, le_Attrs = lg_attrs (run_logger cfg) @ args\<rparr>]"
  by (simp add: logger_Error_def logger_Log_def run_logger_def NewLogger_def WithDevelopment_def LevelError_def LevelInfo_def)

lemma run_serve_interrupted:
  assumes "grpc_ok (h_grpc h)" and "shutdown_under_way (h_Shutdown h)"
    and "st_interrupted ev" and "ctx_Err (st_ctx ev) = Some e"
  shows "rr_end (run_serve h ev (run_logger cfg) cfg out w) = Returned None \<and>
    rr_log (run_serve h ev (run_logger cfg) cfg out w) \<noteq> [] \<and>
    le_Msg (last (rr_log (run_serve h ev (run_logger cfg) cfg out w))) = ''failed to stop server''"
proof -
  have "Stop (h_Shutdown h) (st_ctx ev) = Some e"
    using assms(2,4) by (simp add: Stop_def WithTimeout_def shutdown_under_way_def)
  then show ?thesis
    using assms(3) by (simp add: run_serve_def Serve_registered [OF assms(1)] error_logged Let_def split: option.split)
qed



end
