(* ===== verification/GoFloatRound.thy ===== *)
theory GoFloatRound
  imports GoFloat
begin

text \<open>
  Products and truncation of float64, and the fact about rounding the stress client rests on: a value
  that is at most a small integer stays at most that integer, since the integer is representable.
\<close>

section \<open>Products and truncation\<close>

fun f_mul :: "float64 \<Rightarrow> float64 \<Rightarrow> float64" where
  "f_mul FNaN y = FNaN"
| "f_mul x FNaN = FNaN"
| "f_mul (FInf s) (FInf t) = FInf (s \<noteq> t)"
| "f_mul (FInf s) (FFin t n d) = (if n = 0 then FNaN else FInf (s \<noteq> t))"
| "f_mul (FFin s m e) (FInf t) = (if m = 0 then FNaN else FInf (s \<noteq> t))"
| "f_mul (FFin s m e) (FFin t n d) =
     (if m * n = 0 then FFin (s \<noteq> t) 0 0 else f_round (s \<noteq> t) (m * n) (e + d))"

text \<open>\<^verbatim>\<open>math.Trunc\<close>.\<close>

fun f_trunc :: "float64 \<Rightarrow> float64" where
  "f_trunc (FFin s m e) = (if 0 \<le> e then FFin s m e else FFin s (m div 2 ^ nat (- e)) 0)"
| "f_trunc x = x"

section \<open>Rounding below an integer\<close>

lemma bit_len_lower: "0 < m \<Longrightarrow> 2 ^ (bit_len m - 1) \<le> m"
proof (induction m rule: bit_len.induct)
  case (1 n)
  show ?case
  proof (cases "n div 2 = 0")
    case True
    then have "n = 1" using 1 by simp
    moreover have "bit_len 1 = 1" by code_simp
    ultimately show ?thesis by simp
  next
    case False
    then have "2 ^ (bit_len (n div 2) - 1) \<le> n div 2" and "0 < bit_len (n div 2)"
      using 1 by (auto simp: bit_len.simps [of "n div 2"])
    then have "2 * 2 ^ (bit_len (n div 2) - 1) \<le> n" by simp
    moreover have "(2::nat) * 2 ^ (bit_len (n div 2) - 1) = 2 ^ (bit_len n - 1)"
      using \<open>0 < bit_len (n div 2)\<close> 1(2) by (simp add: bit_len.simps [of n] flip: power_Suc)
    ultimately show ?thesis by simp
  qed
qed

lemma bit_len_upper: "m < 2 ^ k \<Longrightarrow> bit_len m \<le> k"
proof (cases "m = 0")
  case False
  assume "m < 2 ^ k"
  then have "(2::nat) ^ (bit_len m - 1) < 2 ^ k" using bit_len_lower [of m] False by (meson le_less_trans neq0_conv)
  then have "bit_len m - 1 < k" by (rule power_less_imp_less_exp [rotated]) simp
  then show ?thesis by simp
qed (simp add: bit_len.simps)

lemma round_half_even_le:
  assumes "n \<le> N * d" and "0 < d"
  shows "round_half_even n d \<le> N"
proof (cases "n div d < N")
  case True
  then show ?thesis by (simp add: round_half_even_def Let_def)
next
  case False
  have "n div d \<le> N" using div_le_mono [OF assms(1), of d] assms(2) by simp
  then have q: "n div d = N" using False by simp
  then have "n mod d = 0" using assms div_mult_mod_eq [of n d] by (metis add_le_same_cancel1 le_zero_eq mult.commute)
  then show ?thesis using q assms(2) by (simp add: round_half_even_def)
qed

lemma round_half_even_one [simp]: "round_half_even n 1 = n" "round_half_even n (Suc 0) = n"
  by (simp_all add: round_half_even_def)

text \<open>\<open>below_int b x\<close>: a finite value from zero to \<open>b\<close>, with the sign bit off.\<close>

definition below_int :: "nat \<Rightarrow> float64 \<Rightarrow> bool" where
  "below_int b x \<longleftrightarrow> (\<exists>m e. x = FFin False m e \<and> real m * 2 powi e \<le> real b)"

lemma below_int_FFin [simp]: "below_int b (FFin s m e) \<longleftrightarrow> \<not> s \<and> real m * 2 powi e \<le> real b"
  by (auto simp: below_int_def)

lemma below_int_real: "below_int b x \<Longrightarrow> f_finite x \<and> 0 \<le> f_real x \<and> f_real x \<le> real b"
  by (auto simp: below_int_def signed_def)

lemma powi_le_53:
  assumes "2 powi i \<le> real b" and "b < 2 ^ 53"
  shows "i < 53"
proof (rule ccontr)
  assume "\<not> i < 53"
  then have "(2::real) powi 53 \<le> 2 powi i" by (intro power_int_increasing) simp_all
  then have "(2::real) ^ 53 \<le> real b" using assms(1) by (simp add: power_int_def)
  moreover have "real b < 2 ^ 53" using assms(2) by (metis of_nat_less_iff of_nat_numeral of_nat_power)
  ultimately show False by simp
qed

lemma leading_bit:
  assumes "0 < m" and "real m * 2 powi e \<le> real b" and "b < 2 ^ 53"
  shows "int (bit_len m) + e \<le> 53"
proof -
  have "(2::real) powi (int (bit_len m) - 1) \<le> real m"
    using bit_len_lower [OF assms(1)] assms(1)
    by (simp add: power_int_def bit_len.simps [of m] nat_diff_distrib flip: of_nat_le_iff of_nat_power)
  then have "(2::real) powi (int (bit_len m) - 1) * 2 powi e \<le> real m * 2 powi e" by (simp add: mult_right_mono)
  with assms(2) have "(2::real) powi (int (bit_len m) - 1) * 2 powi e \<le> real b" by (rule order_trans [rotated])
  then have "(2::real) powi (int (bit_len m) - 1 + e) \<le> real b" by (simp add: power_int_add)
  from powi_le_53 [OF this assms(3)] show ?thesis by simp
qed

lemma f_round_below:
  assumes pos: "0 < m" and le: "real m * 2 powi e \<le> real b" and b: "b < 2 ^ 53"
  shows "below_int b (f_round False m e)"
proof -
  define d where "d = max (max (int (bit_len m) - 53) (- 1074 - e)) 0"
  define m' where "m' = round_half_even m (2 ^ nat d)"
  have d0: "0 \<le> d" by (simp add: d_def)
  note len = leading_bit [OF assms]
  have "m' * 2 powi (e + d) \<le> real b \<and> int (bit_len m') + (e + d) \<le> 1024"
  proof (cases "d = 0")
    case True
    then show ?thesis using le len by (simp add: m'_def)
  next
    case False
    then have ed: "e + d \<le> 0" using len by (auto simp: d_def max_def split: if_splits)
    define N where "N = b * 2 ^ nat (- (e + d))"
    have NR: "real N * 2 powi (e + d) = real b"
      using ed by (simp add: N_def power_int_def field_simps)
    have "real m \<le> real (N * 2 ^ nat d)"
    proof -
      have "real m * 2 powi e \<le> real N * 2 powi (e + d)" using le NR by simp
      also have "(2::real) powi (e + d) = 2 powi e * 2 ^ nat d"
        using d0 by (simp add: power_int_add) (simp add: power_int_def)
      finally have "real m * 2 powi e \<le> real (N * 2 ^ nat d) * 2 powi e" by (simp add: mult_ac)
      then show ?thesis by simp
    qed
    then have "m \<le> N * 2 ^ nat d" by (simp only: of_nat_le_iff)
    then have mN: "m' \<le> N" unfolding m'_def by (rule round_half_even_le) simp
    then have "real m' * 2 powi (e + d) \<le> real N * 2 powi (e + d)" by (simp add: mult_right_mono)
    moreover have "N < 2 ^ (53 + nat (- (e + d)))" using b by (simp add: N_def power_add)
    then have "bit_len m' \<le> 53 + nat (- (e + d))" using mN by (intro bit_len_upper) simp
    ultimately show ?thesis using NR ed by simp
  qed
  moreover have "f_round False m e = (if 1024 < int (bit_len m') + (e + d) then FInf False else FFin False m' (e + d))"
    by (simp add: f_round_def d_def m'_def Let_def)
  ultimately show ?thesis by simp
qed

section \<open>Operations below an integer\<close>

lemma f_mul_below:
  assumes "below_int a x" and "a * n < 2 ^ 53"
  shows "below_int (a * n) (f_mul x (FFin False n 0))"
proof -
  obtain m e where x: "x = FFin False m e" and m: "real m * 2 powi e \<le> real a"
    using assms(1) by (auto simp: below_int_def)
  have "real (m * n) * 2 powi e = (real m * 2 powi e) * real n" by simp
  also have "\<dots> \<le> real (a * n)" using m by (simp add: mult_right_mono)
  finally show ?thesis
    using f_round_below [of "m * n" e "a * n"] assms(2) by (auto simp: x)
qed

lemma f_add_zero_below:
  assumes "below_int b x" and "b < 2 ^ 53"
  shows "below_int b (f_add f_zero x)"
proof -
  obtain m e where x: "x = FFin False m e" and m: "real m * 2 powi e \<le> real b"
    using assms(1) by (auto simp: below_int_def)
  let ?v = "in_units (min 0 e) False m e"
  have v: "?v = int (nat ?v)" by (simp add: in_units_def signed_def)
  have "real (nat ?v) * 2 powi (min 0 e) = of_int ?v * 2 powi (min 0 e)" using v by (metis of_int_of_nat_eq)
  also have "\<dots> = real m * 2 powi e" using real_in_units [of "min 0 e" e False m] by (simp add: signed_def)
  finally have "real (nat ?v) * 2 powi (min 0 e) \<le> real b" using m by simp
  moreover have "\<not> int m * 2 ^ nat (e - min 0 e) < 0" by (simp add: not_less)
  ultimately show ?thesis
    using f_round_below [of "nat ?v" "min 0 e" b] assms(2)
    by (auto simp: x f_zero_def in_units_def signed_def Let_def)
qed

lemma f_trunc_below:
  assumes "below_int b x"
  shows "below_int b (f_trunc x)"
proof -
  obtain m e where x: "x = FFin False m e" and m: "real m * 2 powi e \<le> real b"
    using assms by (auto simp: below_int_def)
  show ?thesis
  proof (cases "0 \<le> e")
    case True
    then show ?thesis using m by (simp add: x)
  next
    case False
    have "real (m div 2 ^ nat (- e)) \<le> real m / 2 ^ nat (- e)"
      using of_nat_div_le_of_nat [of m "2 ^ nat (- e)"] by simp
    also have "\<dots> = real m * 2 powi e" using False by (simp add: power_int_def field_simps power_one_over)
    finally show ?thesis using m False by (simp add: x)
  qed
qed

lemma f_div_below:
  assumes "below_int (b * n) x" and "b * n < 2 ^ 53" and n: "0 < n"
  shows "below_int b (f_div x (FFin False n 0))"
proof -
  obtain m e where x: "x = FFin False m e" and m: "real m * 2 powi e \<le> real (b * n)"
    using assms(1) by (auto simp: below_int_def)
  show ?thesis
  proof (cases "m = 0")
    case True
    then show ?thesis using n by (simp add: x)
  next
    case False
    define k where "k = 55 + bit_len n - bit_len m"
    define q where "q = m * 2 ^ k div n"
    define r where "r = m * 2 ^ k mod n"
    define s where "s = 2 * q + (if r = 0 then 0 else 1)"
    have ek: "e \<le> int k" using leading_bit [OF _ m assms(2)] False by (simp add: k_def)
    define M where "M = b * 2 ^ nat (int k - e)"
    have p: "(2::real) powi (int k - e) = 2 ^ nat (int k - e)" using ek by (simp add: power_int_def)
    have "(2::real) powi e * 2 powi (int k - e) = 2 powi int k" by (simp flip: power_int_add)
    then have "(2::real) powi e * 2 ^ nat (int k - e) = 2 ^ k" by (simp add: p)
    then have "real (m * 2 ^ k) \<le> real (M * n)"
      using mult_right_mono [OF m, of "2 ^ nat (int k - e)"] by (simp add: M_def mult_ac)
    then have mM: "m * 2 ^ k \<le> M * n" by (simp only: of_nat_le_iff)
    have split: "m * 2 ^ k = q * n + r" by (simp add: q_def r_def)
    have "s \<le> 2 * M"
    proof (cases "r = 0")
      case True
      then show ?thesis using mM split n by (simp add: s_def)
    next
      case False
      then have "q * n < M * n" using mM split by linarith
      then have "q < M" by simp
      then show ?thesis using False by (simp add: s_def)
    qed
    then have "real s * 2 powi (e - int k - 1) \<le> real (2 * M) * 2 powi (e - int k - 1)" by (simp add: mult_right_mono)
    also have "real (2 * M) = real b * 2 powi (int k - e + 1)" by (simp add: M_def p power_int_add)
    also have "real b * 2 powi (int k - e + 1) * 2 powi (e - int k - 1) = real b"
      by (simp add: mult.assoc flip: power_int_add)
    finally have "real s * 2 powi (e - int k - 1) \<le> real b" .
    moreover have "q \<noteq> 0 \<or> r \<noteq> 0" using False split by (cases "q = 0") auto
    then have "0 < s" by (auto simp: s_def)
    moreover have "b < 2 ^ 53" using assms(2) n by (metis le_less_trans le_refl mult_le_cancel1 mult.right_neutral Suc_leI One_nat_def)
    ultimately show ?thesis
      using f_round_below [of s "e - int k - 1" b] False n
      by (simp add: x k_def q_def r_def s_def Let_def)
  qed
qed

end
