(* ===== verification/Sqlc.thy ===== *)
theory Sqlc
  imports HttpError GoFloat
begin

text \<open>
  \<^verbatim>\<open>sqlite/sqlc\<close> with the SQL it runs (\<^verbatim>\<open>sqlite/queries/device.sql\<close>,
  \<^verbatim>\<open>sqlite/migrations/0001_tables.up.sql\<close>). A database is its three tables, the two
  \<^verbatim>\<open>AUTOINCREMENT\<close> counters, and the faults the engine will show to the next statements: the
  connection pool has size one, so statements run one after the other, and a statement that
  fails changes nothing. The locale \<open>timeline\<close> is what the two paginated queries share.
\<close>

section \<open>Rows and parameters\<close>

record AlertRow =
  ar_ID :: int
  ar_DeviceID :: string
  ar_Reason :: string
  ar_Desc :: string
  ar_Timestamp :: int

record ConfigRow =
  cr_DeviceID :: string
  cr_TemperatureThreshold :: float64
  cr_BatteryThreshold :: int

record MetricRow =
  mr_ID :: int
  mr_DeviceID :: string
  mr_Temperature :: float64
  mr_Battery :: int
  mr_Timestamp :: int

record GetDeviceAlertsParams =
  gap_DeviceID :: string
  gap_StartTs :: "int option"
  gap_EndTs :: "int option"
  gap_LastTs :: "int option"
  gap_LastID :: "int option"
  gap_Limit :: int

record GetDeviceConfigRow =
  gcr_TemperatureThreshold :: float64
  gcr_BatteryThreshold :: int

record GetDeviceMetricsParams =
  gmp_DeviceID :: string
  gmp_StartTs :: "int option"
  gmp_EndTs :: "int option"
  gmp_LastTs :: "int option"
  gmp_LastID :: "int option"
  gmp_Limit :: int

record SaveDeviceAlertParams =
  sap_DeviceID :: string
  sap_Reason :: string
  sap_Desc :: string
  sap_Timestamp :: int

record SaveDeviceMetricParams =
  smp_DeviceID :: string
  smp_Temperature :: float64
  smp_Battery :: int
  smp_Timestamp :: int

record UpsertDeviceConfigParams =
  ucp_DeviceID :: string
  ucp_TemperatureThreshold :: float64
  ucp_BatteryThreshold :: int

section \<open>The database\<close>

record database =
  db_configs :: "ConfigRow list"
  db_metrics :: "MetricRow list"
  db_alerts :: "AlertRow list"
  db_metrics_seq :: int
  db_alerts_seq :: int
  db_faults :: "go_error option list"

text \<open>The tables as the migration creates them.\<close>

definition empty_db :: database where
  "empty_db = \<lparr>db_configs = [], db_metrics = [], db_alerts = [],
     db_metrics_seq = 0, db_alerts_seq = 0, db_faults = []\<rparr>"

type_synonym 'a stmt = "database \<Rightarrow> (go_error, 'a) outcome \<times> database"

definition db_call :: "'a stmt \<Rightarrow> 'a stmt" where
  "db_call st db =
     (case db_faults db of
        [] \<Rightarrow> st db
      | None # fs \<Rightarrow> st (db\<lparr>db_faults := fs\<rparr>)
      | Some e # fs \<Rightarrow> (Err e, db\<lparr>db_faults := fs\<rparr>))"

text \<open>SQLite binds a NaN as NULL, which a \<^verbatim>\<open>REAL NOT NULL\<close> column refuses.\<close>

definition err_not_null :: "string \<Rightarrow> go_error" where
  "err_not_null col = ErrNew (''constraint failed: NOT NULL constraint failed: '' @ col)"

text \<open>An \<^verbatim>\<open>AUTOINCREMENT\<close> key never comes back; past the largest int64 inserting fails.\<close>

definition max_rowid :: int where
  "max_rowid = 9223372036854775807"

definition err_full :: go_error where
  "err_full = ErrNew ''database or disk is full''"

section \<open>Newest first\<close>

text \<open>
  \<^verbatim>\<open>ORDER BY timestamp DESC, id DESC\<close>: a row's place is its cursor, and cursors are ordered
  with the newest first, so that what comes after a cursor is what is greater.
\<close>

datatype cursor = Cursor (cur_ts: int) (cur_id: int)

instantiation cursor :: linorder
begin

definition less_cursor :: "cursor \<Rightarrow> cursor \<Rightarrow> bool" where
  "less_cursor a b \<longleftrightarrow> cur_ts b < cur_ts a \<or> (cur_ts a = cur_ts b \<and> cur_id b < cur_id a)"

definition less_eq_cursor :: "cursor \<Rightarrow> cursor \<Rightarrow> bool" where
  "less_eq_cursor a b \<longleftrightarrow> cur_ts b < cur_ts a \<or> (cur_ts a = cur_ts b \<and> cur_id b \<le> cur_id a)"

instance
  by standard (auto simp: less_cursor_def less_eq_cursor_def intro: cursor.expand)

end

lemma Cursor_less [simp]: "Cursor t i < Cursor u j \<longleftrightarrow> u < t \<or> (t = u \<and> j < i)"
  by (simp add: less_cursor_def)

lemma Cursor_le [simp]: "Cursor t i \<le> Cursor u j \<longleftrightarrow> u < t \<or> (t = u \<and> j \<le> i)"
  by (simp add: less_eq_cursor_def)

section \<open>The clauses the two queries share\<close>

text \<open>
  The \<^verbatim>\<open>WHERE\<close> clause after the device, for parameters \<^verbatim>\<open>?2\<close> to \<^verbatim>\<open>?5\<close>; a parameter
  that is NULL makes its disjunction true. A negative \<^verbatim>\<open>LIMIT\<close> is no limit.
\<close>

definition in_window :: "int option \<Rightarrow> int option \<Rightarrow> int \<Rightarrow> bool" where
  "in_window start_ts end_ts ts \<longleftrightarrow>
     (case start_ts of None \<Rightarrow> True | Some s \<Rightarrow> s \<le> ts) \<and>
     (case end_ts of None \<Rightarrow> True | Some e \<Rightarrow> ts \<le> e)"

definition past_cursor :: "int option \<Rightarrow> int option \<Rightarrow> int \<Rightarrow> int \<Rightarrow> bool" where
  "past_cursor last_ts last_id ts i \<longleftrightarrow>
     (case last_ts of
        None \<Rightarrow> True
      | Some lt \<Rightarrow> ts < lt \<or>
          (ts = lt \<and> (case last_id of None \<Rightarrow> True | Some li \<Rightarrow> i < li)))"

definition sql_limit :: "int \<Rightarrow> 'a list \<Rightarrow> 'a list" where
  "sql_limit n xs = (if n < 0 then xs else take (nat n) xs)"

lemma past_cursor_less: "past_cursor (Some lt) (Some li) ts i \<longleftrightarrow> Cursor lt li < Cursor ts i"
  by (auto simp: past_cursor_def)

lemma past_cursor_None [simp]: "past_cursor None li ts i"
  by (simp add: past_cursor_def)

section \<open>The queries\<close>

definition GetDeviceAlerts_q :: "GetDeviceAlertsParams \<Rightarrow> AlertRow list stmt" where
  "GetDeviceAlerts_q arg = db_call (\<lambda>db.
     (Ok (sql_limit (gap_Limit arg)
           (sort_key (\<lambda>r. Cursor (ar_Timestamp r) (ar_ID r))
             (filter (\<lambda>r. ar_DeviceID r = gap_DeviceID arg \<and>
                in_window (gap_StartTs arg) (gap_EndTs arg) (ar_Timestamp r) \<and>
                past_cursor (gap_LastTs arg) (gap_LastID arg) (ar_Timestamp r) (ar_ID r))
               (db_alerts db)))), db))"

definition GetDeviceMetrics_q :: "GetDeviceMetricsParams \<Rightarrow> MetricRow list stmt" where
  "GetDeviceMetrics_q arg = db_call (\<lambda>db.
     (Ok (sql_limit (gmp_Limit arg)
           (sort_key (\<lambda>r. Cursor (mr_Timestamp r) (mr_ID r))
             (filter (\<lambda>r. mr_DeviceID r = gmp_DeviceID arg \<and>
                in_window (gmp_StartTs arg) (gmp_EndTs arg) (mr_Timestamp r) \<and>
                past_cursor (gmp_LastTs arg) (gmp_LastID arg) (mr_Timestamp r) (mr_ID r))
               (db_metrics db)))), db))"

text \<open>\<^verbatim>\<open>QueryRow\<close> followed by \<^verbatim>\<open>Scan\<close>: no row is \<^verbatim>\<open>sql.ErrNoRows\<close>.\<close>

definition GetDeviceConfig_q :: "string \<Rightarrow> GetDeviceConfigRow stmt" where
  "GetDeviceConfig_q deviceID = db_call (\<lambda>db.
     (case List.find (\<lambda>r. cr_DeviceID r = deviceID) (db_configs db) of
        None \<Rightarrow> (Err ErrNoRows, db)
      | Some r \<Rightarrow> (Ok \<lparr>gcr_TemperatureThreshold = cr_TemperatureThreshold r,
                       gcr_BatteryThreshold = cr_BatteryThreshold r\<rparr>, db)))"

definition SaveDeviceAlert_q :: "SaveDeviceAlertParams \<Rightarrow> unit stmt" where
  "SaveDeviceAlert_q arg = db_call (\<lambda>db.
     if max_rowid \<le> db_alerts_seq db then (Err err_full, db)
     else (Ok (), db\<lparr>
        db_alerts_seq := db_alerts_seq db + 1,
        db_alerts := db_alerts db @ [\<lparr>ar_ID = db_alerts_seq db + 1, ar_DeviceID = sap_DeviceID arg,
          ar_Reason = sap_Reason arg, ar_Desc = sap_Desc arg, ar_Timestamp = sap_Timestamp arg\<rparr>]\<rparr>))"

definition SaveDeviceMetric_q :: "SaveDeviceMetricParams \<Rightarrow> unit stmt" where
  "SaveDeviceMetric_q arg = db_call (\<lambda>db.
     if is_nan (smp_Temperature arg) then (Err (err_not_null ''metrics.temperature''), db)
     else if max_rowid \<le> db_metrics_seq db then (Err err_full, db)
     else (Ok (), db\<lparr>
        db_metrics_seq := db_metrics_seq db + 1,
        db_metrics := db_metrics db @ [\<lparr>mr_ID = db_metrics_seq db + 1, mr_DeviceID = smp_DeviceID arg,
          mr_Temperature = smp_Temperature arg, mr_Battery = smp_Battery arg,
          mr_Timestamp = smp_Timestamp arg\<rparr>]\<rparr>))"

text \<open>\<^verbatim>\<open>ON CONFLICT(device_id) DO UPDATE\<close> replaces the row in place.\<close>

fun upsert_row :: "ConfigRow \<Rightarrow> ConfigRow list \<Rightarrow> ConfigRow list" where
  "upsert_row c [] = [c]"
| "upsert_row c (r # rs) = (if cr_DeviceID r = cr_DeviceID c then c # rs else r # upsert_row c rs)"

definition UpsertDeviceConfig_q :: "UpsertDeviceConfigParams \<Rightarrow> unit stmt" where
  "UpsertDeviceConfig_q arg = db_call (\<lambda>db.
     if is_nan (ucp_TemperatureThreshold arg)
     then (Err (err_not_null ''configs.temperature_threshold''), db)
     else (Ok (), db\<lparr>db_configs := upsert_row
        \<lparr>cr_DeviceID = ucp_DeviceID arg, cr_TemperatureThreshold = ucp_TemperatureThreshold arg,
         cr_BatteryThreshold = ucp_BatteryThreshold arg\<rparr> (db_configs db)\<rparr>))"

section \<open>The invariant of the tables\<close>

text \<open>
  Keys increase in the order of the rows and are at most the counter; every number is an int64 and no temperature is NaN.
  Faults are errors of the engine, never one of the two sentinels the program tests for.
\<close>

definition driver_error :: "go_error \<Rightarrow> bool" where
  "driver_error e \<longleftrightarrow> \<not> errors_Is e ErrNoRows \<and> \<not> errors_Is e ErrRepoItemNotFound"

definition ids_ok :: "int list \<Rightarrow> int \<Rightarrow> bool" where
  "ids_ok is sq \<longleftrightarrow> sorted_wrt (<) is \<and> (\<forall>i \<in> set is. 0 < i \<and> i \<le> sq) \<and> 0 \<le> sq \<and> sq \<le> max_rowid"

definition db_inv :: "database \<Rightarrow> bool" where
  "db_inv db \<longleftrightarrow>
     distinct (map cr_DeviceID (db_configs db)) \<and>
     (\<forall>c \<in> set (db_configs db). \<not> is_nan (cr_TemperatureThreshold c) \<and> in_int32 (cr_BatteryThreshold c)) \<and>
     ids_ok (map mr_ID (db_metrics db)) (db_metrics_seq db) \<and>
     (\<forall>m \<in> set (db_metrics db). \<not> is_nan (mr_Temperature m) \<and> in_int32 (mr_Battery m) \<and>
        in_int64 (mr_Timestamp m)) \<and>
     ids_ok (map ar_ID (db_alerts db)) (db_alerts_seq db) \<and>
     (\<forall>a \<in> set (db_alerts db). in_int64 (ar_Timestamp a)) \<and>
     (\<forall>e. Some e \<in> set (db_faults db) \<longrightarrow> driver_error e)"

lemma db_inv_empty [simp]: "db_inv empty_db"
  by (simp add: db_inv_def empty_db_def ids_ok_def max_rowid_def)

lemma ids_ok_snoc:
  "ids_ok is sq \<Longrightarrow> sq < max_rowid \<Longrightarrow> ids_ok (is @ [sq + 1]) (sq + 1)"
  by (force simp: ids_ok_def sorted_wrt_append)

lemma ids_ok_distinct: "ids_ok is sq \<Longrightarrow> distinct is"
  by (simp add: ids_ok_def strict_sorted_iff)

lemma ids_ok_int64: "ids_ok is sq \<Longrightarrow> i \<in> set is \<Longrightarrow> in_int64 i"
  by (force simp: ids_ok_def max_rowid_def in_int64_def)

lemma upsert_row_keys:
  "cr_DeviceID ` set (upsert_row c rs) = insert (cr_DeviceID c) (cr_DeviceID ` set rs)"
  by (induction c rs rule: upsert_row.induct) auto

lemma upsert_row_distinct:
  "distinct (map cr_DeviceID rs) \<Longrightarrow> distinct (map cr_DeviceID (upsert_row c rs))"
proof (induction c rs rule: upsert_row.induct)
  case (2 c r rs)
  then show ?case using upsert_row_keys [of c rs] by auto
qed simp

lemma upsert_row_set: "set (upsert_row c rs) \<subseteq> insert c (set rs)"
  by (induction c rs rule: upsert_row.induct) auto

lemma upsert_row_find:
  "List.find (\<lambda>r. cr_DeviceID r = d) (upsert_row c rs) =
   (if d = cr_DeviceID c then Some c else List.find (\<lambda>r. cr_DeviceID r = d) rs)"
  by (induction c rs rule: upsert_row.induct) auto

text \<open>What a fault does to a call, once and for all.\<close>

lemma db_callE:
  assumes "db_call st db = (r, db')"
  obtains (run) fs where "st (db\<lparr>db_faults := fs\<rparr>) = (r, db')"
      "set fs \<subseteq> set (db_faults db)" "db_faults db = [] \<Longrightarrow> fs = []"
  | (fault) e fs where "r = Err e" "db' = db\<lparr>db_faults := fs\<rparr>"
      "Some e \<in> set (db_faults db)" "set fs \<subseteq> set (db_faults db)"
proof (cases "db_faults db")
  case Nil
  then have eq: "db\<lparr>db_faults := []\<rparr> = db" by simp
  show ?thesis by (rule run [of "[]"]) (use assms in \<open>simp_all add: db_call_def eq Nil\<close>)
next
  case (Cons f fs)
  with assms show ?thesis
    by (cases f) (auto simp: db_call_def intro: run [of fs] fault)
qed

lemma db_call_healthy: "db_faults db = [] \<Longrightarrow> db_call st db = st db"
  by (simp add: db_call_def)

lemma db_inv_faults: "db_inv db \<Longrightarrow> set fs \<subseteq> set (db_faults db) \<Longrightarrow> db_inv (db\<lparr>db_faults := fs\<rparr>)"
  by (auto simp: db_inv_def)

section \<open>Keyset pagination\<close>

text \<open>
  The interface of a paginated table: rows with a device, a timestamp and an id, and a query
  that is the SQL above. The laws are proved once here and hold for alerts and metrics.
\<close>

locale timeline =
  fixes dev :: "'r \<Rightarrow> string"
    and ts :: "'r \<Rightarrow> int"
    and rid :: "'r \<Rightarrow> int"
    and query :: "string \<Rightarrow> int option \<Rightarrow> int option \<Rightarrow> int option \<Rightarrow> int option \<Rightarrow> int \<Rightarrow> 'r list \<Rightarrow> 'r list"
  assumes query_eq: "query d st en lt li lmt rows =
    sql_limit lmt (sort_key (\<lambda>r. Cursor (ts r) (rid r))
      (filter (\<lambda>r. dev r = d \<and> in_window st en (ts r) \<and> past_cursor lt li (ts r) (rid r)) rows))"
begin

definition place :: "'r \<Rightarrow> cursor" where
  "place r = Cursor (ts r) (rid r)"

definition selection :: "string \<Rightarrow> int option \<Rightarrow> int option \<Rightarrow> 'r list \<Rightarrow> 'r list" where
  "selection d st en rows = sort_key place (filter (\<lambda>r. dev r = d \<and> in_window st en (ts r)) rows)"

lemma place_lambda: "(\<lambda>r. Cursor (ts r) (rid r)) = place"
  by (simp add: place_def fun_eq_iff)

lemma selection_set: "set (selection d st en rows) = {r \<in> set rows. dev r = d \<and> in_window st en (ts r)}"
  by (auto simp: selection_def)

lemma selection_strict:
  assumes "distinct (map rid rows)"
  shows "sorted_wrt (<) (map place (selection d st en rows))"
proof (rule sorted_distinct_strict)
  let ?rs = "filter (\<lambda>r. dev r = d \<and> in_window st en (ts r)) rows"
  have "distinct (map rid ?rs)" using assms by (rule distinct_map_filter)
  then have "distinct ?rs" and inj: "inj_on rid (set ?rs)" by (simp_all add: distinct_map)
  then have "inj_on place (set ?rs)" by (auto simp: inj_on_def place_def)
  then show "distinct (map place (selection d st en rows))"
    using \<open>distinct ?rs\<close> by (simp add: selection_def distinct_map)
qed (simp add: selection_def)

lemma query_start:
  "query d st en None li lmt rows = sql_limit lmt (selection d st en rows)"
  by (simp add: query_eq selection_def place_lambda)

text \<open>Where rows are stored in the order of their ids, the selection is the reverse of the stored order,
  stably sorted by time alone.\<close>

lemma sort_place:
  "sorted_wrt (\<lambda>r r'. rid r' < rid r) rows \<Longrightarrow> sort_key place rows = sort_key (\<lambda>r. - ts r) rows"
proof (induction rows)
  case (Cons r rows)
  then have "insort_key place r (sort_key place rows) = insort_key (\<lambda>r. - ts r) r (sort_key place rows)"
    by (intro insort_key_cong_le) (auto simp: place_def less_imp_le)
  then show ?case using Cons by simp
qed simp

lemma selection_newest:
  assumes "sorted_wrt (<) (map rid rows)"
  shows "selection d st en rows =
    sort_key (\<lambda>r. - ts r) (rev (filter (\<lambda>r. dev r = d \<and> in_window st en (ts r)) rows))"
proof -
  let ?rs = "filter (\<lambda>r. dev r = d \<and> in_window st en (ts r)) rows"
  have sorted: "sorted_wrt (\<lambda>r r'. rid r < rid r') ?rs"
    using assms by (simp add: sorted_wrt_map sorted_wrt_filter)
  have "inj_on rid (set rows)"
    using assms by (simp add: strict_sorted_iff distinct_map)
  then have "inj_on place (set ?rs)" by (auto simp: inj_on_def place_def)
  then have "selection d st en rows = sort_key place (rev ?rs)"
    unfolding selection_def by (rule sort_key_rev)
  then show ?thesis using sort_place [of "rev ?rs"] sorted by (simp add: sorted_wrt_rev)
qed

text \<open>After a cursor the query returns what lies beyond it, in the same order.\<close>

lemma query_after:
  assumes "distinct (map rid rows)"
  shows "query d st en (Some lt) (Some li) lmt rows =
    sql_limit lmt (filter (\<lambda>r. Cursor lt li < place r) (selection d st en rows))"
proof -
  have "filter (\<lambda>r. dev r = d \<and> in_window st en (ts r) \<and> past_cursor (Some lt) (Some li) (ts r) (rid r)) rows
      = filter (\<lambda>r. Cursor lt li < place r) (filter (\<lambda>r. dev r = d \<and> in_window st en (ts r)) rows)"
    by (simp add: past_cursor_less place_def conj_commute)
  then show ?thesis by (simp add: query_eq selection_def place_lambda filter_sort)
qed

text \<open>What is left of a selection after a cursor.\<close>

definition after_cursor :: "(int \<times> int) option \<Rightarrow> string \<Rightarrow> int option \<Rightarrow> int option \<Rightarrow> 'r list \<Rightarrow> 'r list" where
  "after_cursor c d st en rows =
     (case c of
        None \<Rightarrow> selection d st en rows
      | Some (lt, li) \<Rightarrow> filter (\<lambda>r. Cursor lt li < place r) (selection d st en rows))"

lemma after_cursor_subset: "set (after_cursor c d st en rows) \<subseteq> set (selection d st en rows)"
  by (auto simp: after_cursor_def split: option.splits)

lemma after_cursor_strict:
  "distinct (map rid rows) \<Longrightarrow> sorted_wrt (<) (map place (after_cursor c d st en rows))"
  by (auto simp: after_cursor_def selection_strict strict_sorted_map_filter split: option.splits)

lemma query_after_cursor:
  assumes "distinct (map rid rows)"
  shows "query d st en (map_option fst c) (map_option snd c) lmt rows = sql_limit lmt (after_cursor c d st en rows)"
  using assms
  by (cases c) (auto simp: after_cursor_def query_start query_after)

lemma beyond_row:
  assumes "r \<in> set (after_cursor c d st en rows)"
  shows "filter (\<lambda>x. place r < place x) (selection d st en rows) =
    filter (\<lambda>x. place r < place x) (after_cursor c d st en rows)"
  using assms by (auto simp: after_cursor_def intro: filter_cong order.strict_trans split: option.splits)

text \<open>
  The page after the last row of the first \<open>n\<close> rows starts at row \<open>n\<close>: following the cursors
  walks through the selection without a gap or a repetition.
\<close>

lemma after_row:
  assumes dist: "distinct (map rid rows)" and n: "0 < n" "n \<le> length (after_cursor c d st en rows)"
    and r: "r = last (take n (after_cursor c d st en rows))"
  shows "after_cursor (Some (ts r, rid r)) d st en rows = drop n (after_cursor c d st en rows)"
proof -
  let ?L = "after_cursor c d st en rows"
  have "take n ?L \<noteq> []" using n by auto
  then have "r \<in> set ?L" unfolding r by (meson in_set_takeD last_in_set)
  then have "filter (\<lambda>x. place r < place x) (selection d st en rows) = filter (\<lambda>x. place r < place x) ?L"
    by (rule beyond_row)
  also have "\<dots> = drop n ?L"
    unfolding r using after_cursor_strict [OF dist] n by (rule filter_beyond_take)
  finally show ?thesis by (simp add: after_cursor_def flip: place_def)
qed

text \<open>Rows inserted before the cursor, newer than the page already seen, change no later page.\<close>

lemma query_stable:
  assumes "distinct (map rid (rows @ new))" and "\<forall>r \<in> set new. place r \<le> Cursor lt li"
  shows "query d st en (Some lt) (Some li) lmt (rows @ new) = query d st en (Some lt) (Some li) lmt rows"
proof -
  have "filter (\<lambda>r. dev r = d \<and> in_window st en (ts r) \<and> past_cursor (Some lt) (Some li) (ts r) (rid r)) new = []"
    using assms(2) by (auto simp: filter_empty_conv past_cursor_less place_def)
  then show ?thesis by (simp add: query_eq)
qed

end

text \<open>The two queries of the program as instances.\<close>

definition alerts_query ::
  "string \<Rightarrow> int option \<Rightarrow> int option \<Rightarrow> int option \<Rightarrow> int option \<Rightarrow> int \<Rightarrow> AlertRow list \<Rightarrow> AlertRow list" where
  "alerts_query d st en lt li lmt rows =
     (case fst (GetDeviceAlerts_q \<lparr>gap_DeviceID = d, gap_StartTs = st, gap_EndTs = en, gap_LastTs = lt,
         gap_LastID = li, gap_Limit = lmt\<rparr> (empty_db\<lparr>db_alerts := rows\<rparr>)) of
        Ok rs \<Rightarrow> rs | _ \<Rightarrow> [])"

definition metrics_query ::
  "string \<Rightarrow> int option \<Rightarrow> int option \<Rightarrow> int option \<Rightarrow> int option \<Rightarrow> int \<Rightarrow> MetricRow list \<Rightarrow> MetricRow list" where
  "metrics_query d st en lt li lmt rows =
     (case fst (GetDeviceMetrics_q \<lparr>gmp_DeviceID = d, gmp_StartTs = st, gmp_EndTs = en, gmp_LastTs = lt,
         gmp_LastID = li, gmp_Limit = lmt\<rparr> (empty_db\<lparr>db_metrics := rows\<rparr>)) of
        Ok rs \<Rightarrow> rs | _ \<Rightarrow> [])"

interpretation alerts_tl: timeline ar_DeviceID ar_Timestamp ar_ID alerts_query
  by unfold_locales (simp add: alerts_query_def GetDeviceAlerts_q_def db_call_def empty_db_def)

interpretation metrics_tl: timeline mr_DeviceID mr_Timestamp mr_ID metrics_query
  by unfold_locales (simp add: metrics_query_def GetDeviceMetrics_q_def db_call_def empty_db_def)

lemma GetDeviceAlerts_q_eq:
  "GetDeviceAlerts_q arg = db_call (\<lambda>db.
     (Ok (alerts_query (gap_DeviceID arg) (gap_StartTs arg) (gap_EndTs arg) (gap_LastTs arg)
        (gap_LastID arg) (gap_Limit arg) (db_alerts db)), db))"
  by (simp add: GetDeviceAlerts_q_def alerts_tl.query_eq)

lemma GetDeviceMetrics_q_eq:
  "GetDeviceMetrics_q arg = db_call (\<lambda>db.
     (Ok (metrics_query (gmp_DeviceID arg) (gmp_StartTs arg) (gmp_EndTs arg) (gmp_LastTs arg)
        (gmp_LastID arg) (gmp_Limit arg) (db_metrics db)), db))"
  by (simp add: GetDeviceMetrics_q_def metrics_tl.query_eq)

end
