(* ===== verification/Repository.thy ===== *)
theory Repository
  imports Service Sqlc
begin

text \<open>
  \<^verbatim>\<open>sqlite/repository.go\<close>: the repository over the queries. A paginated read asks for
  one row more than the page, drops that peeked row and makes the last kept row the cursor of the
  next page. The interpretation \<open>store\<close> shows that this is a repository in the sense of
  the contract of \<open>Device\<close>.
\<close>

section \<open>Rows and domain values\<close>

definition metric_of_row :: "MetricRow \<Rightarrow> Metric" where
  "metric_of_row row = \<lparr>met_Temperature = mr_Temperature row, met_Battery = to_int32 (mr_Battery row),
     met_Time = unix_utc (mr_Timestamp row)\<rparr>"

definition alert_of_row :: "AlertRow \<Rightarrow> Alert" where
  "alert_of_row row = \<lparr>al_Reason = ar_Reason row, al_Desc = ar_Desc row,
     al_Time = unix_utc (ar_Timestamp row)\<rparr>"

definition config_of_row :: "GetDeviceConfigRow \<Rightarrow> Config" where
  "config_of_row cfg = \<lparr>cfg_TemperatureThreshold = gcr_TemperatureThreshold cfg,
     cfg_BatteryThreshold = to_int32 (gcr_BatteryThreshold cfg)\<rparr>"

section \<open>The peeked page\<close>

definition nil_deref :: string where
  "nil_deref = ''runtime error: invalid memory address or nil pointer dereference''"

text \<open>\<^verbatim>\<open>params.LastID\<close> and \<^verbatim>\<open>params.LastTs\<close>; a token without a time is a nil dereference.\<close>

definition cursor_params :: "RepositoryPageToken option \<Rightarrow> (int option \<times> int option) option" where
  "cursor_params tk =
     (case tk of
        None \<Rightarrow> Some (None, None)
      | Some t \<Rightarrow> (case LastTime t of None \<Rightarrow> None | Some lt \<Rightarrow> Some (Some (t_Unix lt), LastID t)))"

definition page_limit :: "RepositoryPageOptions \<Rightarrow> int" where
  "page_limit po = to_int64 (po_Size po + 1)"

definition peek_rows :: "('r \<Rightarrow> int) \<Rightarrow> ('r \<Rightarrow> int) \<Rightarrow> int \<Rightarrow> 'r list
    \<Rightarrow> (go_error, 'r list \<times> RepositoryPageToken option) outcome" where
  "peek_rows id_of ts_of lmt rows =
     (if int (length rows) = lmt then
        if rows = [] then Panic ''runtime error: slice bounds out of range [:-1]''
        else if butlast rows = [] then Panic ''runtime error: index out of range [-1]''
        else Ok (butlast rows, Some \<lparr>LastTime = Some (unix_utc (ts_of (last (butlast rows)))),
                                    LastID = Some (id_of (last (butlast rows)))\<rparr>)
      else Ok (rows, None))"

section \<open>The operations\<close>

definition UpsertDeviceConfig_repo :: "string \<Rightarrow> Config \<Rightarrow> database \<Rightarrow> (go_error, unit) outcome \<times> database" where
  "UpsertDeviceConfig_repo deviceID config = UpsertDeviceConfig_q
     \<lparr>ucp_DeviceID = deviceID, ucp_TemperatureThreshold = cfg_TemperatureThreshold config,
      ucp_BatteryThreshold = cfg_BatteryThreshold config\<rparr>"

definition SaveDeviceMetric_repo :: "string \<Rightarrow> Metric \<Rightarrow> database \<Rightarrow> (go_error, unit) outcome \<times> database" where
  "SaveDeviceMetric_repo deviceID metric = SaveDeviceMetric_q
     \<lparr>smp_DeviceID = deviceID, smp_Temperature = met_Temperature metric,
      smp_Battery = met_Battery metric, smp_Timestamp = t_Unix (met_Time metric)\<rparr>"

definition GetDeviceMetrics_repo :: "string \<Rightarrow> Timeframe \<Rightarrow> RepositoryPageOptions \<Rightarrow> database
    \<Rightarrow> (go_error, Metric RepositoryPage) outcome \<times> database" where
  "GetDeviceMetrics_repo deviceID timeframe pageOpts db =
     (case cursor_params (po_Token pageOpts) of
        None \<Rightarrow> (Panic nil_deref, db)
      | Some (lastTs, lastID) \<Rightarrow>
          (case GetDeviceMetrics_q
              \<lparr>gmp_DeviceID = deviceID, gmp_StartTs = map_option t_Unix (tf_Start timeframe),
               gmp_EndTs = map_option t_Unix (tf_End timeframe), gmp_LastTs = lastTs,
               gmp_LastID = lastID, gmp_Limit = page_limit pageOpts\<rparr> db of
             (Err e, db') \<Rightarrow> (Err e, db')
           | (Panic p, db') \<Rightarrow> (Panic p, db')
           | (Ok rows, db') \<Rightarrow>
               (case peek_rows mr_ID mr_Timestamp (page_limit pageOpts) rows of
                  Err e \<Rightarrow> (Err e, db')
                | Panic p \<Rightarrow> (Panic p, db')
                | Ok (rows', nextPageTkn) \<Rightarrow>
                    (Ok \<lparr>pg_Items = map metric_of_row rows', pg_NextPageToken = nextPageTkn\<rparr>, db'))))"

definition GetDeviceConfig_repo :: "string \<Rightarrow> database \<Rightarrow> (go_error \<times> Config, Config) outcome \<times> database" where
  "GetDeviceConfig_repo deviceID db =
     (case GetDeviceConfig_q deviceID db of
        (Err e, db') \<Rightarrow>
          (if errors_Is e ErrNoRows then (Err (ErrRepoItemNotFound, zero_config), db')
           else (Err (e, zero_config), db'))
      | (Panic p, db') \<Rightarrow> (Panic p, db')
      | (Ok cfg, db') \<Rightarrow> (Ok (config_of_row cfg), db'))"

definition SaveDeviceAlert_repo :: "string \<Rightarrow> Alert \<Rightarrow> database \<Rightarrow> (go_error, unit) outcome \<times> database" where
  "SaveDeviceAlert_repo deviceID alert = SaveDeviceAlert_q
     \<lparr>sap_DeviceID = deviceID, sap_Reason = al_Reason alert, sap_Desc = al_Desc alert,
      sap_Timestamp = t_Unix (al_Time alert)\<rparr>"

definition GetDeviceAlerts_repo :: "string \<Rightarrow> Timeframe \<Rightarrow> RepositoryPageOptions \<Rightarrow> database
    \<Rightarrow> (go_error, Alert RepositoryPage) outcome \<times> database" where
  "GetDeviceAlerts_repo deviceID timeframe pageOpts db =
     (case cursor_params (po_Token pageOpts) of
        None \<Rightarrow> (Panic nil_deref, db)
      | Some (lastTs, lastID) \<Rightarrow>
          (case GetDeviceAlerts_q
              \<lparr>gap_DeviceID = deviceID, gap_StartTs = map_option t_Unix (tf_Start timeframe),
               gap_EndTs = map_option t_Unix (tf_End timeframe), gap_LastTs = lastTs,
               gap_LastID = lastID, gap_Limit = page_limit pageOpts\<rparr> db of
             (Err e, db') \<Rightarrow> (Err e, db')
           | (Panic p, db') \<Rightarrow> (Panic p, db')
           | (Ok rows, db') \<Rightarrow>
               (case peek_rows ar_ID ar_Timestamp (page_limit pageOpts) rows of
                  Err e \<Rightarrow> (Err e, db')
                | Panic p \<Rightarrow> (Panic p, db')
                | Ok (rows', nextPageTkn) \<Rightarrow>
                    (Ok \<lparr>pg_Items = map alert_of_row rows', pg_NextPageToken = nextPageTkn\<rparr>, db'))))"

definition NewDeviceRepository :: "database Repository" where
  "NewDeviceRepository = \<lparr>repo_UpsertDeviceConfig = UpsertDeviceConfig_repo,
     repo_SaveDeviceMetric = SaveDeviceMetric_repo, repo_GetDeviceMetrics = GetDeviceMetrics_repo,
     repo_GetDeviceConfig = GetDeviceConfig_repo, repo_SaveDeviceAlert = SaveDeviceAlert_repo,
     repo_GetDeviceAlerts = GetDeviceAlerts_repo\<rparr>"

lemmas repository_ops = NewDeviceRepository_def UpsertDeviceConfig_repo_def SaveDeviceMetric_repo_def
  GetDeviceConfig_repo_def SaveDeviceAlert_repo_def

section \<open>What the store holds\<close>

text \<open>The contents of the tables as the domain sees them.\<close>

definition configs_of :: "database \<Rightarrow> string \<Rightarrow> Config option" where
  "configs_of db d = map_option
     (\<lambda>r. \<lparr>cfg_TemperatureThreshold = cr_TemperatureThreshold r,
            cfg_BatteryThreshold = to_int32 (cr_BatteryThreshold r)\<rparr>)
     (List.find (\<lambda>r. cr_DeviceID r = d) (db_configs db))"

definition metrics_of :: "database \<Rightarrow> string \<Rightarrow> Metric list" where
  "metrics_of db d = map metric_of_row (filter (\<lambda>r. mr_DeviceID r = d) (db_metrics db))"

definition alerts_of :: "database \<Rightarrow> string \<Rightarrow> Alert list" where
  "alerts_of db d = map alert_of_row (filter (\<lambda>r. ar_DeviceID r = d) (db_alerts db))"

definition healthy :: "nat \<Rightarrow> database \<Rightarrow> bool" where
  "healthy k db \<longleftrightarrow> db_faults db = [] \<and>
     db_metrics_seq db + int k \<le> max_rowid \<and> db_alerts_seq db + int k \<le> max_rowid"

definition db_view :: "database \<Rightarrow> contents" where
  "db_view db = \<lparr>ct_configs = configs_of db, ct_metrics = metrics_of db, ct_alerts = alerts_of db\<rparr>"

lemma db_view_simps [simp]:
  "ct_configs (db_view db) = configs_of db" "ct_metrics (db_view db) = metrics_of db"
  "ct_alerts (db_view db) = alerts_of db"
  by (simp_all add: db_view_def)

lemma contents_faults [simp]:
  "configs_of (db\<lparr>db_faults := fs\<rparr>) = configs_of db"
  "metrics_of (db\<lparr>db_faults := fs\<rparr>) = metrics_of db"
  "alerts_of (db\<lparr>db_faults := fs\<rparr>) = alerts_of db"
  "db_view (db\<lparr>db_faults := fs\<rparr>) = db_view db"
  by (simp_all add: db_view_def fun_eq_iff configs_of_def metrics_of_def alerts_of_def)

section \<open>The operations keep the contract\<close>

lemma upsert_keeps:
  assumes inv: "db_inv db" and b: "in_int32 (cfg_BatteryThreshold c)"
    and call: "UpsertDeviceConfig_repo d c db = (r, db')"
  shows "db_inv db' \<and> (r = Ok () \<and> db_view db' = set_config d c (db_view db) \<or>
     (\<exists>e. r = Err e) \<and> db_view db' = db_view db)"
  using call unfolding UpsertDeviceConfig_repo_def UpsertDeviceConfig_q_def
proof (cases rule: db_callE)
  case (run fs)
  let ?db = "db\<lparr>db_faults := fs\<rparr>"
  let ?row = "\<lparr>cr_DeviceID = d, cr_TemperatureThreshold = cfg_TemperatureThreshold c,
         cr_BatteryThreshold = cfg_BatteryThreshold c\<rparr>"
  have inv': "db_inv ?db" using inv run(2) by (rule db_inv_faults)
  show ?thesis
  proof (cases "is_nan (cfg_TemperatureThreshold c)")
    case True
    then show ?thesis using run(1) inv' by auto
  next
    case False
    then have r: "r = Ok ()" and db': "db' = ?db\<lparr>db_configs := upsert_row ?row (db_configs db)\<rparr>"
      using run(1) by auto
    have "db_inv db'"
      using inv' False b upsert_row_set [of ?row "db_configs db"]
        upsert_row_distinct [of "db_configs db" ?row]
      unfolding db' db_inv_def by fastforce
    moreover have "configs_of db' = (configs_of db)(d \<mapsto> c)"
      using b by (simp add: fun_eq_iff configs_of_def db' upsert_row_find)
    moreover have "metrics_of db' = metrics_of db" "alerts_of db' = alerts_of db"
      by (simp_all add: db' metrics_of_def alerts_of_def fun_eq_iff)
    ultimately show ?thesis using r by (simp add: db_view_def set_config_def add_alerts_def)
  qed
next
  case (fault e fs)
  then show ?thesis using inv by (simp add: db_inv_faults)
qed

lemma metric_keeps:
  assumes inv: "db_inv db" and b: "in_int32 (met_Battery m)"
    and call: "SaveDeviceMetric_repo d m db = (r, db')"
  shows "db_inv db' \<and>
    (r = Ok () \<and> \<not> is_nan (met_Temperature m) \<and> db_view db' = add_metric d (kept_metric m) (db_view db) \<or>
     (\<exists>e. r = Err e) \<and> db_view db' = db_view db)"
  using call unfolding SaveDeviceMetric_repo_def SaveDeviceMetric_q_def
proof (cases rule: db_callE)
  case (run fs)
  let ?db = "db\<lparr>db_faults := fs\<rparr>"
  have inv': "db_inv ?db" using inv run(2) by (rule db_inv_faults)
  show ?thesis
  proof (cases "is_nan (met_Temperature m) \<or> max_rowid \<le> db_metrics_seq db")
    case True
    then show ?thesis using run(1) inv' by (auto split: if_splits)
  next
    case False
    then have r: "r = Ok ()" and db': "db' = ?db\<lparr>db_metrics_seq := db_metrics_seq db + 1,
        db_metrics := db_metrics db @ [\<lparr>mr_ID = db_metrics_seq db + 1, mr_DeviceID = d,
          mr_Temperature = met_Temperature m, mr_Battery = met_Battery m,
          mr_Timestamp = t_Unix (met_Time m)\<rparr>]\<rparr>"
      using run(1) by auto
    have "db_inv db'"
      using inv' False b ids_ok_snoc [of "map mr_ID (db_metrics db)" "db_metrics_seq db"]
      unfolding db' db_inv_def by auto
    moreover have "metrics_of db' = (metrics_of db)(d := metrics_of db d @ [kept_metric m])"
      using b by (simp add: fun_eq_iff metrics_of_def db' metric_of_row_def kept_metric_def kept_time_def)
    moreover have "configs_of db' = configs_of db" "alerts_of db' = alerts_of db"
      by (simp_all add: db' configs_of_def alerts_of_def fun_eq_iff)
    ultimately show ?thesis using r False by (simp add: db_view_def add_metric_def)
  qed
next
  case (fault e fs)
  then show ?thesis using inv by (simp add: db_inv_faults)
qed

lemma alert_keeps:
  assumes inv: "db_inv db" and call: "SaveDeviceAlert_repo d a db = (r, db')"
  shows "db_inv db' \<and>
    (r = Ok () \<and> db_view db' = add_alerts d [kept_alert a] (db_view db) \<or>
     (\<exists>e. r = Err e) \<and> db_view db' = db_view db)"
  using call unfolding SaveDeviceAlert_repo_def SaveDeviceAlert_q_def
proof (cases rule: db_callE)
  case (run fs)
  let ?db = "db\<lparr>db_faults := fs\<rparr>"
  have inv': "db_inv ?db" using inv run(2) by (rule db_inv_faults)
  show ?thesis
  proof (cases "max_rowid \<le> db_alerts_seq db")
    case True
    then show ?thesis using run(1) inv' by (auto split: if_splits)
  next
    case False
    then have r: "r = Ok ()" and db': "db' = ?db\<lparr>db_alerts_seq := db_alerts_seq db + 1,
        db_alerts := db_alerts db @ [\<lparr>ar_ID = db_alerts_seq db + 1, ar_DeviceID = d,
          ar_Reason = al_Reason a, ar_Desc = al_Desc a, ar_Timestamp = t_Unix (al_Time a)\<rparr>]\<rparr>"
      using run(1) by auto
    have "db_inv db'"
      using inv' False ids_ok_snoc [of "map ar_ID (db_alerts db)" "db_alerts_seq db"]
      unfolding db' db_inv_def by auto
    moreover have "alerts_of db' = (alerts_of db)(d := alerts_of db d @ [kept_alert a])"
      by (simp add: fun_eq_iff alerts_of_def db' alert_of_row_def kept_alert_def kept_time_def)
    moreover have "configs_of db' = configs_of db" "metrics_of db' = metrics_of db"
      by (simp_all add: db' configs_of_def metrics_of_def fun_eq_iff)
    ultimately show ?thesis using r by (simp add: db_view_def set_config_def add_alerts_def)
  qed
next
  case (fault e fs)
  then show ?thesis using inv by (simp add: db_inv_faults)
qed

lemma config_keeps:
  assumes inv: "db_inv db" and call: "GetDeviceConfig_repo d db = (r, db')"
  shows "db_inv db' \<and> db_view db' = db_view db \<and>
    ((\<exists>c. r = Ok c \<and> ct_configs (db_view db) d = Some c) \<or>
     r = Err (ErrRepoItemNotFound, zero_config) \<and> ct_configs (db_view db) d = None \<or>
     (\<exists>e. r = Err (e, zero_config) \<and> \<not> errors_Is e ErrRepoItemNotFound))"
proof -
  obtain q dbq where q: "GetDeviceConfig_q d db = (q, dbq)" by (cases "GetDeviceConfig_q d db")
  from q [unfolded GetDeviceConfig_q_def] show ?thesis
  proof (cases rule: db_callE)
    case (run fs)
    have "db_inv (db\<lparr>db_faults := fs\<rparr>)" using inv run(2) by (rule db_inv_faults)
    with run(1) call q show ?thesis
      by (cases "List.find (\<lambda>r. cr_DeviceID r = d) (db_configs db)")
        (auto simp: GetDeviceConfig_repo_def configs_of_def config_of_row_def)
  next
    case (fault e fs)
    have "driver_error e" using inv fault(3) by (auto simp: db_inv_def)
    then show ?thesis using call q fault inv
      by (auto simp: GetDeviceConfig_repo_def driver_error_def db_inv_faults)
  qed
qed

lemma config_stored:
  assumes "db_inv db" and "ct_configs (db_view db) d = Some c"
  shows "\<not> is_nan (cfg_TemperatureThreshold c) \<and> in_int32 (cfg_BatteryThreshold c)"
  using assms by (auto simp: configs_of_def db_inv_def find_Some_iff)

text \<open>On a healthy store every call goes through; only a NaN is refused.\<close>

lemma healthy_Suc: "healthy (Suc k) db \<Longrightarrow> healthy k db"
  by (simp add: healthy_def)

lemma upsert_goes:
  "healthy k db \<Longrightarrow> \<not> is_nan (cfg_TemperatureThreshold c) \<Longrightarrow>
   \<exists>db'. UpsertDeviceConfig_repo d c db = (Ok (), db') \<and> healthy k db'"
  by (simp add: healthy_def UpsertDeviceConfig_repo_def UpsertDeviceConfig_q_def db_call_healthy)

lemma metric_goes:
  "healthy (Suc k) db \<Longrightarrow> \<not> is_nan (met_Temperature m) \<Longrightarrow>
   \<exists>db'. SaveDeviceMetric_repo d m db = (Ok (), db') \<and> healthy k db'"
  by (simp add: healthy_def SaveDeviceMetric_repo_def SaveDeviceMetric_q_def db_call_healthy)

lemma alert_goes:
  "healthy (Suc k) db \<Longrightarrow> \<exists>db'. SaveDeviceAlert_repo d a db = (Ok (), db') \<and> healthy k db'"
  by (simp add: healthy_def SaveDeviceAlert_repo_def SaveDeviceAlert_q_def db_call_healthy)

lemma config_goes:
  "healthy k db \<Longrightarrow> GetDeviceConfig_repo d db =
     ((case ct_configs (db_view db) d of Some c \<Rightarrow> Ok c | None \<Rightarrow> Err (ErrRepoItemNotFound, zero_config)), db)"
  by (simp add: healthy_def GetDeviceConfig_repo_def GetDeviceConfig_q_def db_call_healthy
      configs_of_def config_of_row_def split: option.split)

section \<open>Pages\<close>

text \<open>
  The peeked page of size \<open>n\<close> out of \<open>n + 1\<close> rows asked for: the first \<open>n\<close> rows, and
  the last of them as the cursor when there are more.
\<close>

lemma page_limit_eq:
  "0 < n \<Longrightarrow> n < 9223372036854775807 \<Longrightarrow> page_limit \<lparr>po_Size = n, po_Token = tk\<rparr> = n + 1"
  by (simp add: page_limit_def to_int64_id in_int64_def)

lemma peek_short:
  assumes "0 < n" and "int (length xs) \<le> n"
  shows "peek_rows id_of ts_of (n + 1) (sql_limit (n + 1) xs) = Ok (xs, None)"
  using assms by (simp add: peek_rows_def sql_limit_def)

lemma peek_more:
  assumes "0 < n" and "n < int (length xs)"
  shows "peek_rows id_of ts_of (n + 1) (sql_limit (n + 1) xs) =
    Ok (take (nat n) xs, Some \<lparr>LastTime = Some (unix_utc (ts_of (last (take (nat n) xs)))),
                               LastID = Some (id_of (last (take (nat n) xs)))\<rparr>)"
proof -
  have rows: "sql_limit (n + 1) xs = take (Suc (nat n)) xs"
    using assms(1) by (simp add: sql_limit_def nat_add_distrib)
  have len: "int (length (take (Suc (nat n)) xs)) = n + 1" using assms by simp
  have bl: "butlast (take (Suc (nat n)) xs) = take (nat n) xs"
    using assms by (simp add: butlast_take)
  have "take (nat n) xs \<noteq> []" "take (Suc (nat n)) xs \<noteq> []" using assms by auto
  then show ?thesis using len by (simp add: rows peek_rows_def bl)
qed

lemma peek_no_panic:
  assumes "0 < n"
  shows "\<not> is_panic (peek_rows id_of ts_of (n + 1) xs)"
proof (cases "int (length xs) = n + 1")
  case True
  then have "2 \<le> length xs" using assms by linarith
  then obtain a b ys where "xs = a # b # ys" by (cases xs; cases "tl xs") auto
  then show ?thesis by (simp add: peek_rows_def)
qed (simp add: peek_rows_def)

section \<open>The listing of a device\<close>

definition alert_rows :: "string \<Rightarrow> Timeframe \<Rightarrow> database \<Rightarrow> AlertRow list" where
  "alert_rows d tf db =
     alerts_tl.selection d (map_option t_Unix (tf_Start tf)) (map_option t_Unix (tf_End tf)) (db_alerts db)"

definition alert_rows_after :: "string \<Rightarrow> Timeframe \<Rightarrow> RepositoryPageToken option \<Rightarrow> database \<Rightarrow> AlertRow list" where
  "alert_rows_after d tf tk db =
     (case tk of
        None \<Rightarrow> alert_rows d tf db
      | Some t \<Rightarrow> (case (LastTime t, LastID t) of
            (Some lt, Some li) \<Rightarrow> filter (\<lambda>r. Cursor (t_Unix lt) li < alerts_tl.place r) (alert_rows d tf db)
          | _ \<Rightarrow> []))"

definition listing :: "database \<Rightarrow> string \<Rightarrow> Timeframe \<Rightarrow> RepositoryPageToken option \<Rightarrow> Alert list" where
  "listing db d tf tk = map alert_of_row (alert_rows_after d tf tk db)"

definition row_token :: "AlertRow \<Rightarrow> RepositoryPageToken" where
  "row_token r = \<lparr>LastTime = Some (unix_utc (ar_Timestamp r)), LastID = Some (ar_ID r)\<rparr>"

definition issued :: "database \<Rightarrow> string \<Rightarrow> Timeframe \<Rightarrow> RepositoryPageToken option \<Rightarrow> bool" where
  "issued db d tf tk \<longleftrightarrow> (case tk of None \<Rightarrow> True | Some t \<Rightarrow> t \<in> row_token ` set (alert_rows d tf db))"

lemma issued_none: "issued db d tf None"
  by (simp add: issued_def)

lemma alert_rows_set:
  "r \<in> set (alert_rows d tf db) \<longleftrightarrow> r \<in> set (db_alerts db) \<and> ar_DeviceID r = d \<and>
     in_window (map_option t_Unix (tf_Start tf)) (map_option t_Unix (tf_End tf)) (ar_Timestamp r)"
  by (auto simp: alert_rows_def alerts_tl.selection_set)

text \<open>The rows after a token are those after a cursor of the timeline, or none.\<close>

lemma alert_rows_cursor:
  obtains (none) "alert_rows_after d tf tk db = []"
  | (cursor) c where "alert_rows_after d tf tk db =
      alerts_tl.after_cursor c d (map_option t_Unix (tf_Start tf)) (map_option t_Unix (tf_End tf)) (db_alerts db)"
proof (cases tk)
  case None
  show ?thesis by (rule cursor [of None]) (simp add: None alert_rows_after_def alert_rows_def alerts_tl.after_cursor_def)
next
  case (Some t)
  show ?thesis
  proof (cases "LastTime t = None \<or> LastID t = None")
    case True
    then show ?thesis by (intro none) (auto simp: Some alert_rows_after_def split: option.split)
  next
    case False
    then show ?thesis
      by (intro cursor [of "Some (t_Unix (the (LastTime t)), the (LastID t))"])
        (auto simp: Some alert_rows_after_def alert_rows_def alerts_tl.after_cursor_def)
  qed
qed

lemma alert_ids_distinct: "db_inv db \<Longrightarrow> distinct (map ar_ID (db_alerts db))"
  using ids_ok_distinct by (auto simp: db_inv_def)

lemma alert_rows_after_strict:
  "db_inv db \<Longrightarrow> sorted_wrt (<) (map alerts_tl.place (alert_rows_after d tf tk db))"
  by (rule alert_rows_cursor [of d tf tk db]) (simp_all add: alerts_tl.after_cursor_strict alert_ids_distinct)

lemma alert_rows_after_subset: "set (alert_rows_after d tf tk db) \<subseteq> set (alert_rows d tf db)"
  by (rule alert_rows_cursor [of d tf tk db]) (simp_all add: alert_rows_def alerts_tl.after_cursor_subset)

lemma row_in_range: "db_inv db \<Longrightarrow> r \<in> set (db_alerts db) \<Longrightarrow> in_int64 (ar_Timestamp r) \<and> in_int64 (ar_ID r)"
  using ids_ok_int64 [of "map ar_ID (db_alerts db)" "db_alerts_seq db" "ar_ID r"]
  by (auto simp: db_inv_def)

lemma alert_rows_after_row_token:
  "in_int64 (ar_Timestamp r) \<Longrightarrow> alert_rows_after d tf (Some (row_token r)) db =
     filter (\<lambda>x. alerts_tl.place r < alerts_tl.place x) (alert_rows d tf db)"
  by (simp add: alert_rows_after_def row_token_def alerts_tl.place_def [of r])

lemma rows_beyond:
  assumes "r \<in> set (alert_rows_after d tf tk db)"
  shows "filter (\<lambda>x. alerts_tl.place r < alerts_tl.place x) (alert_rows d tf db) =
    filter (\<lambda>x. alerts_tl.place r < alerts_tl.place x) (alert_rows_after d tf tk db)"
proof (rule alert_rows_cursor [of d tf tk db])
  fix c assume c: "alert_rows_after d tf tk db =
      alerts_tl.after_cursor c d (map_option t_Unix (tf_Start tf)) (map_option t_Unix (tf_End tf)) (db_alerts db)"
  from alerts_tl.beyond_row [OF assms [unfolded c]] show ?thesis unfolding c by (simp add: alert_rows_def)
qed (use assms in simp)

text \<open>The rows after the cursor of a row are those after the row.\<close>

lemma rows_after_row:
  assumes inv: "db_inv db" and n: "0 < n" "n \<le> length (alert_rows_after d tf tk db)"
    and r: "r = last (take n (alert_rows_after d tf tk db))"
  shows "alert_rows_after d tf (Some (row_token r)) db = drop n (alert_rows_after d tf tk db)"
proof (rule alert_rows_cursor [of d tf tk db])
  fix c assume c: "alert_rows_after d tf tk db =
      alerts_tl.after_cursor c d (map_option t_Unix (tf_Start tf)) (map_option t_Unix (tf_End tf)) (db_alerts db)"
  have "take n (alert_rows_after d tf tk db) \<noteq> []" using n by auto
  then have "r \<in> set (alert_rows_after d tf tk db)" unfolding r by (meson in_set_takeD last_in_set)
  then have "in_int64 (ar_Timestamp r)" using inv row_in_range alert_rows_after_subset alert_rows_set by blast
  then show ?thesis
    using alerts_tl.after_row [OF alert_ids_distinct [OF inv] n [unfolded c] r [unfolded c]] unfolding c
    by (simp add: alert_rows_after_row_token alert_rows_def alerts_tl.after_cursor_def flip: alerts_tl.place_def)
qed (use n in simp)

text \<open>\<open>GetDeviceAlerts\<close> over a healthy store, for a token the store issued.\<close>

lemma alerts_rows_read:
  assumes inv: "db_inv db" and h: "db_faults db = []" and iss: "issued db d tf tk"
    and n: "0 < n" "n < 9223372036854775807"
  shows "GetDeviceAlerts_repo d tf \<lparr>po_Size = n, po_Token = tk\<rparr> db =
    (case peek_rows ar_ID ar_Timestamp (n + 1) (sql_limit (n + 1) (alert_rows_after d tf tk db)) of
       Err e \<Rightarrow> (Err e, db)
     | Panic p \<Rightarrow> (Panic p, db)
     | Ok (rows', nt) \<Rightarrow> (Ok \<lparr>pg_Items = map alert_of_row rows', pg_NextPageToken = nt\<rparr>, db))"
proof (cases tk)
  case None
  then show ?thesis
    by (simp add: GetDeviceAlerts_repo_def cursor_params_def GetDeviceAlerts_q_eq db_call_healthy h
        page_limit_eq n alerts_tl.query_start alert_rows_after_def alert_rows_def)
next
  case (Some t)
  with iss obtain r where r: "r \<in> set (alert_rows d tf db)" "t = row_token r"
    by (auto simp: issued_def)
  have dist: "distinct (map ar_ID (db_alerts db))" using inv ids_ok_distinct by (auto simp: db_inv_def)
  show ?thesis
    by (simp add: Some r(2) GetDeviceAlerts_repo_def cursor_params_def GetDeviceAlerts_q_eq db_call_healthy h
        page_limit_eq n row_token_def alerts_tl.query_after [OF dist] alert_rows_after_def alert_rows_def)
qed

lemma page_read:
  assumes inv: "db_inv db" and h: "db_faults db = []" and iss: "issued db d tf tk"
    and n: "0 < n" "n < 9223372036854775807"
  shows "GetDeviceAlerts_repo d tf \<lparr>po_Size = n, po_Token = tk\<rparr> db =
    (if int (length (alert_rows_after d tf tk db)) \<le> n
     then (Ok \<lparr>pg_Items = listing db d tf tk, pg_NextPageToken = None\<rparr>, db)
     else (Ok \<lparr>pg_Items = take (nat n) (listing db d tf tk),
            pg_NextPageToken = Some (row_token (last (take (nat n) (alert_rows_after d tf tk db))))\<rparr>, db))"
  using n by (simp add: alerts_rows_read assms peek_short peek_more listing_def take_map flip: row_token_def)

lemma page_of_listing:
  assumes inv: "db_inv db" and h: "healthy k db" and iss: "issued db d tf tk"
    and n: "0 < n" "n < 9223372036854775807"
  shows "\<exists>nt. GetDeviceAlerts_repo d tf \<lparr>po_Size = n, po_Token = tk\<rparr> db =
      (Ok \<lparr>pg_Items = take (nat n) (listing db d tf tk), pg_NextPageToken = nt\<rparr>, db) \<and>
    (if int (length (listing db d tf tk)) \<le> n then nt = None
     else issued db d tf nt \<and> nt \<noteq> None \<and> listing db d tf nt = drop (nat n) (listing db d tf tk))"
proof -
  let ?L = "alert_rows_after d tf tk db"
  note read = page_read [OF inv _ iss n]
  show ?thesis
  proof (cases "int (length ?L) \<le> n")
    case True
    then show ?thesis using h by (simp add: read healthy_def listing_def)
  next
    case False
    let ?r = "last (take (nat n) ?L)"
    have pos: "0 < nat n" "nat n \<le> length ?L" using n False by auto
    then have "take (nat n) ?L \<noteq> []" by auto
    then have "?r \<in> set (alert_rows d tf db)"
      using alert_rows_after_subset by (metis in_set_takeD last_in_set subsetD)
    moreover have "alert_rows_after d tf (Some (row_token ?r)) db = drop (nat n) ?L"
      using inv pos by (intro rows_after_row) simp_all
    ultimately show ?thesis using False h
      by (simp add: read healthy_def listing_def issued_def drop_map)
  qed
qed

lemma page_reads_only:
  assumes inv: "db_inv db" and call: "GetDeviceAlerts_repo d tf po db = (r, db')"
  shows "db_inv db' \<and> db_view db' = db_view db"
proof -
  have "\<exists>fs. set fs \<subseteq> set (db_faults db) \<and> db' = db\<lparr>db_faults := fs\<rparr>"
  proof (cases "cursor_params (po_Token po)")
    case None
    then show ?thesis using call by (auto simp: GetDeviceAlerts_repo_def intro: exI [of _ "db_faults db"])
  next
    case (Some c)
    obtain q dbq where q: "GetDeviceAlerts_q \<lparr>gap_DeviceID = d,
        gap_StartTs = map_option t_Unix (tf_Start tf), gap_EndTs = map_option t_Unix (tf_End tf),
        gap_LastTs = fst c, gap_LastID = snd c, gap_Limit = page_limit po\<rparr> db = (q, dbq)"
      by fastforce
    have "db' = dbq" using call
      by (auto simp: GetDeviceAlerts_repo_def Some case_prod_unfold q split: outcome.splits)
    moreover from q [unfolded GetDeviceAlerts_q_def]
    have "\<exists>fs. set fs \<subseteq> set (db_faults db) \<and> dbq = db\<lparr>db_faults := fs\<rparr>"
      by (cases rule: db_callE) auto
    ultimately show ?thesis by simp
  qed
  then show ?thesis using inv by (auto intro: db_inv_faults)
qed

lemma page_no_panic:
  assumes n: "0 < n" "n < 9223372036854775807"
    and tk: "case tk of None \<Rightarrow> True | Some t \<Rightarrow> LastTime t \<noteq> None"
  shows "\<not> is_panic (fst (GetDeviceAlerts_repo d tf \<lparr>po_Size = n, po_Token = tk\<rparr> db))"
proof -
  obtain c where c: "cursor_params tk = Some c"
    using tk by (auto simp: cursor_params_def split: option.splits)
  obtain q dbq where q: "GetDeviceAlerts_q \<lparr>gap_DeviceID = d,
      gap_StartTs = map_option t_Unix (tf_Start tf), gap_EndTs = map_option t_Unix (tf_End tf),
      gap_LastTs = fst c, gap_LastID = snd c, gap_Limit = n + 1\<rparr> db = (q, dbq)"
    by fastforce
  have peek: "peek_rows ar_ID ar_Timestamp (n + 1) xs \<noteq> Panic p" for xs p
    using peek_no_panic [OF n(1), of ar_ID ar_Timestamp xs] by auto
  have "\<not> is_panic q" using q [unfolded GetDeviceAlerts_q_def]
    by (cases rule: db_callE) auto
  then show ?thesis
    by (auto simp: GetDeviceAlerts_repo_def c case_prod_unfold page_limit_eq n q peek split: outcome.split)
qed

lemma sql_limit_length: "0 \<le> n \<Longrightarrow> int (length (sql_limit n xs)) \<le> n"
  by (simp add: sql_limit_def)

lemma peek_bound:
  assumes "peek_rows id_of ts_of (n + 1) xs = Ok (ys, nt)" and "int (length xs) \<le> n + 1"
  shows "int (length ys) \<le> n"
  using assms by (auto simp: peek_rows_def of_nat_diff Suc_leI split: if_splits)

lemma page_at_most:
  assumes n: "0 < n" "n < 9223372036854775807"
    and call: "GetDeviceAlerts_repo d tf \<lparr>po_Size = n, po_Token = tk\<rparr> db = (Ok page, db')"
  shows "int (length (pg_Items page)) \<le> n"
proof -
  obtain c where c: "cursor_params tk = Some c"
    using call by (auto simp: GetDeviceAlerts_repo_def split: option.splits)
  let ?arg = "\<lparr>gap_DeviceID = d, gap_StartTs = map_option t_Unix (tf_Start tf),
      gap_EndTs = map_option t_Unix (tf_End tf), gap_LastTs = fst c, gap_LastID = snd c, gap_Limit = n + 1\<rparr>"
  obtain rows dbq where q: "GetDeviceAlerts_q ?arg db = (Ok rows, dbq)"
    using call by (auto simp: GetDeviceAlerts_repo_def c case_prod_unfold page_limit_eq n
        split: outcome.splits prod.splits) (metis prod.collapse)
  then have "int (length rows) \<le> n + 1" unfolding GetDeviceAlerts_q_def
    using n by (cases rule: db_callE) (auto intro!: sql_limit_length)
  then show ?thesis
    using call q by (auto simp: GetDeviceAlerts_repo_def c case_prod_unfold page_limit_eq n
        split: outcome.splits dest!: peek_bound)
qed

lemma kept_in_window:
  "in_window (map_option t_Unix (tf_Start tf)) (map_option t_Unix (tf_End tf)) t \<longleftrightarrow> in_timeframe tf (unix_utc t)"
  if "in_int64 t"
  using that by (auto simp: in_window_def in_timeframe_def split: option.splits)

lemma peek_subset: "peek_rows id_of ts_of n xs = Ok (ys, nt) \<Longrightarrow> set ys \<subseteq> set xs"
  by (auto simp: peek_rows_def split: if_splits dest: in_set_butlastD)

lemma sql_limit_subset: "set (sql_limit n xs) \<subseteq> set xs"
  by (auto simp: sql_limit_def dest: in_set_takeD)

text \<open>Whatever the token, a page shows alerts of the device within the timeframe.\<close>

lemma page_from_device:
  assumes inv: "db_inv db" and call: "GetDeviceAlerts_repo d tf po db = (Ok page, db')"
    and a: "a \<in> set (pg_Items page)"
  shows "a \<in> set (ct_alerts (db_view db) d) \<and> in_timeframe tf (al_Time a)"
proof -
  obtain c where c: "cursor_params (po_Token po) = Some c"
    using call by (auto simp: GetDeviceAlerts_repo_def split: option.splits)
  let ?st = "map_option t_Unix (tf_Start tf)" and ?en = "map_option t_Unix (tf_End tf)"
  let ?arg = "\<lparr>gap_DeviceID = d, gap_StartTs = ?st, gap_EndTs = ?en, gap_LastTs = fst c, gap_LastID = snd c,
      gap_Limit = page_limit po\<rparr>"
  obtain rows dbq where q: "GetDeviceAlerts_q ?arg db = (Ok rows, dbq)"
    using call by (auto simp: GetDeviceAlerts_repo_def c case_prod_unfold
        split: outcome.splits prod.splits) (metis prod.collapse)
  have rows: "set rows \<subseteq> {r \<in> set (db_alerts db). ar_DeviceID r = d \<and> in_window ?st ?en (ar_Timestamp r)}"
    using q unfolding GetDeviceAlerts_q_def
    by (cases rule: db_callE) (auto dest!: sql_limit_subset [THEN subsetD])
  obtain r where r: "r \<in> set rows" "a = alert_of_row r"
    using call q a by (auto simp: GetDeviceAlerts_repo_def c case_prod_unfold
        split: outcome.splits dest!: peek_subset) blast
  with rows have "r \<in> set (db_alerts db)" "ar_DeviceID r = d" "in_window ?st ?en (ar_Timestamp r)" by auto
  then show ?thesis using r(2) row_in_range [OF inv] kept_in_window
    by (auto simp: alerts_of_def alert_of_row_def)
qed

section \<open>The store is a repository\<close>

context timeline
begin

lemma selection_newest_first:
  assumes "sorted_wrt (<) (map rid rows)" and "\<forall>r \<in> set rows. in_int64 (ts r) \<and> time (item r) = unix_utc (ts r)"
  shows "map item (selection d (map_option t_Unix (tf_Start tf)) (map_option t_Unix (tf_End tf)) rows) =
    newest_first time tf (map item (filter (\<lambda>r. dev r = d) rows))"
proof -
  let ?P = "\<lambda>r. dev r = d \<and> in_timeframe tf (time (item r))"
  have "filter (\<lambda>r. dev r = d \<and> in_window (map_option t_Unix (tf_Start tf)) (map_option t_Unix (tf_End tf)) (ts r)) rows = filter ?P rows"
    using assms(2) by (intro filter_cong) (auto simp: kept_in_window)
  moreover have "sort_key (\<lambda>r. - ts r) (rev (filter ?P rows)) = sort_key (\<lambda>r. - t_Unix (time (item r))) (rev (filter ?P rows))"
    using assms(2) by (intro sort_key_cong) auto
  ultimately show ?thesis
    using selection_newest [OF assms(1)]
    by (simp add: newest_first_def filter_map o_def rev_map sort_key_map conj_commute)
qed

end

lemma listing_newest:
  assumes "db_inv db"
  shows "listing db d tf None = newest_first al_Time tf (ct_alerts (db_view db) d)"
  unfolding listing_def alert_rows_after_def alert_rows_def option.case db_view_simps alerts_of_def
  using assms row_in_range [OF assms]
  by (intro alerts_tl.selection_newest_first) (simp_all add: db_inv_def ids_ok_def alert_of_row_def)

lemma listing_newest_first:
  assumes "db_inv db"
  shows "sorted_wrt (\<lambda>a b. t_Unix (al_Time b) \<le> t_Unix (al_Time a)) (listing db d tf tk)"
  unfolding listing_def sorted_wrt_map
proof (rule sorted_wrt_mono_rel)
  show "sorted_wrt (\<lambda>x y. alerts_tl.place x < alerts_tl.place y) (alert_rows_after d tf tk db)"
    using alert_rows_after_strict [OF assms] by (simp add: sorted_wrt_map)
next
  fix x y assume "x \<in> set (alert_rows_after d tf tk db)" "y \<in> set (alert_rows_after d tf tk db)"
    and "alerts_tl.place x < alerts_tl.place y"
  moreover from this have "x \<in> set (alert_rows d tf db)" "y \<in> set (alert_rows d tf db)"
    using alert_rows_after_subset by blast+
  ultimately show "t_Unix (al_Time (alert_of_row y)) \<le> t_Unix (al_Time (alert_of_row x))"
    using assms row_in_range by (auto simp: alert_rows_set alert_of_row_def alerts_tl.place_def)
qed

lemma issued_from_store:
  assumes "db_inv db" and "issued db d tf (Some t)"
  shows "\<exists>a i. a \<in> set (ct_alerts (db_view db) d) \<and> t = \<lparr>LastTime = Some (al_Time a), LastID = Some i\<rparr> \<and> in_int64 i"
proof -
  from assms(2) obtain r where r: "r \<in> set (db_alerts db)" "ar_DeviceID r = d" "t = row_token r"
    by (auto simp: issued_def alert_rows_set)
  then have "alert_of_row r \<in> set (alerts_of db d)" by (auto simp: alerts_of_def)
  then show ?thesis using r assms(1) row_in_range by (auto simp: row_token_def alert_of_row_def)
qed

interpretation store: device_repository NewDeviceRepository db_inv healthy db_view listing issued
proof (unfold_locales, unfold NewDeviceRepository_def Repository.select_convs)
qed ((rule healthy_Suc upsert_keeps upsert_goes metric_keeps metric_goes config_keeps config_goes config_stored
         alert_keeps alert_goes page_of_listing page_reads_only page_no_panic page_at_most page_from_device listing_newest
         listing_newest_first issued_from_store issued_none; assumption)+)

end
