(* ===== verification/Reachability.thy ===== *)
theory Reachability
  imports Repository Handlers
begin

text \<open>
  The service on the SQLite repository as a transition system: the states it reaches from the empty
  database by any sequence of calls, with any faults of the engine in between, and the invariant of
  what is stored. It is what makes the alerts a client reads trustworthy.
\<close>

definition svc :: "Logger \<Rightarrow> database Service" where
  "svc l = NewService NewDeviceRepository l"

lemma svc_repo [simp]: "sv_repo (svc l) = NewDeviceRepository"
  by (simp add: svc_def NewService_def)

inductive reach :: "Logger \<Rightarrow> database svc_state \<Rightarrow> bool" for l where
  start: "reach l \<lparr>st_store = empty_db, st_log = []\<rparr>"
| configure: "reach l w \<Longrightarrow> ConfigureDevice (svc l) creq w = (r, w') \<Longrightarrow> reach l w'"
| record_call: "reach l w \<Longrightarrow> RecordMetric (svc l) rreq w = (r, w') \<Longrightarrow> reach l w'"
| list_call: "reach l w \<Longrightarrow> GetDeviceAlerts (svc l) greq w = (res, w') \<Longrightarrow> reach l w'"
| fault: "reach l w \<Longrightarrow> (\<And>e. Some e \<in> set fs \<Longrightarrow> driver_error e) \<Longrightarrow>
    reach l (w\<lparr>st_store := (st_store w)\<lparr>db_faults := fs\<rparr>\<rparr>)"

section \<open>The invariant\<close>

text \<open>An alert is justified by a metric of the same time whose reading is beyond the quoted threshold.\<close>

definition justified :: "Metric \<Rightarrow> Alert \<Rightarrow> bool" where
  "justified m a \<longleftrightarrow> al_Time a = met_Time m \<and>
     ((al_Reason a = AlertReasonTemperatureHigh \<and>
        (\<exists>thr. f_gt (met_Temperature m) thr \<and> al_Desc a = tempHighDesc (met_Temperature m) thr)) \<or>
      (al_Reason a = AlertReasonBatteryLow \<and>
        (\<exists>thr. met_Battery m < thr \<and> al_Desc a = batteryLowDesc (met_Battery m) thr)))"

definition metric_ok :: "Metric \<Rightarrow> bool" where
  "metric_ok m \<longleftrightarrow> temperature_ok (met_Temperature m) \<and> \<not> is_nan (met_Temperature m) \<and> battery_ok (met_Battery m)"

definition contents_ok :: "contents \<Rightarrow> bool" where
  "contents_ok ct \<longleftrightarrow>
     (\<forall>d c. ct_configs ct d = Some c \<longrightarrow>
        temperature_ok (cfg_TemperatureThreshold c) \<and> battery_ok (cfg_BatteryThreshold c)) \<and>
     (\<forall>d. \<forall>m \<in> set (ct_metrics ct d). metric_ok m) \<and>
     (\<forall>d. \<forall>a \<in> set (ct_alerts ct d). \<exists>m \<in> set (ct_metrics ct d). justified m a) \<and>
     (\<forall>d. length (ct_alerts ct d) \<le> 2 * length (ct_metrics ct d))"

lemma contents_ok_empty: "contents_ok (db_view empty_db)"
  by (simp add: contents_ok_def db_view_def empty_db_def configs_of_def metrics_of_def alerts_of_def)

lemma contents_ok_configure:
  assumes "contents_ok ct" and "validateConfigureDeviceReq req = None"
  shows "contents_ok (set_config (cdr_DeviceID req) (requested_config req) ct)"
  using assms by (simp add: contents_ok_def validateConfigure_None_iff requested_config_def)

lemma raised_justified:
  assumes "a \<in> set (alerts_raised req cfg)"
  shows "justified (kept_metric (recorded_metric req)) (kept_alert a)"
  using assms
  by (auto simp: alerts_raised_def justified_def kept_metric_def kept_alert_def recorded_metric_def
      temperature_alert_def battery_alert_def split: if_splits)

lemma alerts_raised_length: "length (alerts_raised req cfg) \<le> 2"
  by (simp add: alerts_raised_def)

lemma outcome_alerts:
  assumes "alert_outcome found req r as"
  shows "length as \<le> 2 \<and> (\<forall>a \<in> set as. justified (kept_metric (recorded_metric req)) (kept_alert a))"
  using assms alerts_raised_length [of req] raised_justified [of _ req]
  by (auto simp: alert_outcome_def min_le_iff_disj dest!: in_set_takeD)

lemma contents_ok_record:
  assumes ok: "contents_ok ct" and valid: "validateRecordMetricReq req = None"
    and num: "\<not> is_nan (rmr_Temperature req)" and out: "alert_outcome found req r as"
  shows "contents_ok (recorded req as ct)"
proof -
  let ?d = "rmr_DeviceID req" and ?m = "kept_metric (recorded_metric req)"
  have m: "metric_ok ?m"
    using valid num by (simp add: metric_ok_def kept_metric_def recorded_metric_def validateRecord_None_iff)
  note as = outcome_alerts [OF out]
  have "length (ct_alerts ct ?d) + length as \<le> 2 * Suc (length (ct_metrics ct ?d))"
  proof -
    have "length (ct_alerts ct ?d) \<le> 2 * length (ct_metrics ct ?d)" using ok by (simp add: contents_ok_def)
    then show ?thesis using as by simp
  qed
  then show ?thesis
    using ok m as by (auto simp: contents_ok_def recorded_def split: if_splits)
qed

lemma reach_invariant: "reach l w \<Longrightarrow> db_inv (st_store w) \<and> contents_ok (db_view (st_store w))"
proof (induction rule: reach.induct)
  case start
  then show ?case by (simp add: contents_ok_empty)
next
  case (configure w creq r w')
  then show ?case using store.configure_effect [OF _ svc_repo configure.hyps(2)] contents_ok_configure
    by (auto simp: configure.IH)
next
  case (record_call w rreq r w')
  then show ?case using store.record_effect [OF _ svc_repo record_call.hyps(2)] contents_ok_record
    by (auto simp: record_call.IH)
next
  case (list_call w greq res w')
  then show ?case using store.alerts_keep [OF _ svc_repo list_call.hyps(2)] by simp
next
  case (fault w fs)
  then show ?case by (auto simp: db_inv_def)
qed

end
