(* ===== verification/WorkerPool.thy ===== *)
theory WorkerPool
  imports HttpError
begin

text \<open>
  \<^verbatim>\<open>cmd/stress/worker_pool.go\<close> as a transition system. A step is what one goroutine does
  between two points where another may run: a channel operation, an operation on the wait group,
  or a whole job. \<open>q_checked\<close> and \<open>q_added\<close> are the callers of \<^verbatim>\<open>QueueJob\<close> that have passed
  its first \<^verbatim>\<open>select\<close>, and that have added to the wait group; \<open>p_closing\<close> counts how far
  \<^verbatim>\<open>Close\<close> has got.
\<close>

section \<open>State\<close>

datatype 'j worker = Idle | Running 'j | Reporting go_error | Exited

record 'j WorkerPool =
  p_workers :: nat
  p_ws :: "'j worker list"
  p_jobs :: "'j list"
  p_jobs_closed :: bool
  p_closed :: bool
  p_wg :: int
  p_errs :: "go_error list"
  p_errs_closed :: bool
  q_checked :: "'j list"
  q_added :: "'j list"
  p_closing :: nat
  p_panic :: "string option"

definition NewWorkerPool :: "nat \<Rightarrow> 'j WorkerPool" where
  "NewWorkerPool workers = \<lparr>p_workers = workers, p_ws = [], p_jobs = [], p_jobs_closed = False,
     p_closed = False, p_wg = 0, p_errs = [], p_errs_closed = False, q_checked = [], q_added = [],
     p_closing = 0, p_panic = None\<rparr>"

text \<open>\<^verbatim>\<open>Start\<close> spawns the workers, each at the top of its loop.\<close>

definition Start :: "'j WorkerPool \<Rightarrow> 'j WorkerPool" where
  "Start p = p\<lparr>p_ws := replicate (p_workers p) Idle\<rparr>"

definition job_failed :: "nat \<Rightarrow> go_error \<Rightarrow> go_error" where
  "job_failed workerID err = ErrWrapf (''worker '' @ nat_dec workerID @ '' job failed'') err"

text \<open>\<^verbatim>\<open>wg.Add(n)\<close> panics when the counter becomes negative.\<close>

definition wg_add :: "int \<Rightarrow> 'j WorkerPool \<Rightarrow> 'j WorkerPool" where
  "wg_add n p = (if p_wg p + n < 0 then p\<lparr>p_panic := Some ''sync: negative WaitGroup counter''\<rparr>
                 else p\<lparr>p_wg := p_wg p + n\<rparr>)"

section \<open>Steps\<close>

datatype 'j pool_action =
    QueueCheck 'j | QueueAdd nat | QueueSend nat | QueueUndo nat
  | Take nat | Finish nat "go_error option" | Report nat | Exit nat
  | ReadErr | CloseClosed | CloseJobs | CloseErrs

text \<open>\<^verbatim>\<open>QueueJob\<close>: the check, the addition, and the \<^verbatim>\<open>select\<close> between sending and giving up.\<close>

definition queue_check :: "'j \<Rightarrow> 'j WorkerPool \<Rightarrow> 'j WorkerPool" where
  "queue_check job p = (if p_closed p then p else p\<lparr>q_checked := q_checked p @ [job]\<rparr>)"

definition queue_add :: "nat \<Rightarrow> 'j WorkerPool \<Rightarrow> 'j WorkerPool option" where
  "queue_add i p =
     (if i < length (q_checked p)
      then Some (wg_add 1 (p\<lparr>q_checked := remove_at i (q_checked p), q_added := q_added p @ [q_checked p ! i]\<rparr>))
      else None)"

definition queue_send :: "nat \<Rightarrow> 'j WorkerPool \<Rightarrow> 'j WorkerPool option" where
  "queue_send i p =
     (if i < length (q_added p) then
        if p_jobs_closed p then Some (p\<lparr>p_panic := Some ''send on closed channel''\<rparr>)
        else if length (p_jobs p) < p_workers p
        then Some (p\<lparr>q_added := remove_at i (q_added p), p_jobs := p_jobs p @ [q_added p ! i]\<rparr>)
        else None
      else None)"

definition queue_undo :: "nat \<Rightarrow> 'j WorkerPool \<Rightarrow> 'j WorkerPool option" where
  "queue_undo i p =
     (if i < length (q_added p) \<and> p_closed p
      then Some (wg_add (- 1) (p\<lparr>q_added := remove_at i (q_added p)\<rparr>)) else None)"

text \<open>A worker: take a job, run it, report its error, and say it is done.\<close>

definition take_job :: "nat \<Rightarrow> 'j WorkerPool \<Rightarrow> 'j WorkerPool option" where
  "take_job i p =
     (if i < length (p_ws p) \<and> p_ws p ! i = Idle then
        case p_jobs p of
          [] \<Rightarrow> None
        | j # js \<Rightarrow> Some (p\<lparr>p_jobs := js, p_ws := (p_ws p)[i := Running j]\<rparr>)
      else None)"

fun finish_job :: "nat \<Rightarrow> go_error option \<Rightarrow> 'j WorkerPool \<Rightarrow> 'j WorkerPool option" where
  "finish_job i res p =
     (if i < length (p_ws p) then
        case p_ws p ! i of
          Running j \<Rightarrow>
            (case res of
               None \<Rightarrow> Some (wg_add (- 1) (p\<lparr>p_ws := (p_ws p)[i := Idle]\<rparr>))
             | Some err \<Rightarrow> Some (p\<lparr>p_ws := (p_ws p)[i := Reporting (job_failed i err)]\<rparr>))
        | _ \<Rightarrow> None
      else None)"

definition report_err :: "nat \<Rightarrow> 'j WorkerPool \<Rightarrow> 'j WorkerPool option" where
  "report_err i p =
     (if i < length (p_ws p) then
        case p_ws p ! i of
          Reporting err \<Rightarrow>
            if p_errs_closed p then Some (p\<lparr>p_panic := Some ''send on closed channel''\<rparr>)
            else if length (p_errs p) < p_workers p
            then Some (wg_add (- 1) (p\<lparr>p_errs := p_errs p @ [err], p_ws := (p_ws p)[i := Idle]\<rparr>))
            else None
        | _ \<Rightarrow> None
      else None)"

definition exit_worker :: "nat \<Rightarrow> 'j WorkerPool \<Rightarrow> 'j WorkerPool option" where
  "exit_worker i p =
     (if i < length (p_ws p) \<and> p_ws p ! i = Idle \<and> p_jobs p = [] \<and> p_jobs_closed p
      then Some (p\<lparr>p_ws := (p_ws p)[i := Exited]\<rparr>) else None)"

text \<open>\<^verbatim>\<open>Close\<close>, called once: the two channels, the wait, and the channel of errors.\<close>

definition close_closed :: "'j WorkerPool \<Rightarrow> 'j WorkerPool option" where
  "close_closed p = (if p_closing p = 0 then Some (p\<lparr>p_closed := True, p_closing := 1\<rparr>) else None)"

definition close_jobs :: "'j WorkerPool \<Rightarrow> 'j WorkerPool option" where
  "close_jobs p = (if p_closing p = 1 then Some (p\<lparr>p_jobs_closed := True, p_closing := 2\<rparr>) else None)"

definition close_errs :: "'j WorkerPool \<Rightarrow> 'j WorkerPool option" where
  "close_errs p = (if p_closing p = 2 \<and> p_wg p = 0 then Some (p\<lparr>p_errs_closed := True, p_closing := 3\<rparr>) else None)"

definition pool_step :: "'j pool_action \<Rightarrow> 'j WorkerPool \<Rightarrow> 'j WorkerPool option" where
  "pool_step act p =
     (if p_panic p \<noteq> None then None
      else case act of
        QueueCheck job \<Rightarrow> Some (queue_check job p)
      | QueueAdd i \<Rightarrow> queue_add i p
      | QueueSend i \<Rightarrow> queue_send i p
      | QueueUndo i \<Rightarrow> queue_undo i p
      | Take i \<Rightarrow> take_job i p
      | Finish i res \<Rightarrow> finish_job i res p
      | Report i \<Rightarrow> report_err i p
      | Exit i \<Rightarrow> exit_worker i p
      | ReadErr \<Rightarrow> (case p_errs p of [] \<Rightarrow> None | e # es \<Rightarrow> Some (p\<lparr>p_errs := es\<rparr>))
      | CloseClosed \<Rightarrow> close_closed p
      | CloseJobs \<Rightarrow> close_jobs p
      | CloseErrs \<Rightarrow> close_errs p)"

inductive pool_reach :: "'j WorkerPool \<Rightarrow> bool" where
  start: "pool_reach (Start (NewWorkerPool workers))"
| step: "pool_reach p \<Longrightarrow> pool_step act p = Some p' \<Longrightarrow> pool_reach p'"

section \<open>The invariant\<close>

fun busy :: "'j worker \<Rightarrow> int" where
  "busy (Running j) = 1"
| "busy (Reporting e) = 1"
| "busy _ = 0"

lemma busy_nonneg [simp]: "0 \<le> busy w"
  by (cases w) simp_all

lemma busy_sum_nonneg [simp]: "0 \<le> (\<Sum>w\<leftarrow>ws. busy w)"
  by (induction ws) simp_all

lemma busy_le_sum: "w \<in> set ws \<Longrightarrow> busy w \<le> (\<Sum>w\<leftarrow>ws. busy w)"
  by (induction ws) (auto simp: add_increasing)

text \<open>
  The wait group counts the callers about to send, the jobs in the channel and the workers with a
  job; the channels are closed in order, and once the errors channel is closed no worker will send
  on it again.
\<close>

definition outstanding :: "'j WorkerPool \<Rightarrow> int" where
  "outstanding p = int (length (q_added p)) + int (length (p_jobs p)) + (\<Sum>w\<leftarrow>p_ws p. busy w)"

definition pool_inv :: "'j WorkerPool \<Rightarrow> bool" where
  "pool_inv p \<longleftrightarrow>
     p_wg p = outstanding p \<and> (p_panic p = None \<or> p_panic p = Some ''send on closed channel'') \<and>
     (p_panic p \<noteq> None \<longrightarrow> p_jobs_closed p \<and> q_added p \<noteq> []) \<and>
     p_closed p = (1 \<le> p_closing p) \<and> p_jobs_closed p = (2 \<le> p_closing p) \<and>
     p_errs_closed p = (3 \<le> p_closing p) \<and>
     length (p_jobs p) \<le> p_workers p \<and> length (p_errs p) \<le> p_workers p \<and>
     (p_errs_closed p \<longrightarrow> p_jobs p = [] \<and> (\<Sum>w\<leftarrow>p_ws p. busy w) = 0)"

lemma outstanding_zero:
  assumes "outstanding p = 0"
  shows "q_added p = [] \<and> p_jobs p = [] \<and> (\<Sum>w\<leftarrow>p_ws p. busy w) = 0"
proof -
  have "0 \<le> (\<Sum>w\<leftarrow>p_ws p. busy w)" by (rule busy_sum_nonneg)
  with assms have "int (length (q_added p)) = 0" "int (length (p_jobs p)) = 0" "(\<Sum>w\<leftarrow>p_ws p. busy w) = 0"
    unfolding outstanding_def by linarith+
  then show ?thesis by simp
qed

lemma outstanding_nonneg [simp]: "0 \<le> outstanding p"
  by (simp add: outstanding_def)

lemma pool_inv_start: "pool_inv (Start (NewWorkerPool workers))"
  by (simp add: pool_inv_def Start_def NewWorkerPool_def outstanding_def sum_list_replicate)

lemma wg_add_ok: "0 \<le> p_wg p + n \<Longrightarrow> wg_add n p = p\<lparr>p_wg := p_wg p + n\<rparr>"
  by (simp add: wg_add_def)

lemma pool_inv_check: "pool_inv p \<Longrightarrow> pool_inv (queue_check job p)"
  unfolding pool_inv_def outstanding_def queue_check_def by (elim conjE, intro conjI) simp_all

lemma pool_inv_add:
  assumes inv: "pool_inv p" and ok: "p_panic p = None" and step: "queue_add i p = Some p'"
  shows "pool_inv p'"
proof -
  have "0 \<le> p_wg p + 1" using inv outstanding_nonneg [of p] by (simp add: pool_inv_def)
  then have "p' = p\<lparr>q_checked := remove_at i (q_checked p), q_added := q_added p @ [q_checked p ! i],
      p_wg := p_wg p + 1\<rparr>"
    using step by (simp add: queue_add_def wg_add_ok split: if_splits)
  then show ?thesis using inv ok by (simp add: pool_inv_def outstanding_def)
qed

lemma pool_inv_send:
  assumes inv: "pool_inv p" and ok: "p_panic p = None" and step: "queue_send i p = Some p'"
  shows "pool_inv p'"
proof -
  have i: "i < length (q_added p)" using step by (simp add: queue_send_def split: if_splits)
  then have ne: "q_added p \<noteq> []" and len: "int (length (remove_at i (q_added p))) = int (length (q_added p)) - 1"
    by (auto simp: of_nat_diff)
  show ?thesis
  proof (cases "p_jobs_closed p")
    case True
    then have "p' = p\<lparr>p_panic := Some ''send on closed channel''\<rparr>" using step i by (simp add: queue_send_def)
    then show ?thesis using inv True ne by (simp add: pool_inv_def outstanding_def)
  next
    case False
    then have "p' = p\<lparr>q_added := remove_at i (q_added p), p_jobs := p_jobs p @ [q_added p ! i]\<rparr>"
      and "length (p_jobs p) < p_workers p" and "\<not> p_errs_closed p"
      using step i inv by (simp_all add: queue_send_def pool_inv_def split: if_splits)
    then show ?thesis using inv ok len False by (simp add: pool_inv_def outstanding_def)
  qed
qed

lemma pool_inv_undo:
  assumes inv: "pool_inv p" and ok: "p_panic p = None" and step: "queue_undo i p = Some p'"
  shows "pool_inv p'"
proof -
  have i: "i < length (q_added p)" using step by (simp add: queue_undo_def split: if_splits)
  then have len: "int (length (remove_at i (q_added p))) = int (length (q_added p)) - 1"
    by (auto simp: of_nat_diff)
  have "1 \<le> outstanding p" using i busy_sum_nonneg [of "p_ws p"] unfolding outstanding_def by linarith
  then have "p' = p\<lparr>q_added := remove_at i (q_added p), p_wg := p_wg p - 1\<rparr>"
    using step inv by (simp add: queue_undo_def wg_add_ok pool_inv_def split: if_splits)
  then show ?thesis using inv ok len by (simp add: pool_inv_def outstanding_def)
qed

lemma pool_inv_take:
  assumes inv: "pool_inv p" and ok: "p_panic p = None" and step: "take_job i p = Some p'"
  shows "pool_inv p'"
proof -
  obtain j js where i: "i < length (p_ws p)" "p_ws p ! i = Idle" and j: "p_jobs p = j # js"
    and p': "p' = p\<lparr>p_jobs := js, p_ws := (p_ws p)[i := Running j]\<rparr>"
    using step by (auto simp: take_job_def split: if_splits list.splits)
  have "\<not> p_errs_closed p" using inv j by (auto simp: pool_inv_def)
  then show ?thesis using inv ok i j
    by (simp add: pool_inv_def outstanding_def p' map_update sum_list_update_int)
qed

lemma pool_inv_exit:
  assumes inv: "pool_inv p" and ok: "p_panic p = None" and step: "exit_worker i p = Some p'"
  shows "pool_inv p'"
proof -
  have i: "i < length (p_ws p)" "p_ws p ! i = Idle" and p': "p' = p\<lparr>p_ws := (p_ws p)[i := Exited]\<rparr>"
    using step by (simp_all add: exit_worker_def split: if_splits)
  then show ?thesis using inv ok
    by (simp add: pool_inv_def outstanding_def map_update sum_list_update_int)
qed

text \<open>A worker with a job keeps the counter positive and the errors channel open.\<close>

lemma busy_worker:
  assumes inv: "pool_inv p" and i: "i < length (p_ws p)" and b: "busy (p_ws p ! i) = 1"
  shows "1 \<le> p_wg p" and "\<not> p_errs_closed p"
proof -
  have s: "1 \<le> (\<Sum>w\<leftarrow>p_ws p. busy w)" using busy_le_sum [OF nth_mem [OF i]] b by simp
  then show "1 \<le> p_wg p" using inv by (simp add: pool_inv_def outstanding_def)
  show "\<not> p_errs_closed p" using inv s by (auto simp: pool_inv_def)
qed

lemma pool_inv_finish:
  assumes inv: "pool_inv p" and ok: "p_panic p = None" and step: "finish_job i res p = Some p'"
  shows "pool_inv p'"
proof -
  obtain j where i: "i < length (p_ws p)" and j: "p_ws p ! i = Running j"
    using step by (auto split: if_splits worker.splits)
  have b: "1 \<le> p_wg p" "\<not> p_errs_closed p" using busy_worker [OF inv i] j by simp_all
  show ?thesis
  proof (cases res)
    case None
    then have "p' = p\<lparr>p_ws := (p_ws p)[i := Idle], p_wg := p_wg p - 1\<rparr>"
      using step i j b(1) by (simp add: wg_add_ok)
    then show ?thesis using inv ok i j b(2)
      by (simp add: pool_inv_def outstanding_def map_update sum_list_update_int)
  next
    case (Some e)
    then have "p' = p\<lparr>p_ws := (p_ws p)[i := Reporting (job_failed i e)]\<rparr>" using step i j by simp
    then show ?thesis using inv ok i j b(2)
      by (simp add: pool_inv_def outstanding_def map_update sum_list_update_int)
  qed
qed

lemma pool_inv_report:
  assumes inv: "pool_inv p" and ok: "p_panic p = None" and step: "report_err i p = Some p'"
  shows "pool_inv p'"
proof -
  obtain e where i: "i < length (p_ws p)" and e: "p_ws p ! i = Reporting e"
    using step by (auto simp: report_err_def split: if_splits worker.splits)
  have b: "1 \<le> p_wg p" "\<not> p_errs_closed p" using busy_worker [OF inv i] e by simp_all
  then have "p' = p\<lparr>p_errs := p_errs p @ [e], p_ws := (p_ws p)[i := Idle], p_wg := p_wg p - 1\<rparr>"
    and "length (p_errs p) < p_workers p"
    using step i e by (simp_all add: report_err_def wg_add_ok split: if_splits)
  then show ?thesis using inv ok i e b(2)
    by (simp add: pool_inv_def outstanding_def map_update sum_list_update_int)
qed

lemma pool_inv_close:
  assumes inv: "pool_inv p" and ok: "p_panic p = None"
  shows "close_closed p = Some p' \<Longrightarrow> pool_inv p'"
    and "close_jobs p = Some p' \<Longrightarrow> pool_inv p'"
    and "close_errs p = Some p' \<Longrightarrow> pool_inv p'"
proof -
  assume "close_closed p = Some p'"
  then have "p_closing p = 0" "p' = p\<lparr>p_closed := True, p_closing := 1\<rparr>"
    by (simp_all add: close_closed_def split: if_splits)
  then show "pool_inv p'" using inv ok by (simp add: pool_inv_def outstanding_def)
next
  assume "close_jobs p = Some p'"
  then have "p_closing p = 1" "p' = p\<lparr>p_jobs_closed := True, p_closing := 2\<rparr>"
    by (simp_all add: close_jobs_def split: if_splits)
  then show "pool_inv p'" using inv ok by (simp add: pool_inv_def outstanding_def)
next
  assume "close_errs p = Some p'"
  then have c: "p_closing p = 2" "p_wg p = 0" "p' = p\<lparr>p_errs_closed := True, p_closing := 3\<rparr>"
    by (simp_all add: close_errs_def split: if_splits)
  then have "outstanding p = 0" using inv by (simp add: pool_inv_def)
  from outstanding_zero [OF this] show "pool_inv p'"
    using inv ok c by (simp add: pool_inv_def outstanding_def)
qed

lemma pool_inv_read:
  assumes "pool_inv p" and "p_errs p = e # es"
  shows "pool_inv (p\<lparr>p_errs := es\<rparr>)"
  using assms unfolding pool_inv_def outstanding_def by (elim conjE, intro conjI) simp_all

lemmas pool_inv_intros = pool_inv_check pool_inv_add pool_inv_send pool_inv_undo pool_inv_take
  pool_inv_finish pool_inv_report pool_inv_exit pool_inv_close pool_inv_read

lemma pool_inv_step:
  assumes "pool_inv p" and "pool_step act p = Some p'"
  shows "pool_inv p'"
proof -
  have ok: "p_panic p = None" using assms(2) by (simp add: pool_step_def split: if_splits)
  show ?thesis
    by (cases act; insert assms ok; simp add: pool_step_def del: finish_job.simps split: list.splits;
        blast intro: pool_inv_intros)
qed

lemma reach_pool_inv: "pool_reach p \<Longrightarrow> pool_inv p"
  by (induction rule: pool_reach.induct) (auto simp: pool_inv_start pool_inv_step)

section \<open>Properties\<close>

fun pool_run :: "'j pool_action list \<Rightarrow> 'j WorkerPool \<Rightarrow> 'j WorkerPool option" where
  "pool_run [] p = Some p"
| "pool_run (a # as) p = (case pool_step a p of None \<Rightarrow> None | Some p' \<Rightarrow> pool_run as p')"

lemma reach_run: "pool_reach p \<Longrightarrow> pool_run as p = Some p' \<Longrightarrow> pool_reach p'"
  by (induction as arbitrary: p) (auto split: option.splits intro: pool_reach.step)

text \<open>\<^verbatim>\<open>Wait\<close> is sound: in every state the pool reaches, when the wait group is at zero no
  caller is about to send a job, no job is in the channel, and no worker is running one or reporting
  its error.\<close>

lemma wait_means_done:
  assumes "pool_reach p" and "p_wg p = 0"
  shows "q_added p = [] \<and> p_jobs p = [] \<and> (\<forall>w \<in> set (p_ws p). w = Idle \<or> w = Exited)"
proof -
  have z: "q_added p = [] \<and> p_jobs p = [] \<and> (\<Sum>w\<leftarrow>p_ws p. busy w) = 0"
    using reach_pool_inv [OF assms(1)] assms(2) by (intro outstanding_zero) (simp add: pool_inv_def)
  have "w = Idle \<or> w = Exited" if "w \<in> set (p_ws p)" for w
    using busy_le_sum [OF that] z by (cases w) simp_all
  with z show ?thesis by simp
qed



text \<open>That panic is reachable: a caller passes the check of \<^verbatim>\<open>QueueJob\<close> and adds to the wait
  group, \<^verbatim>\<open>Close\<close> closes both channels, and the caller's \<^verbatim>\<open>select\<close> sends on the closed one.\<close>

lemma queue_close_race:
  "pool_run [QueueCheck job, QueueAdd 0, CloseClosed, CloseJobs, QueueSend 0] (Start (NewWorkerPool (Suc n)))
   = Some p \<longleftrightarrow>
   p = (Start (NewWorkerPool (Suc n)))\<lparr>q_added := [job], p_wg := 1, p_closed := True, p_jobs_closed := True,
         p_closing := 2, p_panic := Some ''send on closed channel''\<rparr>"
  by (auto simp: pool_step_def queue_check_def queue_add_def queue_send_def close_closed_def close_jobs_def
      wg_add_def remove_at_def Start_def NewWorkerPool_def)

section \<open>Progress\<close>

text \<open>
  The workers stay as many as were started, and one that has left its loop found the channel of jobs
  closed and empty, which it stays.
\<close>

definition pool_workers_ok :: "'j WorkerPool \<Rightarrow> bool" where
  "pool_workers_ok p \<longleftrightarrow> length (p_ws p) = p_workers p \<and>
     (Exited \<in> set (p_ws p) \<longrightarrow> p_jobs p = [] \<and> p_jobs_closed p)"

lemma wg_add_fields [simp]:
  "p_ws (wg_add n p) = p_ws p" "p_workers (wg_add n p) = p_workers p" "p_jobs (wg_add n p) = p_jobs p"
  "p_jobs_closed (wg_add n p) = p_jobs_closed p" "q_checked (wg_add n p) = q_checked p"
  "q_added (wg_add n p) = q_added p" "p_errs (wg_add n p) = p_errs p" "p_closing (wg_add n p) = p_closing p"
  by (simp_all add: wg_add_def)

lemmas pool_op_defs = queue_check_def queue_add_def queue_send_def queue_undo_def take_job_def report_err_def
  exit_worker_def close_closed_def close_jobs_def close_errs_def

lemma exited_update: "Exited \<in> set (ws[i := w]) \<Longrightarrow> w \<noteq> Exited \<Longrightarrow> Exited \<in> set ws"
  by (metis insertE set_update_subset_insert subsetD)

lemma pool_workers_step:
  assumes "pool_workers_ok p" and "pool_step act p = Some p'"
  shows "pool_workers_ok p'"
  using assms
  by (cases act) (auto simp: pool_workers_ok_def pool_step_def pool_op_defs
      split: if_splits option.splits list.splits worker.splits dest: exited_update)

lemma reach_workers: "pool_reach p \<Longrightarrow> pool_workers_ok p"
proof (induction rule: pool_reach.induct)
  case (start workers)
  show ?case by (simp add: pool_workers_ok_def Start_def NewWorkerPool_def)
qed (rule pool_workers_step)

text \<open>A worker with a job can go on; when it cannot report, someone can read an error.\<close>

lemma busy_progress:
  assumes "p_panic p = None" and "i < length (p_ws p)" and "busy (p_ws p ! i) = 1" and "0 < p_workers p"
  shows "pool_step (Finish i None) p \<noteq> None \<or> pool_step (Report i) p \<noteq> None \<or> pool_step ReadErr p \<noteq> None"
  using assms
  by (cases "p_ws p ! i"; cases "p_errs p") (auto simp: pool_step_def report_err_def)

lemma take_progress:
  assumes "p_panic p = None" and "i < length (p_ws p)" and "p_ws p ! i = Idle" and "p_jobs p \<noteq> []"
  shows "pool_step (Take i) p \<noteq> None"
  using assms by (auto simp: pool_step_def take_job_def split: list.split)

definition is_queue_check :: "'j pool_action \<Rightarrow> bool" where
  "is_queue_check act = (case act of QueueCheck j \<Rightarrow> True | _ \<Rightarrow> False)"

lemma is_queue_check_simps [simp]:
  "is_queue_check (QueueCheck j)" "\<not> is_queue_check (QueueAdd i)" "\<not> is_queue_check (QueueSend i)"
  "\<not> is_queue_check (QueueUndo i)" "\<not> is_queue_check (Take i)" "\<not> is_queue_check (Finish i r)"
  "\<not> is_queue_check (Report i)" "\<not> is_queue_check (Exit i)" "\<not> is_queue_check ReadErr"
  "\<not> is_queue_check CloseClosed" "\<not> is_queue_check CloseJobs" "\<not> is_queue_check CloseErrs"
  by (simp_all add: is_queue_check_def)

text \<open>What the workers, a caller about to send and the reader of errors do, without \<^verbatim>\<open>Close\<close>.\<close>

definition drains :: "'j pool_action \<Rightarrow> bool" where
  "drains act = (case act of Take i \<Rightarrow> True | Finish i r \<Rightarrow> True | Report i \<Rightarrow> True | QueueSend i \<Rightarrow> True | ReadErr \<Rightarrow> True | _ \<Rightarrow> False)"

lemma drains_simps [simp]:
  "drains (Take i)" "drains (Finish i r)" "drains (Report i)" "drains (QueueSend i)" "drains ReadErr"
  by (simp_all add: drains_def)

definition can_step :: "'j WorkerPool \<Rightarrow> bool" where
  "can_step p \<longleftrightarrow> (\<exists>act. drains act \<and> pool_step act p \<noteq> None)"

lemma can_stepI: "pool_step act p \<noteq> None \<Longrightarrow> drains act \<Longrightarrow> can_step p"
  unfolding can_step_def by blast

text \<open>With a job in the channel some worker can take it or go on with its own.\<close>

lemma jobs_progress:
  assumes ok: "pool_workers_ok p" and "p_panic p = None" and "0 < p_workers p" and "p_jobs p \<noteq> []"
  shows "can_step p"
proof -
  have len: "0 < length (p_ws p)" and "Exited \<notin> set (p_ws p)"
    using assms by (auto simp: pool_workers_ok_def)
  then have "p_ws p ! 0 \<noteq> Exited" by (metis nth_mem)
  then show ?thesis
    using take_progress [OF assms(2) len _ assms(4)] busy_progress [OF assms(2) len _ assms(3)]
    by (cases "p_ws p ! 0") (auto simp del: not_None_eq intro: can_stepI)
qed

lemma pool_progress:
  assumes reach: "pool_reach p" and "p_panic p = None" and "0 < p_workers p" and wg: "p_wg p \<noteq> 0"
  shows "\<exists>act p'. drains act \<and> pool_step act p = Some p'"
proof -
  note inv = reach_pool_inv [OF reach] and ok = reach_workers [OF reach]
  consider (added) "q_added p \<noteq> []" | (jobs) "p_jobs p \<noteq> []" | (busy) "(\<Sum>w\<leftarrow>p_ws p. busy w) \<noteq> 0"
    using inv wg unfolding pool_inv_def outstanding_def by fastforce
  then have "can_step p"
  proof cases
    case added
    show ?thesis
    proof (cases "p_jobs p = []")
      case True
      then have "pool_step (QueueSend 0) p \<noteq> None"
        using added assms(2,3) by (simp add: pool_step_def queue_send_def)
      then show ?thesis by (rule can_stepI) simp
    next
      case False
      then show ?thesis by (rule jobs_progress [OF ok assms(2,3)])
    qed
  next
    case jobs
    then show ?thesis by (rule jobs_progress [OF ok assms(2,3)])
  next
    case busy
    then obtain w where "w \<in> set (p_ws p)" "busy w \<noteq> 0"
      by (metis (mono_tags, lifting) map_eq_conv sum_list_0)
    then obtain i where "i < length (p_ws p)" "busy (p_ws p ! i) = 1"
      by (metis busy.simps(1,2,3,4) in_set_conv_nth worker.exhaust)
    from busy_progress [OF assms(2) this assms(3)] show ?thesis
      by (elim disjE) (erule can_stepI, simp)+
  qed
  then show ?thesis by (auto simp: can_step_def)
qed

text \<open>Every step but a new \<^verbatim>\<open>QueueJob\<close> uses the pool up.\<close>

fun worker_weight :: "'j worker \<Rightarrow> nat" where
  "worker_weight (Running j) = 4"
| "worker_weight (Reporting e) = 3"
| "worker_weight Idle = 1"
| "worker_weight Exited = 0"

definition pool_weight :: "'j WorkerPool \<Rightarrow> nat" where
  "pool_weight p = 6 * length (q_checked p) + 5 * length (q_added p) + 4 * length (p_jobs p) +
     (\<Sum>w\<leftarrow>p_ws p. worker_weight w) + length (p_errs p) + (3 - p_closing p) +
     (if p_panic p = None then 1 else 0)"

lemma pool_weight_step:
  assumes "pool_step act p = Some p'" and "\<not> is_queue_check act"
  shows "pool_weight p' < pool_weight p"
proof (cases act)
  case (Take i)
  then obtain j js where i: "i < length (p_ws p)" "p_ws p ! i = Idle" and j: "p_jobs p = j # js" "p_panic p = None"
    and p': "p' = p\<lparr>p_jobs := js, p_ws := (p_ws p)[i := Running j]\<rparr>"
    using assms by (auto simp: pool_step_def take_job_def split: if_splits list.splits)
  then show ?thesis using sum_list_update_add [OF i(1), of worker_weight "Running j"] by (simp add: pool_weight_def)
next
  case (Finish i r)
  then show ?thesis using assms sum_list_update_add [of i "p_ws p" worker_weight Idle]
      sum_list_update_add [of i "p_ws p" worker_weight "Reporting (job_failed i (the r))"]
    by (auto simp: pool_weight_def pool_step_def wg_add_def split: if_splits option.splits worker.splits)
next
  case (Report i)
  then show ?thesis using assms sum_list_update_add [of i "p_ws p" worker_weight Idle]
    by (auto simp: pool_weight_def pool_step_def report_err_def wg_add_def split: if_splits worker.splits)
next
  case (Exit i)
  then show ?thesis using assms sum_list_update_add [of i "p_ws p" worker_weight Exited]
    by (auto simp: pool_weight_def pool_step_def exit_worker_def split: if_splits)
qed (use assms in \<open>auto simp: pool_weight_def pool_step_def pool_op_defs wg_add_def
      split: if_splits option.splits list.splits\<close>)

lemma pool_step_workers: "pool_step act p = Some p' \<Longrightarrow> p_workers p' = p_workers p"
  by (cases act) (auto simp: pool_step_def pool_op_defs split: if_splits option.splits list.splits worker.splits)

lemma pool_run_weight:
  "pool_run as p = Some p' \<Longrightarrow> list_all (\<lambda>a. \<not> is_queue_check a) as \<Longrightarrow>
   length as + pool_weight p' \<le> pool_weight p \<and> p_workers p' = p_workers p"
proof (induction as arbitrary: p)
  case (Cons a as)
  then obtain q where q: "pool_step a p = Some q" "pool_run as q = Some p'" by (auto split: option.splits)
  then show ?case
    using Cons.IH [OF q(2)] Cons.prems pool_weight_step [OF q(1)] pool_step_workers [OF q(1)] by simp
qed simp



end
