(* ===== verification/Stress.thy ===== *)
theory Stress
  imports GoFloatRound Reachability Rpc WorkerPool Cli
begin

text \<open>
  \<^verbatim>\<open>cmd/stress/main.go\<close>: the flags of the stress client, the requests it makes up, the jobs it
  puts on the worker pool, and what it reports. The random numbers of \<^verbatim>\<open>math/rand\<close>, the parser of
  URLs, the clock, the UUID and the call of a procedure are parameters.
\<close>

section \<open>Flags\<close>

record flags =
  fl_serviceURL :: string
  fl_numDevices :: int
  fl_intervalMS :: int

text \<open>
  \<open>parse_uri\<close> is \<^verbatim>\<open>url.ParseRequestURI\<close> without its result; errors in the flags end the process,
  which \<open>Inl\<close> stands for.
\<close>

definition parseFlags :: "(string \<Rightarrow> go_error option) \<Rightarrow> string \<Rightarrow> int \<Rightarrow> int \<Rightarrow> string list + flags" where
  "parseFlags parse_uri url devices interval =
     (let flagErrs =
        (if url = [] then [''url: cannot be empty'']
         else if parse_uri url \<noteq> None then [''url: invalid format''] else []) @
        (if devices \<le> 0 then [''devices: must be greater than zero''] else []) @
        (if interval < 0 then [''interval: must be non negative''] else [])
      in if flagErrs \<noteq> [] then Inl flagErrs
         else Inr \<lparr>fl_serviceURL = url, fl_numDevices = devices, fl_intervalMS = interval\<rparr>)"

section \<open>Random readings\<close>

text \<open>
  \<open>Float64\<close> and \<open>Int31n\<close> draw from a generator \<open>'g\<close>; \<^verbatim>\<open>rand.Int31n\<close> panics when its argument is
  not positive. \<^verbatim>\<open>math.Pow(10, 2)\<close> is 100.
\<close>

definition randFloat64 :: "('g \<Rightarrow> float64 \<times> 'g) \<Rightarrow> float64 \<Rightarrow> float64 \<Rightarrow> 'g \<Rightarrow> float64 \<times> 'g" where
  "randFloat64 Float64 mn mx g =
     (case Float64 g of (r, g') \<Rightarrow>
        let f = f_add mn (f_mul r (f_sub mx mn)); scale = FFin False 100 0
        in (f_div (f_trunc (f_mul f scale)) scale, g'))"

definition randInt32 :: "(int \<Rightarrow> 'g \<Rightarrow> int \<times> 'g) \<Rightarrow> int \<Rightarrow> int \<Rightarrow> ('g, go_error, int) run" where
  "randInt32 Int31n mn mx g =
     (if to_int32 (mx - mn) \<le> 0 then (Panic ''invalid argument to Int31n'', g)
      else case Int31n (to_int32 (mx - mn)) g of (n, g') \<Rightarrow> (Ok (to_int32 (mn + n)), g'))"

section \<open>Requests\<close>

definition tempThresh :: float64 where "tempThresh = FFin False 50 0"
definition batteryThresh :: int where "batteryThresh = 50"

text \<open>\<^verbatim>\<open>strings.SplitN(id, "-", 2)[0]\<close>.\<close>

definition session_id :: "string \<Rightarrow> string" where
  "session_id uuid = takeWhile ((\<noteq>) (CHR ''-'')) uuid"

definition getDeviceID :: "string \<Rightarrow> int \<Rightarrow> string" where
  "getDeviceID sessionID i = ''session-'' @ sessionID @ ''-device-'' @ int_dec i"

definition configure_request :: "string \<Rightarrow> int \<Rightarrow> ConfigureDeviceRequestPb" where
  "configure_request sessionID i = \<lparr>pcd_DeviceId = getDeviceID sessionID i,
     pcd_TemperatureThreshold = tempThresh, pcd_BatteryThreshold = batteryThresh\<rparr>"

definition metric_request ::
  "('g \<Rightarrow> float64 \<times> 'g) \<Rightarrow> (int \<Rightarrow> 'g \<Rightarrow> int \<times> 'g) \<Rightarrow> 't \<Rightarrow> string \<Rightarrow> int \<Rightarrow> ('g, go_error, 't RecordMetricRequestPb) run" where
  "metric_request Float64 Int31n now sessionID i g =
     (case randFloat64 Float64 f_zero (f_mul tempThresh (FFin False 2 0)) g of
        (temperature, g) \<Rightarrow>
          on_ok (randInt32 Int31n 0 (to_int32 (batteryThresh * 2)))
            (\<lambda>battery g. (Ok \<lparr>prm_DeviceId = getDeviceID sessionID i, prm_Timestamp = Some now,
               prm_Temperature = temperature, prm_Battery = battery\<rparr>, g)) g)"

section \<open>Jobs\<close>

text \<open>
  A job runs on the world of the client and the output of its logger. The error of a configuration is
  printed (\<^verbatim>\<open>%v\<close>) into a new one, that of a metric is wrapped (\<^verbatim>\<open>%w\<close>). \<open>show_err\<close> is
  \<^verbatim>\<open>Error()\<close>.
\<close>

definition quoted :: "string \<Rightarrow> string" where
  "quoted s = CHR 0x27 # s @ [CHR 0x27]"

definition configure_job ::
  "('o procedure_client \<Rightarrow> ConfigureDeviceRequestPb \<Rightarrow> ('w, go_error, unit) run) \<Rightarrow> (go_error \<Rightarrow> string) \<Rightarrow> Logger
   \<Rightarrow> 'o deviceServiceClient \<Rightarrow> string \<Rightarrow> int \<Rightarrow> ('w \<times> LogEntry list, go_error, unit) run" where
  "configure_job CallUnary show_err logger client sessionID i w =
     (let deviceID = getDeviceID sessionID i
      in case client_ConfigureDevice CallUnary client (configure_request sessionID i) (fst w) of
           (Ok _, w') \<Rightarrow> (Ok (), (w', logger_Info logger ''configure device''
             [(''device_id'', LStr deviceID), (''temperature_threshold'', LFloat tempThresh),
              (''battery_threshold'', LInt batteryThresh)] (snd w)))
         | (Err err, w') \<Rightarrow>
             (Err (ErrNew (''configure device '' @ quoted deviceID @ '': '' @ show_err err)), (w', snd w))
         | (Panic p, w') \<Rightarrow> (Panic p, (w', snd w)))"

definition metric_job ::
  "('o procedure_client \<Rightarrow> 't RecordMetricRequestPb \<Rightarrow> ('w, go_error, unit) run) \<Rightarrow> Logger
   \<Rightarrow> 'o deviceServiceClient \<Rightarrow> 't RecordMetricRequestPb \<Rightarrow> ('w \<times> LogEntry list, go_error, unit) run" where
  "metric_job CallUnary logger client req w =
     (case client_RecordMetric CallUnary client req (fst w) of
        (Ok _, w') \<Rightarrow> (Ok (), (w', logger_Info logger ''recorded device metric''
          [(''device_id'', LStr (prm_DeviceId req)), (''temperature'', LFloat (prm_Temperature req)),
           (''battery'', LInt (prm_Battery req))] (snd w)))
      | (Err err, w') \<Rightarrow>
          (Err (ErrWrapf (''record device '' @ quoted (prm_DeviceId req) @ '' metric'') err), (w', snd w))
      | (Panic p, w') \<Rightarrow> (Panic p, (w', snd w)))"

section \<open>The order of the jobs\<close>

text \<open>
  \<^verbatim>\<open>run\<close> queues a configuration for every device and then, round after round, a metric for every
  device. The theory \<open>StressRun\<close> models how it does.
\<close>

datatype stress_job = ConfigureJob int | MetricJob int

definition setup_jobs :: "flags \<Rightarrow> stress_job list" where
  "setup_jobs f = map (ConfigureJob \<circ> int) [0..<nat (fl_numDevices f)]"

text \<open>The loop over the errors of the pool: those of a cancelled context are not logged.\<close>

fun report_errors :: "Logger \<Rightarrow> go_error list \<Rightarrow> LogEntry list \<Rightarrow> LogEntry list" where
  "report_errors logger [] out = out"
| "report_errors logger (err # errs) out =
     report_errors logger errs
       (if errors_Is err ErrCanceled then out
        else logger_Error logger ''worker job failed'' [(''error'', LErr err)] out)"

section \<open>What the client sends is accepted\<close>

text \<open>The documented behaviour of the random numbers.\<close>

definition draws_float :: "('g \<Rightarrow> float64 \<times> 'g) \<Rightarrow> bool" where
  "draws_float Float64 \<longleftrightarrow> (\<forall>g. \<exists>m e. fst (Float64 g) = FFin False m e \<and> real m * 2 powi e < 1)"

definition draws_int :: "(int \<Rightarrow> 'g \<Rightarrow> int \<times> 'g) \<Rightarrow> bool" where
  "draws_int Int31n \<longleftrightarrow> (\<forall>n g. 0 < n \<longrightarrow> 0 \<le> fst (Int31n n g) \<and> fst (Int31n n g) < n)"

lemma double_threshold: "f_mul tempThresh (FFin False 2 0) = FFin False 100 0"
  "f_sub (FFin False 100 0) f_zero = FFin False 100 0"
  by code_simp+

lemma randFloat64_below:
  assumes "draws_float Float64"
  shows "below_int 100 (fst (randFloat64 Float64 f_zero (f_mul tempThresh (FFin False 2 0)) g))"
proof -
  obtain r g' where r: "Float64 g = (r, g')" by fastforce
  have "below_int 1 r"
    using assms [unfolded draws_float_def, rule_format, of g] r by (auto simp: below_int_def)
  then have "below_int (1 * 100) (f_mul r (FFin False 100 0))" by (rule f_mul_below) simp
  then have "below_int 100 (f_add f_zero (f_mul r (FFin False 100 0)))" by (intro f_add_zero_below) simp_all
  then have "below_int (100 * 100) (f_mul (f_add f_zero (f_mul r (FFin False 100 0))) (FFin False 100 0))"
    by (rule f_mul_below) simp
  from f_div_below [OF f_trunc_below [OF this]]
  show ?thesis by (simp add: randFloat64_def r double_threshold Let_def)
qed

lemma device_id_not_blank: "\<not> isBlank (getDeviceID sid i)"
  unfolding getDeviceID_def by (simp add: not_isBlank_first ascii_space_def)

lemma int_dec_inj: "int_dec i = int_dec j \<Longrightarrow> 0 \<le> i \<Longrightarrow> 0 \<le> j \<Longrightarrow> i = j"
  by (simp add: int_dec_def) (metis eq_nat_nat_iff nat_undec_nat_dec)

lemma device_ids_distinct: "0 \<le> i \<Longrightarrow> 0 \<le> j \<Longrightarrow> getDeviceID sid i = getDeviceID sid j \<longleftrightarrow> i = j"
  by (auto simp: getDeviceID_def dest: int_dec_inj)

text \<open>The requests are in order.\<close>

lemma metric_request_valid:
  assumes "draws_float Float64" and "draws_int Int31n" and "\<not> t_IsZero (AsTime now)"
  shows "\<exists>msg g'. metric_request Float64 Int31n now sid i g = (Ok msg, g') \<and> prm_DeviceId msg = getDeviceID sid i \<and>
    f_finite (prm_Temperature msg) \<and> 0 \<le> f_real (prm_Temperature msg) \<and> f_real (prm_Temperature msg) \<le> 100 \<and>
    0 \<le> prm_Battery msg \<and> prm_Battery msg < 100 \<and>
    validateRecordMetricReq (record_request_of AsTime msg) = None \<and> \<not> is_nan (rmr_Temperature (record_request_of AsTime msg))"
proof -
  obtain t g1 where t: "randFloat64 Float64 f_zero (f_mul tempThresh (FFin False 2 0)) g = (t, g1)" by fastforce
  have below: "f_finite t \<and> 0 \<le> f_real t \<and> f_real t \<le> real 100"
    using below_int_real [OF randFloat64_below [OF assms(1)]] t by (metis fst_conv)
  have b100: "to_int32 (batteryThresh * 2) = 100" by code_simp
  obtain n g2 where n: "Int31n 100 g1 = (n, g2)" by fastforce
  have n_range: "0 \<le> n" "n < 100" using assms(2) [unfolded draws_int_def, rule_format, of 100 g1] n by simp_all
  then have battery: "randInt32 Int31n 0 (to_int32 (batteryThresh * 2)) g1 = (Ok n, g2)"
    unfolding b100 by (simp add: randInt32_def n in_int32_def)
  define msg where "msg = \<lparr>prm_DeviceId = getDeviceID sid i, prm_Timestamp = Some now, prm_Temperature = t, prm_Battery = n\<rparr>"
  have req: "metric_request Float64 Int31n now sid i g = (Ok msg, g2)"
    by (simp add: metric_request_def t battery msg_def)
  have t_ok: "temperature_ok t" "\<not> is_nan t" using below by (auto simp: temperature_ok_def is_nan_def)
  have "validateRecordMetricReq (record_request_of AsTime msg) = None" "\<not> is_nan (rmr_Temperature (record_request_of AsTime msg))"
    using t_ok n_range assms(3)
    by (simp_all add: validateRecord_None_iff record_request_of_def msg_def device_id_not_blank battery_ok_def)
  then show ?thesis using req below n_range by (intro exI [of _ msg] exI [of _ g2]) (simp add: msg_def)
qed

lemma configure_request_valid:
  fixes sid :: string and i :: int
  defines "req \<equiv> \<lparr>cdr_DeviceID = getDeviceID sid i, cdr_TemperatureThreshold = tempThresh, cdr_BatteryThreshold = batteryThresh\<rparr>"
  shows "validateConfigureDeviceReq req = None" "\<not> is_nan (cdr_TemperatureThreshold req)"
  by (simp_all add: req_def validateConfigure_None_iff device_id_not_blank temperature_ok_def battery_ok_def
      tempThresh_def batteryThresh_def is_nan_def signed_def)

text \<open>What the stress client makes up, the service accepts: every random metric has a temperature from 0 to
  100 and a battery level from 0 to 99, and on a healthy database the server's handler records it; and
  so it does the configuration sent before.\<close>

lemma stress_requests_accepted:
  assumes "draws_float Float64" and "draws_int Int31n" and "\<not> t_IsZero (AsTime now)"
    and "db_inv (st_store w)" and "healthy 3 (st_store w)"
  shows "\<exists>msg g' w1 w2. metric_request Float64 Int31n now sid i g = (Ok msg, g') \<and>
    f_finite (prm_Temperature msg) \<and> 0 \<le> f_real (prm_Temperature msg) \<and> f_real (prm_Temperature msg) \<le> 100 \<and>
    0 \<le> prm_Battery msg \<and> prm_Battery msg < 100 \<and>
    ConfigureDevice_connect (svc l) (configure_request sid i) w = (Ok (), w1) \<and>
    RecordMetric_connect AsTime (svc l) msg w1 = (Ok (), w2)"
proof -
  obtain msg g' where req: "metric_request Float64 Int31n now sid i g = (Ok msg, g')"
    and ranges: "f_finite (prm_Temperature msg) \<and> 0 \<le> f_real (prm_Temperature msg) \<and> f_real (prm_Temperature msg) \<le> 100 \<and>
      0 \<le> prm_Battery msg \<and> prm_Battery msg < 100"
    and valid: "validateRecordMetricReq (record_request_of AsTime msg) = None" "\<not> is_nan (rmr_Temperature (record_request_of AsTime msg))"
    using metric_request_valid [where AsTime = AsTime and now = now, OF assms(1-3)] by blast
  let ?creq = "\<lparr>cdr_DeviceID = getDeviceID sid i, cdr_TemperatureThreshold = tempThresh, cdr_BatteryThreshold = batteryThresh\<rparr>"
  obtain w1 where w1: "ConfigureDevice (svc l) ?creq w = (Ok (), w1)" "healthy 3 (st_store w1)"
    using store.configure_live [OF assms(4,5) svc_repo configure_request_valid] by blast
  have inv1: "db_inv (st_store w1)" using store.configure_effect [OF assms(4) svc_repo w1(1)] by simp
  from store.record_live [OF inv1 w1(2) svc_repo valid, of l] obtain w2 where
    "RecordMetric (svc l) (record_request_of AsTime msg) w1 = (Ok (), w2)" by blast
  then show ?thesis using req ranges w1(1)
    by (intro exI [of _ msg] exI [of _ g'] exI [of _ w1] exI [of _ w2])
      (simp add: ConfigureDevice_connect_def configure_request_def RecordMetric_connect_def)
qed

text \<open>A source of numbers: it always draws three quarters, and one less than the bound.\<close>

definition demo_float :: "unit \<Rightarrow> float64 \<times> unit" where
  "demo_float g = (FFin False 3 (- 2), g)"

definition demo_int :: "int \<Rightarrow> unit \<Rightarrow> int \<times> unit" where
  "demo_int n g = (n - 1, g)"

lemma demo_draws: "draws_float demo_float" "draws_int demo_int"
  by (simp_all add: draws_float_def demo_float_def power_int_def power2_eq_square draws_int_def demo_int_def)

end
