(* ===== verification/StressRun.thy ===== *)
theory StressRun
  imports Stress
begin

text \<open>
  \<^verbatim>\<open>run\<close> of \<^verbatim>\<open>cmd/stress/main.go\<close> on its worker pool: the goroutine of \<^verbatim>\<open>run\<close>, the one
  that waits for the setup, the one that simulates metrics, the one that closes the pool, the
  workers and the interrupt, each a component of one step function. What a job returns is an input
  of the worker's step, whatever the server answers.
\<close>

section \<open>State\<close>

text \<open>
  Where the goroutine of \<^verbatim>\<open>run\<close> is: in the loop over the devices, inside its \<^verbatim>\<open>QueueJob\<close> after
  the check and after the addition, in the \<^verbatim>\<open>select\<close> after the setup, or in the loop over the
  errors. The same for the goroutine that simulates metrics.
\<close>

datatype main_pc = Configuring nat | ConfigAdd nat | ConfigSend nat | AwaitSetup | ReadErrors
  | RunEnded "go_error option"

datatype sim_pc = SimIdle | SimLoop nat | SimCheck nat | SimAdd nat | SimSend nat | SimPause | SimStopped

text \<open>
  The last four fields are history: the jobs \<^verbatim>\<open>QueueJob\<close> was called with, those it dropped because
  the pool was closed, the jobs the workers ran with their results, and the errors read.
\<close>

record stress_state =
  ss_pool :: "stress_job WorkerPool"
  ss_main :: main_pc
  ss_sim :: sim_pc
  ss_cfgsDone :: bool
  ss_interrupted :: bool
  ss_asked :: "stress_job list"
  ss_dropped :: "stress_job list"
  ss_ran :: "(nat \<times> stress_job \<times> go_error option) list"
  ss_read :: "go_error list"

abbreviation devices :: "flags \<Rightarrow> nat" where
  "devices f \<equiv> nat (fl_numDevices f)"

definition stress_start :: "flags \<Rightarrow> stress_state" where
  "stress_start f = \<lparr>ss_pool = Start (NewWorkerPool (devices f)), ss_main = Configuring 0, ss_sim = SimIdle,
     ss_cfgsDone = False, ss_interrupted = False, ss_asked = [], ss_dropped = [], ss_ran = [], ss_read = []\<rparr>"

section \<open>Steps\<close>

definition on_pool :: "stress_job pool_action \<Rightarrow> stress_state \<Rightarrow> stress_state option" where
  "on_pool act s = map_option (\<lambda>p. s\<lparr>ss_pool := p\<rparr>) (pool_step act (ss_pool s))"

text \<open>The check of \<^verbatim>\<open>QueueJob\<close>; on a closed pool the call returns with the job dropped.\<close>

definition ask :: "stress_job \<Rightarrow> stress_state \<Rightarrow> stress_state option" where
  "ask job s = map_option
     (\<lambda>s. s\<lparr>ss_asked := ss_asked s @ [job],
            ss_dropped := ss_dropped s @ (if p_closed (ss_pool s) then [job] else [])\<rparr>)
     (on_pool (QueueCheck job) s)"

definition main_step :: "flags \<Rightarrow> stress_state \<Rightarrow> stress_state option" where
  "main_step f s =
     (case ss_main s of
        Configuring i \<Rightarrow>
          if i < devices f then
            map_option (\<lambda>s. s\<lparr>ss_main := if p_closed (ss_pool s) then Configuring (Suc i) else ConfigAdd i\<rparr>)
              (ask (ConfigureJob (int i)) s)
          else Some (s\<lparr>ss_main := AwaitSetup\<rparr>)
      | ConfigAdd i \<Rightarrow> map_option (\<lambda>s. s\<lparr>ss_main := ConfigSend i\<rparr>) (on_pool (QueueAdd 0) s)
      | ConfigSend i \<Rightarrow> map_option (\<lambda>s. s\<lparr>ss_main := Configuring (Suc i)\<rparr>) (on_pool (QueueSend 0) s)
      | AwaitSetup \<Rightarrow> if ss_cfgsDone s then Some (s\<lparr>ss_main := ReadErrors, ss_sim := SimLoop 0\<rparr>) else None
      | ReadErrors \<Rightarrow>
          (case p_errs (ss_pool s) of
             e # es \<Rightarrow> map_option (\<lambda>s. s\<lparr>ss_read := ss_read s @ [e]\<rparr>) (on_pool ReadErr s)
           | [] \<Rightarrow> if p_errs_closed (ss_pool s) then Some (s\<lparr>ss_main := RunEnded None\<rparr>) else None)
      | RunEnded res \<Rightarrow> None)"

definition main_undo :: "stress_state \<Rightarrow> stress_state option" where
  "main_undo s =
     (case ss_main s of
        ConfigSend i \<Rightarrow> map_option
          (\<lambda>s. s\<lparr>ss_main := Configuring (Suc i), ss_dropped := ss_dropped s @ [ConfigureJob (int i)]\<rparr>)
          (on_pool (QueueUndo 0) s)
      | _ \<Rightarrow> None)"

text \<open>The other branch of the \<^verbatim>\<open>select\<close> after the setup: an error of the pool ends the run.\<close>

definition setup_error :: "stress_state \<Rightarrow> stress_state option" where
  "setup_error s =
     (case ss_main s of
        AwaitSetup \<Rightarrow>
          (case p_errs (ss_pool s) of
             e # es \<Rightarrow> map_option
               (\<lambda>s. s\<lparr>ss_read := ss_read s @ [e], ss_main := RunEnded (Some (ErrWrapf ''setup devices'' e))\<rparr>)
               (on_pool ReadErr s)
           | [] \<Rightarrow> if p_errs_closed (ss_pool s) then Some (s\<lparr>ss_main := ReadErrors, ss_sim := SimLoop 0\<rparr>) else None)
      | _ \<Rightarrow> None)"

definition setup_waited :: "stress_state \<Rightarrow> stress_state option" where
  "setup_waited s =
     (if (ss_main s = AwaitSetup \<or> ss_main s = ReadErrors) \<and> p_wg (ss_pool s) = 0 \<and> \<not> ss_cfgsDone s
      then Some (s\<lparr>ss_cfgsDone := True\<rparr>) else None)"

definition sim_step :: "flags \<Rightarrow> stress_state \<Rightarrow> stress_state option" where
  "sim_step f s =
     (case ss_sim s of
        SimLoop i \<Rightarrow>
          Some (s\<lparr>ss_sim := if devices f \<le> i then SimPause else if ss_interrupted s then SimStopped else SimCheck i\<rparr>)
      | SimCheck i \<Rightarrow>
          map_option (\<lambda>s. s\<lparr>ss_sim := if p_closed (ss_pool s) then SimLoop (Suc i) else SimAdd i\<rparr>)
            (ask (MetricJob (int i)) s)
      | SimAdd i \<Rightarrow> map_option (\<lambda>s. s\<lparr>ss_sim := SimSend i\<rparr>) (on_pool (QueueAdd 0) s)
      | SimSend i \<Rightarrow> map_option (\<lambda>s. s\<lparr>ss_sim := SimLoop (Suc i)\<rparr>) (on_pool (QueueSend 0) s)
      | SimPause \<Rightarrow> Some (s\<lparr>ss_sim := SimLoop 0\<rparr>)
      | _ \<Rightarrow> None)"

definition sim_undo :: "stress_state \<Rightarrow> stress_state option" where
  "sim_undo s =
     (case ss_sim s of
        SimSend i \<Rightarrow> map_option
          (\<lambda>s. s\<lparr>ss_sim := SimLoop (Suc i), ss_dropped := ss_dropped s @ [MetricJob (int i)]\<rparr>)
          (on_pool (QueueUndo 0) s)
      | _ \<Rightarrow> None)"

definition sim_cancel :: "stress_state \<Rightarrow> stress_state option" where
  "sim_cancel s = (if ss_sim s = SimPause \<and> ss_interrupted s then Some (s\<lparr>ss_sim := SimStopped\<rparr>) else None)"

text \<open>The goroutine that closes the pool starts with the simulation.\<close>

definition closer_step :: "stress_state \<Rightarrow> stress_state option" where
  "closer_step s =
     (if ss_sim s \<noteq> SimIdle \<and> ss_interrupted s then
        on_pool (if p_closing (ss_pool s) = 0 then CloseClosed
                 else if p_closing (ss_pool s) = 1 then CloseJobs else CloseErrs) s
      else None)"

definition worker_finish :: "nat \<Rightarrow> go_error option \<Rightarrow> stress_state \<Rightarrow> stress_state option" where
  "worker_finish w res s =
     (case p_ws (ss_pool s) ! w of
        Running job \<Rightarrow> map_option (\<lambda>s. s\<lparr>ss_ran := ss_ran s @ [(w, job, res)]\<rparr>) (on_pool (Finish w res) s)
      | _ \<Rightarrow> None)"

datatype stress_action = MainStep | MainUndo | SetupError | SetupWaited | SimStep | SimUndo | SimCancel
  | CloserStep | WorkerTake nat | WorkerFinish nat "go_error option" | WorkerReport nat | WorkerExit nat | Interrupt

text \<open>A panic ends the process, and so does the return of \<^verbatim>\<open>run\<close>.\<close>

definition stress_over :: "stress_state \<Rightarrow> bool" where
  "stress_over s = (p_panic (ss_pool s) \<noteq> None \<or> (case ss_main s of RunEnded r \<Rightarrow> True | _ \<Rightarrow> False))"

definition stress_step :: "flags \<Rightarrow> stress_action \<Rightarrow> stress_state \<Rightarrow> stress_state option" where
  "stress_step f act s =
     (if stress_over s then None
      else case act of
        MainStep \<Rightarrow> main_step f s
      | MainUndo \<Rightarrow> main_undo s
      | SetupError \<Rightarrow> setup_error s
      | SetupWaited \<Rightarrow> setup_waited s
      | SimStep \<Rightarrow> sim_step f s
      | SimUndo \<Rightarrow> sim_undo s
      | SimCancel \<Rightarrow> sim_cancel s
      | CloserStep \<Rightarrow> closer_step s
      | WorkerTake w \<Rightarrow> on_pool (Take w) s
      | WorkerFinish w res \<Rightarrow> worker_finish w res s
      | WorkerReport w \<Rightarrow> on_pool (Report w) s
      | WorkerExit w \<Rightarrow> on_pool (Exit w) s
      | Interrupt \<Rightarrow> if ss_interrupted s then None else Some (s\<lparr>ss_interrupted := True\<rparr>))"

fun stress_exec :: "flags \<Rightarrow> stress_action list \<Rightarrow> stress_state \<Rightarrow> stress_state option" where
  "stress_exec f [] s = Some s"
| "stress_exec f (a # as) s = (case stress_step f a s of None \<Rightarrow> None | Some s' \<Rightarrow> stress_exec f as s')"

inductive stress_reach :: "flags \<Rightarrow> stress_state \<Rightarrow> bool" for f where
  start: "stress_reach f (stress_start f)"
| step: "stress_reach f s \<Longrightarrow> stress_step f act s = Some s' \<Longrightarrow> stress_reach f s'"

lemma stress_reach_exec: "stress_reach f s \<Longrightarrow> stress_exec f as s = Some s' \<Longrightarrow> stress_reach f s'"
  by (induction as arbitrary: s) (auto split: option.splits intro: stress_reach.step)

lemmas stress_op_defs = main_step_def main_undo_def setup_error_def setup_waited_def sim_step_def sim_undo_def
  sim_cancel_def closer_step_def worker_finish_def ask_def on_pool_def

text \<open>The pool of a run is a pool.\<close>

lemma stress_step_pool:
  assumes "stress_step f act s = Some s'"
  shows "ss_pool s' = ss_pool s \<or> (\<exists>a. pool_step a (ss_pool s) = Some (ss_pool s'))"
  using assms
  by (cases act) (auto simp: stress_step_def stress_op_defs
      split: if_splits main_pc.splits sim_pc.splits list.splits worker.splits)

lemma stress_pool_reach: "stress_reach f s \<Longrightarrow> pool_reach (ss_pool s) \<and> p_workers (ss_pool s) = devices f"
proof (induction rule: stress_reach.induct)
  case start
  show ?case by (simp add: stress_start_def pool_reach.start) (simp add: Start_def NewWorkerPool_def)
next
  case (step s act s')
  from stress_step_pool [OF step.hyps(2)] show ?case
    using step.IH by (auto intro: pool_reach.step simp: pool_step_workers)
qed

section \<open>What the pool holds\<close>

fun running :: "'j worker \<Rightarrow> 'j multiset" where
  "running (Running j) = {#j#}"
| "running w = {#}"

fun reporting :: "'j worker \<Rightarrow> go_error multiset" where
  "reporting (Reporting e) = {#e#}"
| "reporting w = {#}"

text \<open>The jobs the pool has been given and not finished, and the errors it owes its reader.\<close>

definition held :: "'j WorkerPool \<Rightarrow> 'j multiset" where
  "held p = mset (q_checked p) + mset (q_added p) + mset (p_jobs p) + (\<Sum>w\<leftarrow>p_ws p. running w)"

definition owed :: "'j WorkerPool \<Rightarrow> go_error multiset" where
  "owed p = mset (p_errs p) + (\<Sum>w\<leftarrow>p_ws p. reporting w)"

lemma mset_remove_at: "i < length xs \<Longrightarrow> add_mset (xs ! i) (mset (remove_at i xs)) = mset xs"
  by (simp add: remove_at_def) (metis add_mset_add_single append_take_drop_id Cons_nth_drop_Suc mset_append
      mset.simps(2) union_mset_add_mset_right)

lemma wg_add_queues [simp]: "held (wg_add n p) = held p" "owed (wg_add n p) = owed p"
  by (simp_all add: held_def owed_def)

lemma held_owed_step:
  assumes "pool_step act p = Some p'"
  shows "case act of
      QueueCheck j \<Rightarrow> held p' = (if p_closed p then held p else add_mset j (held p)) \<and> owed p' = owed p
    | QueueUndo i \<Rightarrow> add_mset (q_added p ! i) (held p') = held p \<and> owed p' = owed p
    | Finish i res \<Rightarrow> (\<forall>j. p_ws p ! i = Running j \<longrightarrow> add_mset j (held p') = held p \<and>
          owed p' = (case res of None \<Rightarrow> owed p | Some e \<Rightarrow> add_mset (job_failed i e) (owed p)))
    | ReadErr \<Rightarrow> held p' = held p \<and> (\<exists>e es. p_errs p = e # es \<and> owed p = add_mset e (owed p'))
    | _ \<Rightarrow> held p' = held p \<and> owed p' = owed p"
proof (cases act)
  case (QueueAdd i)
  then show ?thesis using assms mset_remove_at [of i "q_checked p"]
    by (auto simp: pool_step_def queue_add_def split: if_splits) (auto simp: held_def owed_def)
next
  case (QueueSend i)
  then show ?thesis using assms mset_remove_at [of i "q_added p"]
    by (auto simp: pool_step_def queue_send_def held_def owed_def split: if_splits)
next
  case (QueueUndo i)
  then show ?thesis using assms mset_remove_at [of i "q_added p"]
    by (auto simp: pool_step_def queue_undo_def split: if_splits) (auto simp: held_def owed_def)
next
  case (Take i)
  then show ?thesis using assms sum_list_update_add [of i "p_ws p" running] sum_list_update_add [of i "p_ws p" reporting]
    by (auto simp: pool_step_def take_job_def held_def owed_def split: if_splits list.splits)
next
  case (Finish i r)
  then show ?thesis using assms sum_list_update_add [of i "p_ws p" running] sum_list_update_add [of i "p_ws p" reporting]
    by (auto simp: pool_step_def held_def owed_def split: if_splits option.splits worker.splits)
next
  case (Report i)
  then show ?thesis using assms sum_list_update_add [of i "p_ws p" running] sum_list_update_add [of i "p_ws p" reporting]
    by (auto simp: pool_step_def report_err_def held_def owed_def split: if_splits worker.splits)
next
  case (Exit i)
  then show ?thesis using assms sum_list_update_add [of i "p_ws p" running] sum_list_update_add [of i "p_ws p" reporting]
    by (auto simp: pool_step_def exit_worker_def held_def owed_def split: if_splits)
qed (use assms in \<open>auto simp: pool_step_def queue_check_def close_closed_def close_jobs_def close_errs_def held_def owed_def
      split: if_splits list.splits\<close>)

section \<open>The ledger\<close>

definition failure :: "nat \<times> stress_job \<times> go_error option \<Rightarrow> go_error list" where
  "failure r = (case r of (w, job, None) \<Rightarrow> [] | (w, job, Some e) \<Rightarrow> [job_failed w e])"

definition failures :: "(nat \<times> stress_job \<times> go_error option) list \<Rightarrow> go_error list" where
  "failures results = concat (map failure results)"

abbreviation jobs_ran :: "(nat \<times> stress_job \<times> go_error option) list \<Rightarrow> stress_job list" where
  "jobs_ran results \<equiv> map (\<lambda>(w, job, res). job) results"

lemma failures_simps [simp]:
  "failures [] = []" "failures (xs @ ys) = failures xs @ failures ys" "failures [(w, job, None)] = []"
  "failures [(w, job, Some e)] = [job_failed w e]"
  by (simp_all add: failures_def failure_def)

text \<open>
  Every job asked for was dropped, has run, or is held by the pool; every failure was read or is owed.
\<close>

definition ledger :: "stress_state \<Rightarrow> bool" where
  "ledger s \<longleftrightarrow>
     mset (ss_asked s) = held (ss_pool s) + mset (jobs_ran (ss_ran s)) + mset (ss_dropped s) \<and>
     mset (failures (ss_ran s)) = owed (ss_pool s) + mset (ss_read s)"

text \<open>What a step does to the history, apart from the pool.\<close>

lemma sum_list_replicate_empty: "sum_list (replicate n {#}) = {#}"
  by (induction n) simp_all

lemma queue_check_closed: "pool_step (QueueCheck job) p = Some p' \<Longrightarrow> p_closed p' = p_closed p"
  by (auto simp: pool_step_def queue_check_def split: if_splits)

lemma ledger_start: "ledger (stress_start f)"
  by (simp add: ledger_def stress_start_def Start_def NewWorkerPool_def held_def owed_def sum_list_replicate_empty)

lemma ledger_ask: "ask job s = Some s' \<Longrightarrow> ledger s \<Longrightarrow> ledger s'"
  using held_owed_step [of "QueueCheck job" "ss_pool s"]
  by (cases "p_closed (ss_pool s)") (auto simp: ask_def on_pool_def ledger_def queue_check_closed)

lemma ledger_fields [simp]:
  "ledger (s\<lparr>ss_main := m\<rparr>) = ledger s" "ledger (s\<lparr>ss_sim := g\<rparr>) = ledger s"
  "ledger (s\<lparr>ss_cfgsDone := b\<rparr>) = ledger s" "ledger (s\<lparr>ss_interrupted := b\<rparr>) = ledger s"
  "ledger (s\<lparr>ss_main := m, ss_sim := g\<rparr>) = ledger s"
  "ledger (s\<lparr>ss_main := m, ss_dropped := d\<rparr>) = ledger (s\<lparr>ss_dropped := d\<rparr>)"
  "ledger (s\<lparr>ss_sim := g, ss_dropped := d\<rparr>) = ledger (s\<lparr>ss_dropped := d\<rparr>)"
  "ledger (s\<lparr>ss_main := m, ss_read := es\<rparr>) = ledger (s\<lparr>ss_read := es\<rparr>)"
  by (simp_all add: ledger_def)

text \<open>The steps that only move a job or an error inside the pool.\<close>

definition moves :: "'j pool_action \<Rightarrow> bool" where
  "moves a = (case a of QueueCheck j \<Rightarrow> False | QueueUndo i \<Rightarrow> False | Finish i res \<Rightarrow> False | ReadErr \<Rightarrow> False | _ \<Rightarrow> True)"

lemma moves_simps [simp]:
  "moves (QueueAdd i)" "moves (QueueSend i)" "moves (Take i)" "moves (Report i)" "moves (Exit i)"
  "moves CloseClosed" "moves CloseJobs" "moves CloseErrs"
  by (simp_all add: moves_def)

lemma ledger_moves: "on_pool a s = Some s' \<Longrightarrow> ledger s \<Longrightarrow> moves a \<Longrightarrow> ledger s'"
  using held_owed_step [of a "ss_pool s"] by (cases a) (auto simp: on_pool_def ledger_def moves_def)

lemma ledger_undo:
  "on_pool (QueueUndo 0) s = Some s' \<Longrightarrow> ledger s \<Longrightarrow> q_added (ss_pool s) = [job] \<Longrightarrow>
   ledger (s'\<lparr>ss_dropped := ss_dropped s' @ [job]\<rparr>)"
  using held_owed_step [of "QueueUndo 0" "ss_pool s"] by (auto simp: on_pool_def ledger_def)

lemma ledger_read:
  "on_pool ReadErr s = Some s' \<Longrightarrow> ledger s \<Longrightarrow> p_errs (ss_pool s) = e # es \<Longrightarrow>
   ledger (s'\<lparr>ss_read := ss_read s' @ [e]\<rparr>)"
  using held_owed_step [of ReadErr "ss_pool s"] by (auto simp: on_pool_def ledger_def)

lemma ledger_finish:
  "on_pool (Finish w res) s = Some s' \<Longrightarrow> ledger s \<Longrightarrow> p_ws (ss_pool s) ! w = Running job \<Longrightarrow>
   ledger (s'\<lparr>ss_ran := ss_ran s' @ [(w, job, res)]\<rparr>)"
  using held_owed_step [of "Finish w res" "ss_pool s"]
  by (cases res) (auto simp: on_pool_def ledger_def)

lemmas ledger_moved = moves_simps [THEN ledger_moves [rotated 2]]

lemmas ledger_intros = ledger_ask ledger_moved ledger_undo ledger_read ledger_finish

text \<open>A caller that is about to send is known to the pool.\<close>

definition callers_ok :: "stress_state \<Rightarrow> bool" where
  "callers_ok s \<longleftrightarrow>
     (case ss_main s of ConfigSend i \<Rightarrow> q_added (ss_pool s) = [ConfigureJob (int i)] | _ \<Rightarrow> True) \<and>
     (case ss_sim s of SimSend i \<Rightarrow> q_added (ss_pool s) = [MetricJob (int i)] | _ \<Rightarrow> True)"

lemma ledger_step:
  assumes "ledger s" and "callers_ok s" and "stress_step f act s = Some s'"
  shows "ledger s'"
proof (cases act)
  case MainStep
  then show ?thesis using assms
    by (auto simp: stress_step_def main_step_def intro: ledger_intros split: if_splits main_pc.splits list.splits)
next
  case MainUndo
  then show ?thesis using assms ledger_undo [OF _ assms(1)]
    by (fastforce simp: stress_step_def main_undo_def callers_ok_def split: if_splits main_pc.splits)
next
  case SetupError
  then show ?thesis using assms ledger_read [OF _ assms(1)]
    by (fastforce simp: stress_step_def setup_error_def split: if_splits main_pc.splits list.splits)
next
  case SimStep
  then show ?thesis using assms
    by (auto simp: stress_step_def sim_step_def intro: ledger_intros split: if_splits sim_pc.splits)
next
  case SimUndo
  then show ?thesis using assms ledger_undo [OF _ assms(1)]
    by (fastforce simp: stress_step_def sim_undo_def callers_ok_def split: if_splits sim_pc.splits)
next
  case (WorkerFinish w res)
  then show ?thesis using assms
    by (auto simp: stress_step_def worker_finish_def intro: ledger_finish split: if_splits worker.splits)
qed (use assms in \<open>auto simp: stress_step_def setup_waited_def sim_cancel_def closer_step_def
       intro: ledger_moved split: if_splits\<close>)

section \<open>The phases of a run\<close>

definition config_jobs :: "nat \<Rightarrow> stress_job list" where
  "config_jobs k = map (\<lambda>i. ConfigureJob (int i)) [0..<k]"

definition metric_jobs :: "nat \<Rightarrow> stress_job list" where
  "metric_jobs k = map (\<lambda>i. MetricJob (int i)) [0..<k]"

lemma jobs_Suc [simp]:
  "config_jobs (Suc k) = config_jobs k @ [ConfigureJob (int k)]"
  "metric_jobs (Suc k) = metric_jobs k @ [MetricJob (int k)]"
  "config_jobs 0 = []" "metric_jobs 0 = []" "length (config_jobs k) = k"
  by (simp_all add: config_jobs_def metric_jobs_def)

text \<open>The calls of \<^verbatim>\<open>QueueJob\<close> under way.\<close>

definition calls_in_pool :: "stress_job list \<Rightarrow> stress_job list \<Rightarrow> stress_state \<Rightarrow> bool" where
  "calls_in_pool qc qa s \<longleftrightarrow> q_checked (ss_pool s) = qc \<and> q_added (ss_pool s) = qa"

text \<open>Up to the end of the setup: the pool is open, and every device so far was asked for once.\<close>

definition setup_inv :: "flags \<Rightarrow> stress_state \<Rightarrow> bool" where
  "setup_inv f s \<longleftrightarrow> ss_sim s = SimIdle \<and> ss_dropped s = [] \<and> p_closing (ss_pool s) = 0 \<and>
     (case ss_main s of
        Configuring i \<Rightarrow> i \<le> devices f \<and> ss_asked s = config_jobs i \<and> calls_in_pool [] [] s \<and> ss_read s = [] \<and> \<not> ss_cfgsDone s
      | ConfigAdd i \<Rightarrow> i < devices f \<and> ss_asked s = config_jobs (Suc i) \<and> calls_in_pool [ConfigureJob (int i)] [] s \<and>
          ss_read s = [] \<and> \<not> ss_cfgsDone s
      | ConfigSend i \<Rightarrow> i < devices f \<and> ss_asked s = config_jobs (Suc i) \<and> calls_in_pool [] [ConfigureJob (int i)] s \<and>
          ss_read s = [] \<and> \<not> ss_cfgsDone s
      | AwaitSetup \<Rightarrow> ss_asked s = config_jobs (devices f) \<and> calls_in_pool [] [] s \<and> ss_read s = [] \<and>
          (ss_cfgsDone s \<longrightarrow> held (ss_pool s) = {#})
      | RunEnded (Some err) \<Rightarrow> ss_asked s = config_jobs (devices f) \<and>
          (\<exists>e. err = ErrWrapf ''setup devices'' e \<and> ss_read s = [e])
      | _ \<Rightarrow> False)"

text \<open>
  From then on: the jobs that ran first are the configurations, and the metrics are asked for round by
  round.
\<close>

definition asked_inv :: "nat \<Rightarrow> stress_job list \<Rightarrow> sim_pc \<Rightarrow> bool" where
  "asked_inv n asked sim \<longleftrightarrow> (\<exists>r k. asked = config_jobs n @ concat (replicate r (metric_jobs n)) @ metric_jobs k \<and>
     k \<le> n \<and> (case sim of
       SimLoop i \<Rightarrow> k = i | SimCheck i \<Rightarrow> k = i \<and> i < n | SimAdd i \<Rightarrow> k = Suc i | SimSend i \<Rightarrow> k = Suc i
     | SimPause \<Rightarrow> k = n | SimStopped \<Rightarrow> True | SimIdle \<Rightarrow> False))"

definition sim_calls :: "stress_state \<Rightarrow> bool" where
  "sim_calls s \<longleftrightarrow> p_panic (ss_pool s) \<noteq> None \<or>
     (case ss_sim s of
        SimAdd i \<Rightarrow> calls_in_pool [MetricJob (int i)] [] s
      | SimSend i \<Rightarrow> calls_in_pool [] [MetricJob (int i)] s
      | _ \<Rightarrow> calls_in_pool [] [] s)"

definition run_inv :: "flags \<Rightarrow> stress_state \<Rightarrow> bool" where
  "run_inv f s \<longleftrightarrow> 
     (ss_main s = ReadErrors \<or> ss_main s = RunEnded None \<and> p_errs_closed (ss_pool s) \<and> p_errs (ss_pool s) = []) \<and>
     devices f \<le> length (ss_ran s) \<and>
     mset (jobs_ran (take (devices f) (ss_ran s))) = mset (config_jobs (devices f)) \<and>
     asked_inv (devices f) (ss_asked s) (ss_sim s) \<and>
     sim_calls s"

definition stress_inv :: "flags \<Rightarrow> stress_state \<Rightarrow> bool" where
  "stress_inv f s \<longleftrightarrow> ledger s \<and> (setup_inv f s \<or> run_inv f s)"

lemma callers_ok_inv: "stress_inv f s \<Longrightarrow> p_panic (ss_pool s) = None \<Longrightarrow> callers_ok s"
  by (auto simp: stress_inv_def setup_inv_def run_inv_def sim_calls_def callers_ok_def calls_in_pool_def
      split: main_pc.splits sim_pc.splits)

text \<open>What the workers do leaves the callers alone.\<close>

definition by_worker :: "'j pool_action \<Rightarrow> bool" where
  "by_worker a = (case a of Take i \<Rightarrow> True | Finish i r \<Rightarrow> True | Report i \<Rightarrow> True | Exit i \<Rightarrow> True | _ \<Rightarrow> False)"

lemma by_worker_simps [simp]:
  "by_worker (Take i)" "by_worker (Finish i r)" "by_worker (Report i)" "by_worker (Exit i)"
  by (simp_all add: by_worker_def)

lemma worker_frame:
  assumes "pool_step a p = Some p'" and "by_worker a"
  shows "q_checked p' = q_checked p" "q_added p' = q_added p" "p_closing p' = p_closing p"
    "held p = {#} \<Longrightarrow> held p' = {#}"
proof -
  show "q_checked p' = q_checked p" "q_added p' = q_added p" "p_closing p' = p_closing p"
    using assms by (cases a; auto simp: by_worker_def pool_step_def pool_op_defs
        split: if_splits option.splits list.splits worker.splits)+
  have "\<exists>j. p_ws p ! i = Running j" if "a = Finish i r" for i r
    using assms(1) that by (auto simp: pool_step_def split: if_splits worker.splits)
  then show "held p' = {#}" if "held p = {#}"
    using held_owed_step [OF assms(1)] assms(2) that by (cases a) (auto simp: by_worker_def)
qed

lemma setup_worker:
  assumes "setup_inv f s" and "pool_step a (ss_pool s) = Some p'" and "by_worker a"
  shows "setup_inv f (s\<lparr>ss_pool := p'\<rparr>)" "setup_inv f (s\<lparr>ss_pool := p', ss_ran := rs\<rparr>)"
  using assms(1) worker_frame [OF assms(2,3)]
  by (auto simp: setup_inv_def calls_in_pool_def split: main_pc.splits option.splits)

lemma run_worker:
  assumes "run_inv f s" and "pool_step a (ss_pool s) = Some p'" and "by_worker a" and "\<not> stress_over s"
  shows "run_inv f (s\<lparr>ss_pool := p'\<rparr>)" "run_inv f (s\<lparr>ss_pool := p', ss_ran := ss_ran s @ rs\<rparr>)"
  using assms(1,4) worker_frame [OF assms(2,3)]
  by (auto simp: run_inv_def sim_calls_def calls_in_pool_def stress_over_def split: sim_pc.splits)

lemma wg_zero_held:
  assumes "pool_reach p" and "p_wg p = 0" and "q_checked p = []"
  shows "held p = {#}"
proof -
  have "(\<Sum>w\<leftarrow>ws. running w) = {#}" if "\<forall>w \<in> set ws. w = Idle \<or> w = Exited" for ws :: "'a worker list"
    using that by (induction ws) auto
  then show ?thesis using wait_means_done [OF assms(1,2)] assms(3) by (simp add: held_def)
qed

text \<open>The steps of the callers, one by one.\<close>

lemma setup_open:
  assumes "stress_reach f s" and "setup_inv f s"
  shows "\<not> p_closed (ss_pool s)" "\<not> p_jobs_closed (ss_pool s)" "\<not> p_errs_closed (ss_pool s)"
  using reach_pool_inv [of "ss_pool s"] stress_pool_reach [OF assms(1)] assms(2)
  by (auto simp: pool_inv_def setup_inv_def)

lemma pool_caller_steps:
  "pool_step (QueueCheck j) p = Some p' \<Longrightarrow> p_closing p' = p_closing p \<and> p_closed p' = p_closed p \<and>
     q_checked p' = (if p_closed p then q_checked p else q_checked p @ [j]) \<and> q_added p' = q_added p"
  "pool_step (QueueAdd i) p = Some p' \<Longrightarrow> p_closing p' = p_closing p \<and> i < length (q_checked p) \<and>
     q_checked p' = remove_at i (q_checked p) \<and> q_added p' = q_added p @ [q_checked p ! i]"
  "pool_step (QueueSend i) p = Some p' \<Longrightarrow> p_closing p' = p_closing p \<and> q_checked p' = q_checked p \<and>
     (q_added p' = remove_at i (q_added p) \<or> p_jobs_closed p \<and> p' = p\<lparr>p_panic := Some ''send on closed channel''\<rparr>)"
  "pool_step (QueueUndo i) p = Some p' \<Longrightarrow> p_closing p' = p_closing p \<and> p_closed p \<and> q_checked p' = q_checked p \<and>
     q_added p' = remove_at i (q_added p)"
  "pool_step ReadErr p = Some p' \<Longrightarrow> p_closing p' = p_closing p \<and> q_checked p' = q_checked p \<and> q_added p' = q_added p \<and>
     p_errs_closed p' = p_errs_closed p"
  "pool_step CloseClosed p = Some p' \<Longrightarrow> q_checked p' = q_checked p \<and> q_added p' = q_added p"
  "pool_step CloseJobs p = Some p' \<Longrightarrow> q_checked p' = q_checked p \<and> q_added p' = q_added p"
  "pool_step CloseErrs p = Some p' \<Longrightarrow> q_checked p' = q_checked p \<and> q_added p' = q_added p"
  by (auto simp: pool_step_def pool_op_defs wg_add_def split: if_splits list.splits)

lemma remove_at_single [simp]: "remove_at 0 [x] = []"
  by (simp add: remove_at_def)

lemma setup_main:
  assumes "stress_reach f s" and "setup_inv f s" and "ledger s" and "main_step f s = Some s'"
  shows "setup_inv f s' \<or> run_inv f s'"
proof (cases "ss_main s")
  case (Configuring i)
  show ?thesis
  proof (cases "i < devices f")
    case True
    then show ?thesis
      using assms Configuring setup_open [OF assms(1,2)]
      by (auto simp: main_step_def ask_def on_pool_def setup_inv_def calls_in_pool_def dest!: pool_caller_steps)
  next
    case False
    then show ?thesis using assms Configuring by (auto simp: main_step_def setup_inv_def calls_in_pool_def)
  qed
next
  case (ConfigAdd i)
  then show ?thesis using assms
    by (auto simp: main_step_def on_pool_def setup_inv_def calls_in_pool_def dest!: pool_caller_steps)
next
  case (ConfigSend i)
  then show ?thesis using assms setup_open [OF assms(1,2)]
    by (auto simp: main_step_def on_pool_def setup_inv_def calls_in_pool_def dest!: pool_caller_steps)
next
  case AwaitSetup
  then have signalled: "ss_cfgsDone s" and s': "s' = s\<lparr>ss_main := ReadErrors, ss_sim := SimLoop 0\<rparr>"
    using assms(4) by (auto simp: main_step_def split: if_splits)
  have jobs: "mset (jobs_ran (ss_ran s)) = mset (config_jobs (devices f))"
    using assms(2,3) AwaitSetup signalled by (auto simp: setup_inv_def ledger_def)
  then have "length (ss_ran s) = devices f"
    by (metis jobs_Suc(5) length_map size_mset)
  with jobs have "run_inv f s'" using assms(2) AwaitSetup
    by (auto simp: run_inv_def sim_calls_def setup_inv_def s' asked_inv_def calls_in_pool_def intro: exI [of _ 0])
  then show ?thesis ..
qed (use assms in \<open>auto simp: main_step_def setup_inv_def\<close>)

lemma run_main:
  assumes "run_inv f s" and "main_step f s = Some s'" and "p_panic (ss_pool s) = None"
  shows "run_inv f s'"
proof -
  have pc: "ss_main s = ReadErrors"
    using assms(1,2) by (auto simp: run_inv_def main_step_def)
  show ?thesis
  proof (cases "p_errs (ss_pool s)")
    case Nil
    then have "s' = s\<lparr>ss_main := RunEnded None\<rparr>" "p_errs_closed (ss_pool s)"
      using assms(2) pc by (auto simp: main_step_def split: if_splits)
    then show ?thesis using assms(1) Nil
      unfolding run_inv_def sim_calls_def calls_in_pool_def by (cases "ss_sim s") simp_all
  next
    case (Cons e es)
    then obtain p' where p': "pool_step ReadErr (ss_pool s) = Some p'"
      and s': "s' = s\<lparr>ss_pool := p', ss_read := ss_read s @ [e]\<rparr>"
      using assms(2) pc by (auto simp: main_step_def on_pool_def)
    show ?thesis using assms(1,3) pc pool_caller_steps(5) [OF p']
      unfolding run_inv_def sim_calls_def calls_in_pool_def s' by (cases "ss_sim s") simp_all
  qed
qed

lemma asked_more:
  "asked_inv n asked (SimCheck i) \<Longrightarrow> asked_inv n (asked @ [MetricJob (int i)]) (SimAdd i)"
  "asked_inv n asked (SimCheck i) \<Longrightarrow> asked_inv n (asked @ [MetricJob (int i)]) (SimLoop (Suc i))"
  "asked_inv n asked (SimAdd i) \<Longrightarrow> asked_inv n asked (SimSend i)"
  "asked_inv n asked (SimSend i) \<Longrightarrow> asked_inv n asked (SimLoop (Suc i))"
  "asked_inv n asked (SimLoop i) \<Longrightarrow> i < n \<Longrightarrow> asked_inv n asked (SimCheck i)"
  "asked_inv n asked (SimLoop i) \<Longrightarrow> asked_inv n asked SimStopped"
  "asked_inv n asked (SimLoop i) \<Longrightarrow> n \<le> i \<Longrightarrow> asked_inv n asked SimPause"
  "asked_inv n asked SimPause \<Longrightarrow> asked_inv n asked SimStopped"
proof -
  assume "asked_inv n asked (SimCheck i)"
  then obtain r where "asked = config_jobs n @ concat (replicate r (metric_jobs n)) @ metric_jobs i" "i < n"
    by (auto simp: asked_inv_def)
  then show "asked_inv n (asked @ [MetricJob (int i)]) (SimAdd i)" "asked_inv n (asked @ [MetricJob (int i)]) (SimLoop (Suc i))"
    unfolding asked_inv_def by - (rule exI [of _ r], rule exI [of _ "Suc i"], simp)+
qed (force simp: asked_inv_def)+

lemma asked_round: "asked_inv n asked SimPause \<Longrightarrow> asked_inv n asked (SimLoop 0)"
proof -
  assume "asked_inv n asked SimPause"
  then obtain r where "asked = config_jobs n @ concat (replicate r (metric_jobs n)) @ metric_jobs n"
    by (auto simp: asked_inv_def)
  then have "asked = config_jobs n @ concat (replicate (Suc r) (metric_jobs n)) @ metric_jobs 0"
    by (simp add: replicate_append_same [symmetric])
  then show ?thesis unfolding asked_inv_def by (intro exI [of _ "Suc r"] exI [of _ 0]) simp
qed

text \<open>A step of the simulation: the pool moves, and the goroutine goes on with what it asked for.\<close>

lemma run_simI:
  assumes "run_inv f s" and "ss_main s = ReadErrors" and "ss_main s' = ReadErrors" and "ss_ran s' = ss_ran s"
    and "asked_inv (devices f) (ss_asked s') (ss_sim s')" and "sim_calls s'"
  shows "run_inv f s'"
  using assms unfolding run_inv_def by simp

lemma run_sim:
  assumes inv: "run_inv f s" and alive: "p_panic (ss_pool s) = None" "ss_main s = ReadErrors"
    and step: "sim_step f s = Some s'"
  shows "run_inv f s'"
proof -
  have asked: "asked_inv (devices f) (ss_asked s) (ss_sim s)" and calls: "sim_calls s"
    using inv by (simp_all add: run_inv_def)
  have "ss_main s' = ReadErrors \<and> ss_ran s' = ss_ran s"
    using step alive(2) by (auto simp: sim_step_def ask_def on_pool_def split: sim_pc.splits)
  moreover have "asked_inv (devices f) (ss_asked s') (ss_sim s')"
    using step asked asked_more(5-7) [of "devices f" "ss_asked s"]
    by (cases "ss_sim s") (auto simp: sim_step_def ask_def on_pool_def asked_round intro: asked_more(1-4))
  moreover have "sim_calls s'"
  proof (cases "ss_sim s")
    case (SimLoop i)
    then have "ss_pool s' = ss_pool s" "ss_sim s' = SimPause \<or> ss_sim s' = SimStopped \<or> ss_sim s' = SimCheck i"
      using step by (auto simp: sim_step_def split: if_splits)
    then show ?thesis using calls SimLoop by (auto simp: sim_calls_def calls_in_pool_def)
  qed (use step calls alive(1) in \<open>auto simp: sim_step_def ask_def on_pool_def sim_calls_def calls_in_pool_def
        dest!: pool_caller_steps\<close>)
  ultimately show ?thesis using run_simI [OF inv alive(2)] by blast
qed

lemma run_sim_other:
  assumes inv: "run_inv f s" and alive: "p_panic (ss_pool s) = None" "ss_main s = ReadErrors"
    and step: "sim_undo s = Some s' \<or> sim_cancel s = Some s'"
  shows "run_inv f s'"
proof -
  have asked: "asked_inv (devices f) (ss_asked s) (ss_sim s)" and calls: "sim_calls s"
    using inv by (simp_all add: run_inv_def)
  have "ss_main s' = ReadErrors \<and> ss_ran s' = ss_ran s"
    using step alive(2) by (auto simp: sim_undo_def sim_cancel_def on_pool_def split: sim_pc.splits if_splits)
  moreover have "asked_inv (devices f) (ss_asked s') (ss_sim s')"
    using step asked
    by (cases "ss_sim s") (auto simp: sim_undo_def sim_cancel_def on_pool_def intro: asked_more split: if_splits)
  moreover have "sim_calls s'"
    using step calls alive(1)
    by (cases "ss_sim s") (auto simp: sim_undo_def sim_cancel_def on_pool_def sim_calls_def calls_in_pool_def
        dest!: pool_caller_steps split: if_splits)
  ultimately show ?thesis using run_simI [OF inv alive(2)] by blast
qed

lemma run_closer:
  assumes "run_inv f s" and "ss_main s = ReadErrors" and "closer_step s = Some s'"
  shows "run_inv f s'"
proof (rule run_simI [OF assms(1,2)])
  show "ss_main s' = ReadErrors" "ss_ran s' = ss_ran s" "asked_inv (devices f) (ss_asked s') (ss_sim s')"
    using assms by (auto simp: closer_step_def on_pool_def run_inv_def split: if_splits)
  have "q_checked (ss_pool s') = q_checked (ss_pool s)" "q_added (ss_pool s') = q_added (ss_pool s)"
    "ss_sim s' = ss_sim s" "p_panic (ss_pool s) = None"
    using assms(3)
    by (auto simp: closer_step_def on_pool_def dest: pool_caller_steps split: if_splits)
      (auto simp: pool_step_def split: if_splits)
  then show "sim_calls s'" using assms(1) by (auto simp: run_inv_def sim_calls_def calls_in_pool_def split: sim_pc.splits)
qed

lemma stress_inv_start: "stress_inv f (stress_start f)"
  by (simp add: stress_inv_def ledger_start)
    (simp add: setup_inv_def stress_start_def Start_def NewWorkerPool_def calls_in_pool_def)

lemma setup_other:
  assumes "stress_reach f s" and "setup_inv f s" and "\<not> stress_over s"
  shows "main_undo s = None" "sim_step f s = None" "sim_undo s = None" "sim_cancel s = None" "closer_step s = None"
    "setup_error s = Some s' \<Longrightarrow> setup_inv f s'" "setup_waited s = Some s' \<Longrightarrow> setup_inv f s'"
proof -
  note opened = setup_open [OF assms(1,2)]
  have idle: "ss_sim s = SimIdle" using assms(2) by (simp add: setup_inv_def)
  then show "sim_step f s = None" "sim_undo s = None" "sim_cancel s = None" "closer_step s = None"
    by (simp_all add: sim_step_def sim_undo_def sim_cancel_def closer_step_def)
  show "main_undo s = None" using opened
    by (auto simp: main_undo_def on_pool_def pool_step_def queue_undo_def split: main_pc.splits)
  show "setup_inv f s'" if "setup_error s = Some s'"
    using that assms(2) opened pool_caller_steps(5) [of "ss_pool s"]
    by (auto simp: setup_error_def on_pool_def setup_inv_def split: main_pc.splits list.splits)
  show "setup_inv f s'" if "setup_waited s = Some s'"
  proof -
    have "ss_main s = AwaitSetup" and wg: "p_wg (ss_pool s) = 0" and s': "s' = s\<lparr>ss_cfgsDone := True\<rparr>"
      using that assms(2) by (auto simp: setup_waited_def setup_inv_def split: if_splits)
    moreover have "q_checked (ss_pool s) = []"
      using assms(2) calculation(1) by (simp add: setup_inv_def calls_in_pool_def)
    ultimately show ?thesis
      using assms(2) wg_zero_held [OF conjunct1 [OF stress_pool_reach [OF assms(1)]] wg]
      by (simp add: setup_inv_def calls_in_pool_def)
  qed
qed

lemma inv_fields [simp]:
  "run_inv f (s\<lparr>ss_interrupted := b\<rparr>) = run_inv f s" "run_inv f (s\<lparr>ss_cfgsDone := b\<rparr>) = run_inv f s"
  by (cases "ss_sim s"; simp add: run_inv_def sim_calls_def calls_in_pool_def)+

lemma setup_inv_interrupted [simp]: "setup_inv f (s\<lparr>ss_interrupted := b\<rparr>) = setup_inv f s"
  by (cases "ss_main s") (simp_all add: setup_inv_def calls_in_pool_def split: option.split)

lemma stress_inv_step:
  assumes "stress_reach f s" and "stress_inv f s" and "stress_step f act s = Some s'"
  shows "stress_inv f s'"
proof -
  have alive: "\<not> stress_over s" "p_panic (ss_pool s) = None"
    using assms(3) by (auto simp: stress_step_def stress_over_def split: if_splits)
  have ledger: "ledger s" "ledger s'"
    using assms(2) ledger_step [OF _ callers_ok_inv [OF assms(2) alive(2)] assms(3)] by (auto simp: stress_inv_def)
  have "setup_inv f s' \<or> run_inv f s'"
  proof (cases "setup_inv f s")
    case True
    note other = setup_other [OF assms(1) True alive(1)]
    show ?thesis
    proof (cases act)
      case Interrupt
      then show ?thesis using assms(3) alive True by (auto simp: stress_step_def split: if_splits)
    next
      case (WorkerFinish w res)
      then show ?thesis using assms(3) alive True
        by (auto simp: stress_step_def worker_finish_def on_pool_def intro: setup_worker split: worker.splits)
    qed (use assms(3) alive True other setup_main [OF assms(1) True ledger(1)] in
        \<open>auto simp: stress_step_def on_pool_def intro: setup_worker\<close>)
  next
    case False
    then have run: "run_inv f s" "ss_main s = ReadErrors"
      using assms(2) alive by (auto simp: stress_inv_def run_inv_def stress_over_def)
    show ?thesis
    proof (cases act)
      case Interrupt
      then show ?thesis using assms(3) alive run by (auto simp: stress_step_def split: if_splits)
    next
      case SetupWaited
      then show ?thesis using assms(3) alive run by (auto simp: stress_step_def setup_waited_def split: if_splits)
    next
      case (WorkerFinish w res)
      then show ?thesis using assms(3) alive run run_worker [OF run(1)]
        by (auto simp: stress_step_def worker_finish_def on_pool_def split: worker.splits)
    qed (use assms(3) alive run run_main [OF run(1)] run_sim [OF run(1) alive(2) run(2)]
        run_sim_other [OF run(1) alive(2) run(2)] run_closer [OF run] run_worker(1) [OF run(1)] in
        \<open>auto simp: stress_step_def on_pool_def setup_error_def main_undo_def\<close>)
  qed
  with ledger(2) show ?thesis by (simp add: stress_inv_def)
qed

end
