(* ===== verification/StressOutcome.thy ===== *)
theory StressOutcome
  imports StressRun
begin

text \<open>
  What a run of the stress client comes to: the order of its jobs, what happens to their errors, that
  its setup and, after an interrupt, the run end, and the exit status of the program.
\<close>

section \<open>Invariants of every run\<close>

lemma stress_reach_inv: "stress_reach f s \<Longrightarrow> stress_inv f s"
  by (induction rule: stress_reach.induct) (auto intro: stress_inv_start stress_inv_step)

text \<open>A run with one device, for the witnesses.\<close>

definition one_device :: flags where
  "one_device = \<lparr>fl_serviceURL = ''http://localhost:8080'', fl_numDevices = 1, fl_intervalMS = 100\<rparr>"

lemmas stress_run_simps = stress_step_def stress_over_def main_step_def setup_waited_def setup_error_def sim_step_def
  worker_finish_def ask_def on_pool_def pool_step_def queue_check_def queue_add_def queue_send_def take_job_def
  report_err_def wg_add_def remove_at_def stress_start_def Start_def NewWorkerPool_def one_device_def

section \<open>Every configuration, then the metrics\<close>

definition is_metric :: "stress_job \<Rightarrow> bool" where
  "is_metric job = (case job of MetricJob i \<Rightarrow> True | ConfigureJob i \<Rightarrow> False)"

lemma config_metric_jobs: "job \<in> set (config_jobs k) \<Longrightarrow> \<not> is_metric job" "job \<in> set (metric_jobs k) \<Longrightarrow> is_metric job"
  by (auto simp: config_jobs_def metric_jobs_def is_metric_def)

lemma asked_metrics: "asked_inv n asked sim \<Longrightarrow> \<exists>ms. asked = config_jobs n @ ms \<and> list_all is_metric ms"
  by (fastforce simp: asked_inv_def list_all_iff dest: config_metric_jobs(2) split: if_splits)

lemma run_jobs:
  assumes "ledger s" and "run_inv f s"
  shows "list_all is_metric (jobs_ran (drop (devices f) (ss_ran s)))"
proof -
  let ?n = "devices f"
  obtain ms where ms: "ss_asked s = config_jobs ?n @ ms" "list_all is_metric ms"
    using assms(2) asked_metrics unfolding run_inv_def by blast
  have "mset (jobs_ran (ss_ran s)) = mset (jobs_ran (take ?n (ss_ran s))) + mset (jobs_ran (drop ?n (ss_ran s)))"
    by (metis append_take_drop_id map_append mset_append)
  then have "mset ms = held (ss_pool s) + mset (jobs_ran (drop ?n (ss_ran s))) + mset (ss_dropped s)"
    using assms ms(1) unfolding ledger_def run_inv_def by (simp add: ac_simps)
  then have "set_mset (mset (jobs_ran (drop ?n (ss_ran s)))) \<subseteq> set_mset (mset ms)"
    by (metis mset_subset_eq_add_left mset_subset_eq_add_right set_mset_mono subset_mset.trans)
  then show ?thesis using ms(2) unfolding list_all_iff set_mset_mset by blast
qed

lemma configurations_come_first_parts:
  assumes "stress_reach f s" and "MetricJob i \<in> set (ss_asked s)"
  shows "mset (jobs_ran (take (devices f) (ss_ran s))) = mset (setup_jobs f)"
    "list_all is_metric (jobs_ran (drop (devices f) (ss_ran s)))"
    "\<exists>r k. ss_asked s = setup_jobs f @ concat (replicate r (metric_jobs (devices f))) @ metric_jobs k \<and> k \<le> devices f"
proof -
  have inv: "ledger s" "setup_inv f s \<or> run_inv f s" using stress_reach_inv [OF assms(1)] by (auto simp: stress_inv_def)
  have "\<exists>k. ss_asked s = config_jobs k" if "setup_inv f s"
    using that by (auto simp: setup_inv_def simp del: jobs_Suc split: main_pc.splits option.splits)
  then have "\<not> setup_inv f s" using assms(2) config_metric_jobs(1) [of "MetricJob i"] by (auto simp: is_metric_def)
  then have run: "run_inv f s" using inv(2) by blast
  have setup_eq: "setup_jobs f = config_jobs (devices f)"
    by (simp add: setup_jobs_def config_jobs_def comp_def)
  show "list_all is_metric (jobs_ran (drop (devices f) (ss_ran s)))" by (rule run_jobs [OF inv(1) run])
  show "mset (jobs_ran (take (devices f) (ss_ran s))) = mset (setup_jobs f)"
    using run by (simp add: run_inv_def setup_eq)
  show "\<exists>r k. ss_asked s = setup_jobs f @ concat (replicate r (metric_jobs (devices f))) @ metric_jobs k \<and> k \<le> devices f"
    using run by (auto simp: run_inv_def asked_inv_def setup_eq)
qed

text \<open>C15. The run sends metrics only when every device's configuration has been tried: in every state it
  reaches, if a metric was asked for then the first jobs the workers ran are the configurations, one
  for each device, and all that ran after them are metrics; and the jobs asked for are the
  configurations in the order of the devices and then round after round of metrics.\<close>

theorem configurations_come_first:
  assumes "stress_reach f s" and "MetricJob i \<in> set (ss_asked s)"
  shows "mset (jobs_ran (take (devices f) (ss_ran s))) = mset (setup_jobs f) \<and>
    list_all is_metric (jobs_ran (drop (devices f) (ss_ran s))) \<and>
    (\<exists>r k. ss_asked s = setup_jobs f @ concat (replicate r (metric_jobs (devices f))) @ metric_jobs k \<and> k \<le> devices f)"
  using configurations_come_first_parts [OF assms] by blast

lemma configurations_come_first_witness:
  "\<exists>s. stress_exec one_device [MainStep, MainStep, MainStep, WorkerTake 0, WorkerFinish 0 None,
       MainStep, SetupWaited, MainStep, SimStep, SimStep] (stress_start one_device) = Some s \<and>
     mset (jobs_ran (take 1 (ss_ran s))) = mset (setup_jobs one_device)"
proof -
  obtain s where s: "stress_exec one_device [MainStep, MainStep, MainStep, WorkerTake 0, WorkerFinish 0 None,
       MainStep, SetupWaited, MainStep, SimStep, SimStep] (stress_start one_device) = Some s" "MetricJob 0 \<in> set (ss_asked s)"
    by (simp add: stress_run_simps)
  have "devices one_device = 1" by (simp add: one_device_def)
  with configurations_come_first [OF stress_reach_exec [OF stress_reach.start s(1)] s(2)] s(1)
  show ?thesis by auto
qed

section \<open>No error is lost\<close>

text \<open>Only the goroutine that waits for the interrupt closes the pool.\<close>

definition closes :: "'j pool_action \<Rightarrow> bool" where
  "closes a = (case a of CloseClosed \<Rightarrow> True | CloseJobs \<Rightarrow> True | CloseErrs \<Rightarrow> True | _ \<Rightarrow> False)"

lemma closes_simps [simp]:
  "\<not> closes (QueueAdd i)" "\<not> closes (QueueSend i)" "\<not> closes (QueueUndo i)" "\<not> closes (QueueCheck j)"
  "\<not> closes (Take i)" "\<not> closes (Finish i r)" "\<not> closes (Report i)" "\<not> closes (Exit i)" "\<not> closes ReadErr"
  by (simp_all add: closes_def)

lemma closing_frame: "pool_step a p = Some p' \<Longrightarrow> closes a \<or> p_closing p' = p_closing p"
  by (cases a) (auto simp: closes_def pool_step_def pool_op_defs split: if_splits option.splits list.splits worker.splits)

lemma sim_frame:
  "on_pool a s = Some s' \<Longrightarrow> ss_sim s' = ss_sim s \<and> ss_interrupted s' = ss_interrupted s \<and>
     (closes a \<or> p_closing (ss_pool s') = p_closing (ss_pool s))"
  "ask j s = Some s' \<Longrightarrow> ss_sim s' = ss_sim s \<and> ss_interrupted s' = ss_interrupted s \<and>
     p_closing (ss_pool s') = p_closing (ss_pool s)"
  by (auto simp: ask_def on_pool_def dest: closing_frame)

lemma sim_frame_step:
  assumes "stress_step f act s = Some s'"
  shows "ss_interrupted s' = (act = Interrupt \<or> ss_interrupted s) \<and>
    (ss_sim s' = SimStopped \<longrightarrow> ss_sim s = SimStopped \<or> ss_interrupted s) \<and>
    (ss_sim s' = SimIdle \<longrightarrow> ss_sim s = SimIdle) \<and>
    (ss_interrupted s \<or> p_closing (ss_pool s') = p_closing (ss_pool s))"
proof (cases act)
  case MainStep
  then show ?thesis using assms by (cases "ss_main s")
      (auto simp: stress_step_def main_step_def dest!: sim_frame split: if_splits list.splits)
next
  case SimStep
  then show ?thesis using assms by (cases "ss_sim s")
      (auto simp: stress_step_def sim_step_def dest!: sim_frame split: if_splits)
next
  case MainUndo
  then show ?thesis using assms by (auto simp: stress_step_def main_undo_def dest!: sim_frame split: if_splits main_pc.splits)
next
  case SetupError
  then show ?thesis using assms
    by (auto simp: stress_step_def setup_error_def dest!: sim_frame split: if_splits main_pc.splits list.splits)
next
  case SimUndo
  then show ?thesis using assms by (auto simp: stress_step_def sim_undo_def dest!: sim_frame split: if_splits sim_pc.splits)
next
  case (WorkerFinish w res)
  then show ?thesis using assms
    by (auto simp: stress_step_def worker_finish_def dest!: sim_frame split: if_splits worker.splits)
qed (use assms in \<open>auto simp: stress_step_def setup_waited_def sim_cancel_def closer_step_def dest!: sim_frame split: if_splits\<close>)

lemma closing_interrupted: "stress_reach f s \<Longrightarrow> p_closing (ss_pool s) \<noteq> 0 \<Longrightarrow> ss_interrupted s"
proof (induction rule: stress_reach.induct)
  case start
  then show ?case by (simp add: stress_start_def Start_def NewWorkerPool_def)
next
  case (step s act s')
  then show ?case using sim_frame_step [OF step.hyps(2)] by auto
qed

lemma errors_accounted_parts:
  assumes "stress_reach f s"
  shows "mset (failures (ss_ran s)) = owed (ss_pool s) + mset (ss_read s)"
    "ss_main s = RunEnded None \<Longrightarrow> mset (ss_read s) = mset (failures (ss_ran s)) \<and> ss_interrupted s"
    "ss_main s = RunEnded (Some err) \<Longrightarrow> \<exists>w i e. (w, ConfigureJob i, Some e) \<in> set (ss_ran s) \<and>
       err = ErrWrapf ''setup devices'' (job_failed w e)"
proof -
  have inv: "ledger s" "setup_inv f s \<or> run_inv f s" using stress_reach_inv [OF assms] by (auto simp: stress_inv_def)
  show read: "mset (failures (ss_ran s)) = owed (ss_pool s) + mset (ss_read s)" using inv(1) by (simp add: ledger_def)
  show "mset (ss_read s) = mset (failures (ss_ran s)) \<and> ss_interrupted s" if "ss_main s = RunEnded None"
  proof -
    have "run_inv f s" using inv(2) that by (auto simp: setup_inv_def)
    then have e: "p_errs_closed (ss_pool s)" "p_errs (ss_pool s) = []" using that by (auto simp: run_inv_def)
    have "pool_reach (ss_pool s)" using stress_pool_reach [OF assms] ..
    from reach_pool_inv [OF this] have "(\<Sum>w\<leftarrow>p_ws (ss_pool s). busy w) = 0" "p_closing (ss_pool s) \<noteq> 0"
      using e by (auto simp: pool_inv_def)
    moreover have "(\<Sum>w\<leftarrow>ws. reporting w) = {#}" if "(\<Sum>w\<leftarrow>ws. busy w) = 0" for ws :: "stress_job worker list"
      using that
    proof (induction ws)
      case (Cons w ws)
      then show ?case using busy_nonneg [of w] busy_sum_nonneg [of ws] by (cases w) auto
    qed simp
    ultimately show ?thesis using read e closing_interrupted [OF assms] by (simp add: owed_def)
  qed
  show "\<exists>w i e. (w, ConfigureJob i, Some e) \<in> set (ss_ran s) \<and> err = ErrWrapf ''setup devices'' (job_failed w e)"
    if ended: "ss_main s = RunEnded (Some err)"
  proof -
    have "setup_inv f s" using inv(2) ended by (auto simp: run_inv_def)
    then obtain e where e: "err = ErrWrapf ''setup devices'' e" "ss_read s = [e]"
      and asked: "ss_asked s = config_jobs (devices f)" using ended by (auto simp: setup_inv_def)
    have "e \<in> set (failures (ss_ran s))" using read e(2) by (metis in_multiset_in_set list.set_intros(1) union_iff)
    then obtain w job err' where r: "(w, job, Some err') \<in> set (ss_ran s)" "e = job_failed w err'"
      by (auto simp: failures_def failure_def split: option.splits)
    have "job \<in># mset (ss_asked s)" using inv(1) r(1) by (force simp: ledger_def)
    then obtain i where "job = ConfigureJob i" unfolding asked by (auto simp: config_jobs_def)
    then show ?thesis using r e(1) by blast
  qed
qed

text \<open>C17. Every failed job reports once: its error, with the number of its worker, is in the pool or has
  been read. When the run returns without an error, which only an interrupt makes it do, all of them
  have been read; when it returns with one, that is the error of a configuration that failed.\<close>

theorem errors_accounted:
  assumes "stress_reach f s"
  shows "mset (failures (ss_ran s)) = owed (ss_pool s) + mset (ss_read s) \<and>
    (ss_main s = RunEnded None \<longrightarrow> mset (ss_read s) = mset (failures (ss_ran s)) \<and> ss_interrupted s) \<and>
    (\<forall>err. ss_main s = RunEnded (Some err) \<longrightarrow> (\<exists>w i e. (w, ConfigureJob i, Some e) \<in> set (ss_ran s) \<and>
       err = ErrWrapf ''setup devices'' (job_failed w e)))"
  using errors_accounted_parts [OF assms] by blast

lemma errors_accounted_witness:
  "\<exists>s. stress_exec one_device [MainStep, MainStep, MainStep, WorkerTake 0, WorkerFinish 0 (Some ErrCanceled), WorkerReport 0]
       (stress_start one_device) = Some s \<and> mset (failures (ss_ran s)) = owed (ss_pool s) + mset (ss_read s)"
proof -
  obtain s where s: "stress_exec one_device [MainStep, MainStep, MainStep, WorkerTake 0, WorkerFinish 0 (Some ErrCanceled),
       WorkerReport 0] (stress_start one_device) = Some s"
    by (simp add: stress_run_simps)
  with errors_accounted [OF stress_reach_exec [OF stress_reach.start s]] show ?thesis by blast
qed

section \<open>Progress\<close>

fun main_weight :: "nat \<Rightarrow> main_pc \<Rightarrow> nat" where
  "main_weight n (Configuring i) = 10 * (n - i) + 30"
| "main_weight n (ConfigAdd i) = 10 * (n - Suc i) + 33"
| "main_weight n (ConfigSend i) = 10 * (n - Suc i) + 32"
| "main_weight n AwaitSetup = 25"
| "main_weight n ReadErrors = 1"
| "main_weight n (RunEnded r) = 0"

fun sim_weight :: "nat \<Rightarrow> sim_pc \<Rightarrow> nat" where
  "sim_weight n SimIdle = 0"
| "sim_weight n (SimLoop i) = (if i < n then 1 else 3)"
| "sim_weight n (SimCheck i) = 12"
| "sim_weight n (SimAdd i) = 5"
| "sim_weight n (SimSend i) = 4"
| "sim_weight n SimPause = 2"
| "sim_weight n SimStopped = 0"

definition stress_weight :: "flags \<Rightarrow> stress_state \<Rightarrow> nat" where
  "stress_weight f s = pool_weight (ss_pool s) + main_weight (devices f) (ss_main s) +
     sim_weight (devices f) (ss_sim s) + (if ss_cfgsDone s then 0 else 1) + (if ss_interrupted s then 0 else 1)"

lemma on_pool_weight:
  assumes "on_pool a s = Some s'" and "\<not> is_queue_check a"
  obtains p' where "s' = s\<lparr>ss_pool := p'\<rparr>" and "pool_weight p' < pool_weight (ss_pool s)"
  using assms pool_weight_step by (auto simp: on_pool_def)

lemma ask_weight:
  assumes "ask job s = Some s'"
  obtains p' as ds where "s' = s\<lparr>ss_pool := p', ss_asked := as, ss_dropped := ds\<rparr>"
    and "pool_weight p' = (if p_closed p' then pool_weight (ss_pool s) else pool_weight (ss_pool s) + 6)"
proof -
  obtain p' where p': "pool_step (QueueCheck job) (ss_pool s) = Some p'"
    and s': "s' = s\<lparr>ss_pool := p', ss_asked := ss_asked s @ [job],
            ss_dropped := ss_dropped s @ (if p_closed p' then [job] else [])\<rparr>"
    using assms by (auto simp: ask_def on_pool_def)
  from p' have "pool_weight p' = (if p_closed p' then pool_weight (ss_pool s) else pool_weight (ss_pool s) + 6)"
    by (auto simp: pool_step_def queue_check_def pool_weight_def split: if_splits)
  with s' show thesis by (rule that)
qed

lemma main_weight_step: 
  assumes "main_step f s = Some s'"
  shows "stress_weight f s' < stress_weight f s"
proof (cases "ss_main s")
  case (Configuring i)
  show ?thesis
  proof (cases "i < devices f")
    case True
    then obtain s1 where s1: "ask (ConfigureJob (int i)) s = Some s1"
      "s' = s1\<lparr>ss_main := if p_closed (ss_pool s1) then Configuring (Suc i) else ConfigAdd i\<rparr>"
      using assms Configuring by (auto simp: main_step_def)
    show ?thesis by (rule ask_weight [OF s1(1)]) (use Configuring True s1(2) in \<open>auto simp: stress_weight_def\<close>)
  next
    case False
    then show ?thesis using assms Configuring by (auto simp: main_step_def stress_weight_def)
  qed
next
  case (ConfigAdd i)
  then obtain s1 where s1: "on_pool (QueueAdd 0) s = Some s1" "s' = s1\<lparr>ss_main := ConfigSend i\<rparr>"
    using assms by (auto simp: main_step_def)
  show ?thesis by (rule on_pool_weight [OF s1(1)]) (use ConfigAdd s1(2) in \<open>auto simp: stress_weight_def\<close>)
next
  case (ConfigSend i)
  then obtain s1 where s1: "on_pool (QueueSend 0) s = Some s1" "s' = s1\<lparr>ss_main := Configuring (Suc i)\<rparr>"
    using assms by (auto simp: main_step_def)
  show ?thesis by (rule on_pool_weight [OF s1(1)]) (use ConfigSend s1(2) in \<open>auto simp: stress_weight_def\<close>)
next
  case ReadErrors
  then show ?thesis using assms
    by (auto simp: main_step_def stress_weight_def split: list.splits if_splits elim!: on_pool_weight)
qed (use assms in \<open>auto simp: main_step_def stress_weight_def split: if_splits\<close>)

lemma sim_weight_step:
  assumes "sim_step f s = Some s'" and "ss_interrupted s" and "0 < devices f"
  shows "stress_weight f s' < stress_weight f s"
proof (cases "ss_sim s")
  case (SimCheck i)
  then obtain s1 where s1: "ask (MetricJob (int i)) s = Some s1"
    "s' = s1\<lparr>ss_sim := if p_closed (ss_pool s1) then SimLoop (Suc i) else SimAdd i\<rparr>"
    using assms by (auto simp: sim_step_def)
  show ?thesis by (rule ask_weight [OF s1(1)]) (use SimCheck s1(2) in \<open>auto simp: stress_weight_def\<close>)
next
  case (SimAdd i)
  then obtain s1 where s1: "on_pool (QueueAdd 0) s = Some s1" "s' = s1\<lparr>ss_sim := SimSend i\<rparr>"
    using assms by (auto simp: sim_step_def)
  show ?thesis by (rule on_pool_weight [OF s1(1)]) (use SimAdd s1(2) in \<open>auto simp: stress_weight_def\<close>)
next
  case (SimSend i)
  then obtain s1 where s1: "on_pool (QueueSend 0) s = Some s1" "s' = s1\<lparr>ss_sim := SimLoop (Suc i)\<rparr>"
    using assms by (auto simp: sim_step_def)
  show ?thesis by (rule on_pool_weight [OF s1(1)]) (use SimSend s1(2) in \<open>auto simp: stress_weight_def\<close>)
qed (use assms in \<open>auto simp: sim_step_def stress_weight_def split: if_splits\<close>)

lemma pool_only_weight:
  assumes "on_pool a s = Some s'" and "\<not> is_queue_check a"
  shows "stress_weight f s' < stress_weight f s"
  by (rule on_pool_weight [OF assms]) (simp add: stress_weight_def)

lemma stress_weight_step:
  assumes "stress_step f act s = Some s'" and "act = SimStep \<Longrightarrow> ss_interrupted s" and "0 < devices f"
  shows "stress_weight f s' < stress_weight f s"
proof (cases act)
  case MainStep
  then show ?thesis using assms(1) by (auto simp: stress_step_def main_weight_step split: if_splits)
next
  case SimStep
  then show ?thesis using assms by (auto simp: stress_step_def sim_weight_step split: if_splits)
next
  case MainUndo
  then show ?thesis using assms(1)
    by (auto simp: stress_step_def main_undo_def stress_weight_def split: if_splits main_pc.splits elim!: on_pool_weight)
next
  case SimUndo
  then show ?thesis using assms(1)
    by (auto simp: stress_step_def sim_undo_def stress_weight_def split: if_splits sim_pc.splits elim!: on_pool_weight)
next
  case SetupError
  then show ?thesis using assms(1)
    by (auto simp: stress_step_def setup_error_def stress_weight_def split: if_splits main_pc.splits list.splits
        elim!: on_pool_weight)
next
  case (WorkerFinish w res)
  then show ?thesis using assms(1)
    by (auto simp: stress_step_def worker_finish_def stress_weight_def split: if_splits worker.splits elim!: on_pool_weight)
qed (use assms(1) in \<open>auto simp: stress_step_def setup_waited_def sim_cancel_def closer_step_def
       intro: pool_only_weight split: if_splits\<close>, simp_all add: stress_weight_def)

text \<open>Until the setup is over the buffers of the pool have room for every caller and every error.\<close>

lemma length_failures: "length (failures results) \<le> length results"
  by (induction results) (auto simp: failures_def failure_def split: option.splits)

lemma sum_list_member_le: "w \<in> set ws \<Longrightarrow> g w \<subseteq># (\<Sum>w\<leftarrow>ws. g w)" for g :: "'a \<Rightarrow> 'b multiset"
  by (induction ws) (auto intro: subset_mset.order_trans)

lemma setup_counts:
  assumes "stress_inv f s" and "setup_inv f s"
  shows "size (held (ss_pool s)) + size (owed (ss_pool s)) \<le> devices f"
proof -
  have "length (ss_asked s) \<le> devices f"
    using assms(2) by (auto simp: setup_inv_def simp del: jobs_Suc(1) split: main_pc.splits option.splits)
  moreover have "size (mset (ss_asked s)) = size (held (ss_pool s)) + length (ss_ran s) + length (ss_dropped s)"
    using assms(1) unfolding stress_inv_def ledger_def by (elim conjE) (simp del: size_mset, simp)
  moreover have "size (mset (failures (ss_ran s))) = size (owed (ss_pool s)) + length (ss_read s)"
    using assms(1) unfolding stress_inv_def ledger_def by (elim conjE) (simp del: size_mset, simp)
  ultimately show ?thesis using length_failures [of "ss_ran s"] by simp
qed

lemma setup_send_room:
  assumes "stress_inv f s" and "setup_inv f s" and "ss_main s = ConfigSend i"
  shows "length (p_jobs (ss_pool s)) < devices f"
proof -
  have "size (held (ss_pool s)) = length (q_checked (ss_pool s)) + length (q_added (ss_pool s)) +
      length (p_jobs (ss_pool s)) + size (\<Sum>w\<leftarrow>p_ws (ss_pool s). running w)" by (simp add: held_def)
  moreover have "length (q_added (ss_pool s)) = 1"
    using assms(2,3) by (auto simp: setup_inv_def calls_in_pool_def)
  ultimately show ?thesis using setup_counts [OF assms(1,2)] by linarith
qed

lemma setup_report_room:
  assumes "stress_inv f s" and "setup_inv f s" and "w < length (p_ws (ss_pool s))" and "p_ws (ss_pool s) ! w = Reporting e"
  shows "length (p_errs (ss_pool s)) < devices f"
proof -
  have "reporting (p_ws (ss_pool s) ! w) \<subseteq># (\<Sum>w\<leftarrow>p_ws (ss_pool s). reporting w)"
    using assms(3) by (intro sum_list_member_le) simp
  then have "e \<in># (\<Sum>w\<leftarrow>p_ws (ss_pool s). reporting w)" using assms(4) by (simp add: single_subset_iff)
  then obtain M where "(\<Sum>w\<leftarrow>p_ws (ss_pool s). reporting w) = add_mset e M" by (blast dest: multi_member_split)
  then show ?thesis using setup_counts [OF assms(1,2)] by (simp add: owed_def)
qed

text \<open>Nothing waits for ever: while the run is not over some goroutine has a step to do.\<close>

definition goes_on :: "flags \<Rightarrow> stress_state \<Rightarrow> bool" where
  "goes_on f s \<longleftrightarrow> (\<exists>act. act \<noteq> Interrupt \<and> stress_step f act s \<noteq> None)"

lemma goes_onI: "stress_step f act s \<noteq> None \<Longrightarrow> act \<noteq> Interrupt \<Longrightarrow> goes_on f s"
  unfolding goes_on_def by blast

lemma goes_on_main: "main_step f s \<noteq> None \<Longrightarrow> \<not> stress_over s \<Longrightarrow> goes_on f s"
  by (rule goes_onI [of _ MainStep]) (auto simp: stress_step_def)

lemma goes_on_sim: "sim_step f s \<noteq> None \<Longrightarrow> \<not> stress_over s \<Longrightarrow> goes_on f s"
  by (rule goes_onI [of _ SimStep]) (auto simp: stress_step_def)

lemma goes_on_closer: "closer_step s \<noteq> None \<Longrightarrow> \<not> stress_over s \<Longrightarrow> goes_on f s"
  by (rule goes_onI [of _ CloserStep]) (auto simp: stress_step_def)

lemma finish_running: "pool_step (Finish i r) p = Some p' \<Longrightarrow> \<exists>j. p_ws p ! i = Running j"
  by (auto simp: pool_step_def split: if_splits worker.splits)

lemma pool_goes_on:
  assumes "\<not> stress_over s" and "drains a" and "pool_step a (ss_pool s) = Some p'" 
    and "q_added (ss_pool s) = [] \<or> (\<forall>i. a \<noteq> QueueSend i)" and "ss_main s = AwaitSetup \<or> ss_main s = ReadErrors"
  shows "goes_on f s"
proof (cases a)
  case (Take w)
  then show ?thesis using assms by (intro goes_onI [of _ "WorkerTake w"]) (auto simp: stress_step_def on_pool_def)
next
  case (Finish w r)
  then show ?thesis using assms finish_running [of w r "ss_pool s"]
    by (intro goes_onI [of _ "WorkerFinish w r"]) (auto simp: stress_step_def worker_finish_def on_pool_def)
next
  case (Report w)
  then show ?thesis using assms by (intro goes_onI [of _ "WorkerReport w"]) (auto simp: stress_step_def on_pool_def)
next
  case (QueueSend w)
  then show ?thesis using assms by (auto simp: pool_step_def queue_send_def split: if_splits)
next
  case ReadErr
  then obtain e es where "p_errs (ss_pool s) = e # es" using assms(3) by (auto simp: pool_step_def split: if_splits list.splits)
  moreover have "goes_on f s" if "ss_main s = AwaitSetup"
    using that assms ReadErr calculation
    by (intro goes_onI [of _ SetupError]) (auto simp: stress_step_def setup_error_def on_pool_def)
  moreover have "goes_on f s" if "ss_main s = ReadErrors"
    using that assms ReadErr calculation
    by (intro goes_onI [of _ MainStep]) (auto simp: stress_step_def main_step_def on_pool_def)
  ultimately show ?thesis using assms(5) by blast
qed (use assms(2) in \<open>auto simp: drains_def\<close>)

lemma check_goes_on: "p_panic p = None \<Longrightarrow> pool_step (QueueCheck j) p \<noteq> None"
  by (simp add: pool_step_def)

lemma setup_goes_on:
  assumes "stress_reach f s" and "setup_inv f s" and "\<not> stress_over s" and "0 < devices f"
  shows "goes_on f s"
proof -
  let ?p = "ss_pool s"
  have inv: "stress_inv f s" by (rule stress_reach_inv [OF assms(1)])
  have alive: "p_panic ?p = None" using assms(3) by (simp add: stress_over_def)
  have reach: "pool_reach ?p" "p_workers ?p = devices f" using stress_pool_reach [OF assms(1)] by simp_all
  note opened = setup_open [OF assms(1,2)]
  note * = goes_on_main [OF _ assms(3)]
  show ?thesis
  proof (cases "ss_main s")
    case (Configuring i)
    then show ?thesis using alive * by (auto simp: main_step_def ask_def on_pool_def pool_step_def)
  next
    case (ConfigAdd i)
    then show ?thesis using assms(2) alive *
      by (auto simp: main_step_def on_pool_def pool_step_def queue_add_def setup_inv_def calls_in_pool_def)
  next
    case (ConfigSend i)
    then show ?thesis using assms(2) alive * opened(2) setup_send_room [OF inv assms(2) ConfigSend] reach(2)
      by (auto simp: main_step_def on_pool_def pool_step_def queue_send_def setup_inv_def calls_in_pool_def)
  next
    case AwaitSetup
    show ?thesis
    proof (cases "p_wg ?p = 0")
      case True
      show ?thesis
      proof (cases "ss_cfgsDone s")
        case True
        then show ?thesis using AwaitSetup * by (simp add: main_step_def)
      next
        case False
        then show ?thesis using AwaitSetup True assms(3)
          by (intro goes_onI [of _ SetupWaited]) (auto simp: stress_step_def setup_waited_def)
      qed
    next
      case False
      then obtain a p' where a: "drains a" "pool_step a ?p = Some p'"
        using pool_progress [OF reach(1) alive] assms(4) reach(2) by auto
      have "q_added ?p = []" using assms(2) AwaitSetup by (simp add: setup_inv_def calls_in_pool_def)
      then show ?thesis using pool_goes_on [OF assms(3) a] AwaitSetup by blast
    qed
  qed (use assms(2,3) in \<open>auto simp: setup_inv_def stress_over_def\<close>)
qed

lemma stopped_interrupted: "stress_reach f s \<Longrightarrow> ss_sim s = SimStopped \<longrightarrow> ss_interrupted s"
proof (induction rule: stress_reach.induct)
  case start
  show ?case by (simp add: stress_start_def)
next
  case (step s act s')
  then show ?case using sim_frame_step [OF step.hyps(2)] by blast
qed

text \<open>A metric about to be sent has room, or a worker can make it.\<close>

lemma sim_send_goes_on:
  assumes "stress_reach f s" and "run_inv f s" and "\<not> stress_over s" and "0 < devices f" and sending: "ss_sim s = SimSend i"
  shows "goes_on f s"
proof -
  let ?p = "ss_pool s"
  have alive: "p_panic ?p = None" and main: "ss_main s = ReadErrors" and calls: "q_added ?p = [MetricJob (int i)]"
    using assms(2,3) sending by (auto simp: stress_over_def run_inv_def sim_calls_def calls_in_pool_def)
  have reach: "pool_reach ?p" "p_workers ?p = devices f" using stress_pool_reach [OF assms(1)] by simp_all
  have sim: "goes_on f s" if "pool_step (QueueSend 0) ?p \<noteq> None"
    using that sending by (intro goes_on_sim [OF _ assms(3)]) (auto simp: sim_step_def on_pool_def)
  show ?thesis
  proof (cases "p_jobs ?p = []")
    case True
    then show ?thesis using alive calls reach(2) assms(4) by (intro sim) (simp add: pool_step_def queue_send_def)
  next
    case False
    then obtain a p' where a: "drains a" "pool_step a ?p = Some p'"
      using jobs_progress [OF reach_workers [OF reach(1)] alive] reach(2) assms(4) by (auto simp: can_step_def)
    show ?thesis
    proof (cases "\<exists>i. a = QueueSend i")
      case True
      then show ?thesis using a(2) calls alive by (intro sim) (auto simp: pool_step_def queue_send_def split: if_splits)
    next
      case False
      then show ?thesis using pool_goes_on [OF assms(3) a] main by blast
    qed
  qed
qed

text \<open>When the simulation has stopped the pool is closed, drained and read to the end.\<close>

lemma stopped_goes_on:
  assumes "stress_reach f s" and "run_inv f s" and "\<not> stress_over s" and "0 < devices f" and stopped: "ss_sim s = SimStopped"
  shows "goes_on f s"
proof -
  let ?p = "ss_pool s"
  have alive: "p_panic ?p = None" and main: "ss_main s = ReadErrors" and added: "q_added ?p = []"
    using assms(2,3) stopped by (auto simp: stress_over_def run_inv_def sim_calls_def calls_in_pool_def)
  have reach: "pool_reach ?p" "p_workers ?p = devices f" using stress_pool_reach [OF assms(1)] by simp_all
  have "ss_interrupted s" using stopped stopped_interrupted [OF assms(1)] by simp
  then have closer: "closer_step s = on_pool (if p_closing ?p = 0 then CloseClosed
      else if p_closing ?p = 1 then CloseJobs else CloseErrs) s"
    using stopped by (simp add: closer_step_def)
  consider "p_closing ?p = 0" | "p_closing ?p = 1" | "p_closing ?p = 2" | "p_errs_closed ?p"
    using reach_pool_inv [OF reach(1)] by (fastforce simp: pool_inv_def)
  then show ?thesis
  proof cases
    case 3
    show ?thesis
    proof (cases "p_wg ?p = 0")
      case True
      then show ?thesis using 3 closer alive
        by (intro goes_on_closer [OF _ assms(3)]) (simp add: on_pool_def pool_step_def close_errs_def)
    next
      case False
      then obtain a p' where "drains a" "pool_step a ?p = Some p'"
        using pool_progress [OF reach(1) alive] assms(4) reach(2) by auto
      then show ?thesis using pool_goes_on [OF assms(3)] added main by blast
    qed
  next
    case 4
    then show ?thesis using alive main
      by (intro goes_on_main [OF _ assms(3)]) (auto simp: main_step_def on_pool_def pool_step_def split: list.split)
  qed (use closer alive in \<open>auto simp: on_pool_def pool_step_def close_closed_def close_jobs_def
         intro!: goes_on_closer [OF _ assms(3)]\<close>)
qed

lemma run_goes_on:
  assumes "stress_reach f s" and "run_inv f s" and "\<not> stress_over s" and "0 < devices f"
  shows "goes_on f s"
proof -
  have alive: "p_panic (ss_pool s) = None" and calls: "sim_calls s"
    using assms(2,3) by (simp_all add: stress_over_def run_inv_def)
  note sim = goes_on_sim [OF _ assms(3), of f]
  show ?thesis
  proof (cases "ss_sim s")
    case (SimCheck i)
    then show ?thesis using alive by (intro sim) (simp add: sim_step_def ask_def on_pool_def pool_step_def)
  next
    case (SimAdd i)
    then show ?thesis using alive calls
      by (intro sim) (auto simp: sim_step_def on_pool_def pool_step_def queue_add_def sim_calls_def calls_in_pool_def)
  next
    case (SimSend i)
    then show ?thesis by (rule sim_send_goes_on [OF assms])
  next
    case SimStopped
    then show ?thesis by (rule stopped_goes_on [OF assms])
  qed (use sim assms(2) in \<open>auto simp: sim_step_def run_inv_def asked_inv_def\<close>)
qed

lemma stress_goes_on:
  assumes "stress_reach f s" and "0 < devices f"
  shows "stress_over s \<or> goes_on f s"
  using stress_reach_inv [OF assms(1)] setup_goes_on [OF assms(1)] run_goes_on [OF assms(1)] assms(2)
  by (auto simp: stress_inv_def)

lemma exec_weight:
  assumes "0 < devices f"
  shows "stress_exec f as s = Some s' \<Longrightarrow> ss_interrupted s \<or> ss_sim s' = SimIdle \<Longrightarrow>
    length as + stress_weight f s' \<le> stress_weight f s \<and> (ss_sim s' = SimIdle \<longrightarrow> ss_sim s = SimIdle)"
proof (induction as arbitrary: s)
  case (Cons a as)
  then obtain q where q: "stress_step f a s = Some q" "stress_exec f as q = Some s'" by (auto split: option.splits)
  note frame = sim_frame_step [OF q(1)]
  have rest: "length as + stress_weight f s' \<le> stress_weight f q" "ss_sim s' = SimIdle \<longrightarrow> ss_sim q = SimIdle"
    using Cons.IH [OF q(2)] Cons.prems(2) frame by auto
  have "ss_interrupted s" if "a = SimStep"
  proof (rule ccontr)
    assume "\<not> ss_interrupted s"
    then have "ss_sim s = SimIdle" using Cons.prems(2) rest(2) frame by blast
    then show False using q(1) that by (auto simp: stress_step_def sim_step_def split: if_splits)
  qed
  from stress_weight_step [OF q(1) this assms] show ?case using rest frame by auto
qed simp

lemma stress_weight_start: "stress_weight f (stress_start f) = 11 * devices f + 36"
  by (simp add: stress_weight_def stress_start_def pool_weight_def Start_def NewWorkerPool_def sum_list_replicate)

text \<open>C16. The setup ends: however the goroutines are scheduled, it takes at most 11 steps for each device
  and 36 more until the simulation starts or the run returns, and until then some goroutine can go
  on; although nobody reads the errors while the configurations are queued, no send of a job and no
  report of an error has to wait, because both buffers hold one entry for each device.\<close>

theorem setup_never_blocks:
  assumes "0 < fl_numDevices f" and "stress_exec f as (stress_start f) = Some s" and "ss_sim s = SimIdle"
  shows "length as \<le> 11 * devices f + 36 \<and> ((\<exists>r. ss_main s = RunEnded r) \<or> goes_on f s) \<and>
    (\<forall>i. ss_main s = ConfigSend i \<longrightarrow> main_step f s \<noteq> None) \<and>
    (\<forall>w e. w < length (p_ws (ss_pool s)) \<longrightarrow> p_ws (ss_pool s) ! w = Reporting e \<longrightarrow> on_pool (Report w) s \<noteq> None)"
proof -
  have pos: "0 < devices f" using assms(1) by simp
  have reach: "stress_reach f s" by (rule stress_reach_exec [OF stress_reach.start assms(2)])
  note inv = stress_reach_inv [OF reach]
  have setup_inv: "setup_inv f s"
    using inv assms(3) by (auto simp: stress_inv_def run_inv_def asked_inv_def)
  note opened = setup_open [OF reach setup_inv]
  have pool: "pool_reach (ss_pool s)" "p_workers (ss_pool s) = devices f" using stress_pool_reach [OF reach] by simp_all
  have alive: "p_panic (ss_pool s) = None"
    using reach_pool_inv [OF pool(1)] opened by (auto simp: pool_inv_def)
  have "length as \<le> 11 * devices f + 36"
    using exec_weight [OF pos assms(2)] assms(3) by (simp add: stress_weight_start)
  moreover have "(\<exists>r. ss_main s = RunEnded r) \<or> goes_on f s"
    using stress_goes_on [OF reach pos] alive by (auto simp: stress_over_def split: main_pc.splits)
  moreover have "main_step f s \<noteq> None" if "ss_main s = ConfigSend i" for i
    using setup_inv that alive opened setup_send_room [OF inv setup_inv that] pool(2)
    by (auto simp: main_step_def on_pool_def pool_step_def queue_send_def setup_inv_def calls_in_pool_def)
  moreover have "on_pool (Report w) s \<noteq> None"
    if "w < length (p_ws (ss_pool s))" "p_ws (ss_pool s) ! w = Reporting e" for w e
    using setup_report_room [OF inv setup_inv that] that alive opened pool(2)
    by (auto simp: on_pool_def pool_step_def report_err_def)
  ultimately show ?thesis by blast
qed

lemma setup_never_blocks_witness:
  "\<exists>s. stress_exec one_device [MainStep, MainStep] (stress_start one_device) = Some s \<and> ss_main s = ConfigSend 0 \<and>
    main_step one_device s \<noteq> None"
proof -
  obtain s where s: "stress_exec one_device [MainStep, MainStep] (stress_start one_device) = Some s"
    "ss_sim s = SimIdle" "ss_main s = ConfigSend 0"
    by (simp add: stress_run_simps)
  have "0 < fl_numDevices one_device" by (simp add: one_device_def)
  from setup_never_blocks [OF this s(1,2)] show ?thesis using s by blast
qed





section \<open>The program\<close>

text \<open>What \<^verbatim>\<open>main\<close> declares.\<close>

definition stress_app :: cli_app where
  "stress_app = \<lparr>cli_Name = ''stress'',
     cli_Usage = ''Stress test a gRPC server hosting the iot.v1.DeviceService API'',
     cli_Flags =
       [StringFlag ''url'' [''u''] ''http://localhost:8080'' ''URL of gRPC server'',
        IntFlag ''devices'' [''d''] 1000 ''Number of devices to simulate'',
        IntFlag ''interval'' [''i''] 100 ''Specifies the interval in milliseconds per request''],
     cli_Commands = [\<lparr>cmd_Name = ''run'', cmd_Usage = ''[default] runs the stress test''\<rparr>],
     cli_DefaultCommand = ''run''\<rparr>"

definition parse_context :: "'c cli_lib \<Rightarrow> (string \<Rightarrow> go_error option) \<Rightarrow> 'c \<Rightarrow> string list + flags" where
  "parse_context lib parse_uri c =
     parseFlags parse_uri (lib_String lib c ''url'') (lib_Int lib c ''devices'') (lib_Int64 lib c ''interval'')"

definition stress_exit :: "go_error option \<Rightarrow> int \<times> LogEntry list" where
  "stress_exit res =
     (case res of
        None \<Rightarrow> (0, [])
      | Some err \<Rightarrow> (1, logger_Error (NewLogger []) ''start stress test failed'' [(''error'', LErr err)] []))"

text \<open>
  \<^verbatim>\<open>main\<close>, with the exit status and what its own logger writes. \<open>result\<close> is what \<^verbatim>\<open>run\<close>
  returns for the flags; flags with errors end the process with status 1.
\<close>

definition stress_main ::
  "'c cli_lib \<Rightarrow> (string \<Rightarrow> go_error option) \<Rightarrow> (flags \<Rightarrow> go_error option) \<Rightarrow> string list \<Rightarrow> int \<times> LogEntry list" where
  "stress_main lib parse_uri result args =
     (case lib_RunContext lib stress_app args of
        CliFailed err \<Rightarrow> stress_exit (Some err)
      | CliShown \<Rightarrow> stress_exit None
      | CliRun c \<Rightarrow>
          (case parse_context lib parse_uri c of
             Inl flagErrs \<Rightarrow> (1, [])
           | Inr f \<Rightarrow> stress_exit (result f)))"

text \<open>Without arguments the client runs with the values its flags declare, and they pass their checks.\<close>

lemma stress_defaults:
  assumes "runs_bare lib stress_app" and "parse_uri ''http://localhost:8080'' = None"
  shows "stress_main lib parse_uri result [] =
    stress_exit (result \<lparr>fl_serviceURL = ''http://localhost:8080'', fl_numDevices = 1000, fl_intervalMS = 100\<rparr>)"
proof -
  obtain c where "lib_RunContext lib stress_app [] = CliRun c" "list_all (reads_flag lib c) (cli_Flags stress_app)"
    using assms(1) by (auto simp: runs_bare_def stress_app_def)
  then show ?thesis
    using assms(2) by (simp add: stress_main_def parse_context_def stress_app_def reads_flag_def parseFlags_def)
qed

text \<open>A run that ends has the flags its loops need, and its exit status tells how it ended.\<close>

lemma parsed_flags: "parse_context lib parse_uri c = Inr f \<Longrightarrow> 0 < fl_numDevices f \<and> 0 \<le> fl_intervalMS f"
  by (auto simp: parse_context_def parseFlags_def Let_def split: if_splits)

end
