(* ===== verification/Concurrency.thy ===== *)
theory Concurrency
  imports Reachability
begin

text \<open>
  Concurrent requests. The server runs every request in a goroutine of its own, and the connection pool
  of size one runs their statements one after the other, so what interleaves are the calls of the
  repository. \<open>call_step\<close> cuts \<^verbatim>\<open>RecordMetric\<close> at these calls; \<open>ConfigureDevice\<close> and
  \<open>GetDeviceAlerts\<close> make only one each. A \<open>system\<close> is the state and the calls under way.
\<close>

section \<open>One call in steps\<close>

text \<open>Where a call is: what it does next, with the configuration it has read; or what it returned.\<close>

datatype call_pc = Saving | Reading | CheckingTemperature Config | CheckingBattery Config
  | Returned "(go_error, unit) outcome"

definition start_call :: "RecordMetricRequest \<Rightarrow> call_pc" where
  "start_call req = (case validateRecordMetricReq req of Some err \<Rightarrow> Returned (Err err) | None \<Rightarrow> Saving)"

definition go_on :: "call_pc \<Rightarrow> (go_error, unit) outcome \<times> 'w \<Rightarrow> call_pc \<times> 'w" where
  "go_on pc = map_prod (\<lambda>r. case r of Ok _ \<Rightarrow> pc | _ \<Rightarrow> Returned r) id"

fun call_step :: "'s Service \<Rightarrow> RecordMetricRequest \<Rightarrow> call_pc \<Rightarrow> 's svc_state \<Rightarrow> call_pc \<times> 's svc_state" where
  "call_step S req Saving w =
     go_on Reading (wrap_err ''save device metric''
       (in_store (repo_SaveDeviceMetric (sv_repo S) (rmr_DeviceID req) (recorded_metric req))) w)"
| "call_step S req Reading w =
     (case in_store (repo_GetDeviceConfig (sv_repo S) (rmr_DeviceID req))
         (log_info (metric_logger S req) ''recorded metric''
           [(''temperature'', LFloat (rmr_Temperature req)), (''battery'', LInt (rmr_Battery req))] w) of
        (Panic p, w') \<Rightarrow> (Returned (Panic p), w')
      | (Err (err, cfg), w') \<Rightarrow>
          (if errors_Is err ErrRepoItemNotFound then Returned (Ok ()) else CheckingTemperature cfg, w')
      | (Ok cfg, w') \<Rightarrow> (CheckingTemperature cfg, w'))"
| "call_step S req (CheckingTemperature cfg) w =
     go_on (CheckingBattery cfg) (check_temperature S (metric_logger S req) req cfg w)"
| "call_step S req (CheckingBattery cfg) w =
     map_prod Returned id (check_battery S (metric_logger S req) req cfg w)"
| "call_step S req (Returned r) w = (Returned r, w)"

text \<open>A call that is not interrupted.\<close>

fun run_call :: "nat \<Rightarrow> 's Service \<Rightarrow> RecordMetricRequest \<Rightarrow> call_pc \<Rightarrow> 's svc_state \<Rightarrow> call_pc \<times> 's svc_state" where
  "run_call 0 S req pc w = (pc, w)"
| "run_call (Suc k) S req pc w = (case call_step S req pc w of (pc', w') \<Rightarrow> run_call k S req pc' w')"

lemma run_returned [simp]: "run_call k S req (Returned r) w = (Returned r, w)"
  by (induction k) simp_all

lemma run_battery:
  "run_call (Suc k) S req (CheckingBattery cfg) w =
   map_prod Returned id (check_battery S (metric_logger S req) req cfg w)"
  by (cases "check_battery S (metric_logger S req) req cfg w") simp

lemma run_raise:
  "run_call (Suc (Suc k)) S req (CheckingTemperature cfg) w = map_prod Returned id
     (on_ok (check_temperature S (metric_logger S req) req cfg)
       (\<lambda>_. check_battery S (metric_logger S req) req cfg) w)"
  by (subst run_call.simps(2)) (auto simp: go_on_def on_ok_def run_battery split: prod.split outcome.split
      simp del: run_call.simps(2))

lemma run_evaluate:
  "run_call (Suc (Suc (Suc k))) S req Reading w =
   map_prod Returned id (evaluate_thresholds S (metric_logger S req) req w)"
  by (subst run_call.simps(2)) (auto simp: evaluate_thresholds_def split: prod.split outcome.split
      simp del: run_call.simps(2) simp: run_raise)

lemma run_record:
  "run_call (4 + k) S req (start_call req) w = map_prod Returned id (RecordMetric S req w)"
proof (cases "validateRecordMetricReq req")
  case None
  have "run_call (Suc (Suc (Suc (Suc k)))) S req Saving w = map_prod Returned id (RecordMetric S req w)"
    by (subst run_call.simps(2)) (auto simp: RecordMetric_valid None go_on_def on_ok_def split: prod.split outcome.split
        simp del: run_call.simps(2) simp: run_evaluate)
  then show ?thesis by (simp add: start_call_def None numeral_eq_Suc del: run_call.simps)
qed (simp add: start_call_def RecordMetric_invalid)

section \<open>What a step does\<close>

text \<open>
  Where a step of a call takes it when the device's configuration is \<open>found\<close>, and the metrics and
  alerts the step has saved.
\<close>

inductive pc_next :: "Config option \<Rightarrow> RecordMetricRequest \<Rightarrow> call_pc \<Rightarrow> call_pc \<Rightarrow> bool" for found req where
  saved: "\<not> is_nan (rmr_Temperature req) \<Longrightarrow> pc_next found req Saving Reading"
| unsaved: "pc_next found req Saving (Returned (Err e))"
| read: "found = Some cfg \<Longrightarrow> pc_next found req Reading (CheckingTemperature cfg)"
| unread: "pc_next found req Reading (CheckingTemperature zero_config)"
| no_config: "found = None \<Longrightarrow> pc_next found req Reading (Returned (Ok ()))"
| compared: "pc_next found req (CheckingTemperature cfg) (CheckingBattery cfg)"
| stopped: "pc_next found req (CheckingTemperature cfg) (Returned (Err e))"
| finished: "pc_next found req (CheckingBattery cfg) (Returned (Ok ()))"
| unfinished: "pc_next found req (CheckingBattery cfg) (Returned (Err e))"
| idle: "pc_next found req (Returned r) (Returned r)"

definition step_metrics :: "RecordMetricRequest \<Rightarrow> call_pc \<Rightarrow> call_pc \<Rightarrow> Metric list" where
  "step_metrics req pc pc' = (if pc = Saving \<and> pc' = Reading then [recorded_metric req] else [])"

definition step_alerts :: "RecordMetricRequest \<Rightarrow> call_pc \<Rightarrow> call_pc \<Rightarrow> Alert list" where
  "step_alerts req pc pc' =
     (case (pc, pc') of
        (CheckingTemperature cfg, CheckingBattery _) \<Rightarrow>
          if f_gt (rmr_Temperature req) (cfg_TemperatureThreshold cfg) then [temperature_alert req cfg] else []
      | (CheckingBattery cfg, Returned (Ok _)) \<Rightarrow>
          if rmr_Battery req < cfg_BatteryThreshold cfg then [battery_alert req cfg] else []
      | _ \<Rightarrow> [])"

definition add_metrics :: "string \<Rightarrow> Metric list \<Rightarrow> contents \<Rightarrow> contents" where
  "add_metrics d ms ct = ct\<lparr>ct_metrics := (ct_metrics ct)(d := ct_metrics ct d @ ms)\<rparr>"

lemma add_metrics_simps [simp]:
  "add_metrics d [] ct = ct" "add_metrics d [m] ct = add_metric d m ct"
  by (simp_all add: add_metrics_def add_metric_def)

context device_store
begin

lemma call_step_effect:
  assumes inv: "inv (st_store w)" and repo: "sv_repo S = R"
    and valid: "pc = Saving \<Longrightarrow> validateRecordMetricReq req = None"
    and step: "call_step S req pc w = (pc', w')"
  shows "inv (st_store w') \<and> pc_next (ct_configs (view (st_store w)) (rmr_DeviceID req)) req pc pc' \<and>
    view (st_store w') = add_alerts (rmr_DeviceID req) (map kept_alert (step_alerts req pc pc'))
      (add_metrics (rmr_DeviceID req) (map kept_metric (step_metrics req pc pc')) (view (st_store w)))"
proof (cases pc)
  case Saving
  then have b: "in_int32 (met_Battery (recorded_metric req))"
    using valid by (simp add: validateRecord_None_iff battery_ok_def in_int32_def)
  obtain q s1 where q: "repo_SaveDeviceMetric R (rmr_DeviceID req) (recorded_metric req) (st_store w) = (q, s1)"
    by fastforce
  from metric_law [OF inv b q] show ?thesis
    using step q repo Saving
    by (auto simp: go_on_def wrap_err_def in_store_def step_alerts_def step_metrics_def
        intro: pc_next.intros split: outcome.splits)
next
  case Reading
  obtain q s1 where q: "repo_GetDeviceConfig R (rmr_DeviceID req) (st_store w) = (q, s1)" by fastforce
  from config_law [OF inv q] show ?thesis
    using step q repo Reading
    by (auto simp: in_store_def step_alerts_def step_metrics_def intro: pc_next.intros)
next
  case (CheckingTemperature cfg)
  obtain q w1 where q: "check_temperature S (metric_logger S req) req cfg w = (q, w1)" by fastforce
  from check_temperature_effect [OF inv repo q] show ?thesis
    using step q CheckingTemperature
    by (auto simp: go_on_def step_alerts_def step_metrics_def intro: pc_next.intros)
next
  case (CheckingBattery cfg)
  obtain q w1 where q: "check_battery S (metric_logger S req) req cfg w = (q, w1)" by fastforce
  from check_battery_effect [OF inv repo q] show ?thesis
    using step q CheckingBattery
    by (auto simp: step_alerts_def step_metrics_def intro: pc_next.intros)
next
  case (Returned r)
  then show ?thesis using inv step by (auto simp: step_alerts_def step_metrics_def intro: pc_next.intros)
qed

end

section \<open>The system\<close>

text \<open>A call under way, with the metrics and alerts it has saved so far.\<close>

record call =
  c_req :: RecordMetricRequest
  c_pc :: call_pc
  c_metrics :: "Metric list"
  c_alerts :: "Alert list"

record system =
  sys_state :: "database svc_state"
  sys_calls :: "call list"

definition new_call :: "RecordMetricRequest \<Rightarrow> call" where
  "new_call req = \<lparr>c_req = req, c_pc = start_call req, c_metrics = [], c_alerts = []\<rparr>"

definition move_call :: "call_pc \<Rightarrow> call \<Rightarrow> call" where
  "move_call pc k = k\<lparr>c_pc := pc, c_metrics := c_metrics k @ step_metrics (c_req k) (c_pc k) pc,
     c_alerts := c_alerts k @ step_alerts (c_req k) (c_pc k) pc\<rparr>"

definition calls_of :: "system \<Rightarrow> string \<Rightarrow> call list" where
  "calls_of c d = filter (\<lambda>k. rmr_DeviceID (c_req k) = d) (sys_calls c)"

definition idle_system :: system where
  "idle_system = \<lparr>sys_state = \<lparr>st_store = empty_db, st_log = []\<rparr>, sys_calls = []\<rparr>"

inductive sys_step :: "Logger \<Rightarrow> system \<Rightarrow> system \<Rightarrow> bool" for l where
  arrive: "sys_step l c (c\<lparr>sys_calls := sys_calls c @ [new_call req]\<rparr>)"
| advance: "i < length (sys_calls c) \<Longrightarrow>
    call_step (svc l) (c_req (sys_calls c ! i)) (c_pc (sys_calls c ! i)) (sys_state c) = (pc, w) \<Longrightarrow>
    sys_step l c (c\<lparr>sys_state := w, sys_calls := (sys_calls c)[i := move_call pc (sys_calls c ! i)]\<rparr>)"
| configures: "ConfigureDevice (svc l) creq (sys_state c) = (r, w) \<Longrightarrow> sys_step l c (c\<lparr>sys_state := w\<rparr>)"
| lists: "GetDeviceAlerts (svc l) greq (sys_state c) = (res, w) \<Longrightarrow> sys_step l c (c\<lparr>sys_state := w\<rparr>)"
| faults: "(\<And>e. Some e \<in> set fs \<Longrightarrow> driver_error e) \<Longrightarrow>
    sys_step l c (c\<lparr>sys_state := (sys_state c)\<lparr>st_store := (st_store (sys_state c))\<lparr>db_faults := fs\<rparr>\<rparr>\<rparr>)"

abbreviation sys_steps :: "Logger \<Rightarrow> system \<Rightarrow> system \<Rightarrow> bool" where
  "sys_steps l \<equiv> (sys_step l)\<^sup>*\<^sup>*"

section \<open>The invariant\<close>

text \<open>What a call has saved, by where it is.\<close>

definition returned_ok :: "RecordMetricRequest \<Rightarrow> (go_error, unit) outcome \<Rightarrow> Metric list \<Rightarrow> Alert list \<Rightarrow> bool" where
  "returned_ok req r ms as \<longleftrightarrow> (ms = [] \<and> as = [] \<and> (\<exists>e. r = Err e)) \<or>
     (ms = [recorded_metric req] \<and> (\<exists>found. alert_outcome found req r as))"

definition call_ok :: "call \<Rightarrow> bool" where
  "call_ok k \<longleftrightarrow>
     ((c_metrics k \<noteq> [] \<or> c_pc k = Saving) \<longrightarrow> validateRecordMetricReq (c_req k) = None) \<and>
     (c_metrics k \<noteq> [] \<longrightarrow> \<not> is_nan (rmr_Temperature (c_req k))) \<and>
     (case c_pc k of
        Saving \<Rightarrow> c_metrics k = [] \<and> c_alerts k = []
      | Reading \<Rightarrow> c_metrics k = [recorded_metric (c_req k)] \<and> c_alerts k = []
      | CheckingTemperature cfg \<Rightarrow> c_metrics k = [recorded_metric (c_req k)] \<and> c_alerts k = []
      | CheckingBattery cfg \<Rightarrow> c_metrics k = [recorded_metric (c_req k)] \<and>
          c_alerts k = (if f_gt (rmr_Temperature (c_req k)) (cfg_TemperatureThreshold cfg)
                        then [temperature_alert (c_req k) cfg] else [])
      | Returned r \<Rightarrow> returned_ok (c_req k) r (c_metrics k) (c_alerts k))"

lemma new_call_ok: "call_ok (new_call req)"
  by (simp add: call_ok_def new_call_def start_call_def returned_ok_def split: option.split)

lemma returned_ok_take:
  assumes "as = take n (alerts_raised req cfg)"
    and "r = Ok () \<and> n = length (alerts_raised req cfg) \<or> (\<exists>e. r = Err e)"
  shows "returned_ok req r [recorded_metric req] as"
  using assms alert_outcomeI [of "Some cfg" cfg r n req] by (auto simp: returned_ok_def)

lemma move_call_ok:
  assumes "call_ok k" and "pc_next found (c_req k) (c_pc k) pc"
  shows "call_ok (move_call pc k)"
  using assms(2)
proof (cases rule: pc_next.cases)
  case (no_config)
  then show ?thesis using assms(1)
    by (auto simp: call_ok_def move_call_def step_metrics_def step_alerts_def returned_ok_def alert_outcome_def)
next
  case (stopped cfg e)
  then show ?thesis using assms(1) returned_ok_take [of "[]" 0 "c_req k" cfg "Err e"]
    by (auto simp: call_ok_def move_call_def step_metrics_def step_alerts_def)
next
  case (finished cfg)
  then show ?thesis
    using assms(1) returned_ok_take [of _ "length (alerts_raised (c_req k) cfg)" "c_req k" cfg "Ok ()"]
    by (auto simp: call_ok_def move_call_def step_metrics_def step_alerts_def alerts_raised_def)
next
  case (unfinished cfg e)
  then show ?thesis
    using assms(1) returned_ok_take [of "[]" 0 "c_req k" cfg "Err e"]
      returned_ok_take [of _ 1 "c_req k" cfg "Err e"]
    by (auto simp: call_ok_def move_call_def step_metrics_def step_alerts_def alerts_raised_def)
qed (use assms(1) in \<open>auto simp: call_ok_def move_call_def step_metrics_def step_alerts_def returned_ok_def\<close>)

text \<open>What all calls for a device have saved together.\<close>

definition saved_metrics :: "system \<Rightarrow> string \<Rightarrow> Metric list" where
  "saved_metrics c d = map kept_metric (concat (map c_metrics (calls_of c d)))"

definition saved_alerts :: "system \<Rightarrow> string \<Rightarrow> Alert list" where
  "saved_alerts c d = map kept_alert (concat (map c_alerts (calls_of c d)))"

definition thresholds_ok :: "contents \<Rightarrow> bool" where
  "thresholds_ok ct \<longleftrightarrow> (\<forall>d cfg. ct_configs ct d = Some cfg \<longrightarrow>
     temperature_ok (cfg_TemperatureThreshold cfg) \<and> battery_ok (cfg_BatteryThreshold cfg))"

definition sys_ok :: "system \<Rightarrow> bool" where
  "sys_ok c \<longleftrightarrow> db_inv (st_store (sys_state c)) \<and> list_all call_ok (sys_calls c) \<and>
     thresholds_ok (db_view (st_store (sys_state c))) \<and>
     (\<forall>d. mset (metrics_of (st_store (sys_state c)) d) = mset (saved_metrics c d) \<and>
          mset (alerts_of (st_store (sys_state c)) d) = mset (saved_alerts c d))"

lemma mset_concat_update:
  assumes "i < length ks" and "P y = P (ks ! i)" and "f y = f (ks ! i) @ z"
  shows "mset (concat (map f (filter P (ks[i := y])))) =
    mset (concat (map f (filter P ks))) + (if P y then mset z else {#})"
  using assms by (induction ks arbitrary: i) (auto split: nat.splits)

lemma move_call_simps [simp]:
  "c_req (move_call pc k) = c_req k" "c_pc (move_call pc k) = pc"
  "c_metrics (move_call pc k) = c_metrics k @ step_metrics (c_req k) (c_pc k) pc"
  "c_alerts (move_call pc k) = c_alerts k @ step_alerts (c_req k) (c_pc k) pc"
  by (simp_all add: move_call_def)

lemma saved_move:
  fixes w :: "database svc_state" and pc :: call_pc
  assumes i: "i < length (sys_calls c)"
  defines "k \<equiv> sys_calls c ! i"
  defines "c' \<equiv> c\<lparr>sys_state := w, sys_calls := (sys_calls c)[i := move_call pc k]\<rparr>"
  shows "mset (saved_metrics c' d) = mset (saved_metrics c d) +
      (if d = rmr_DeviceID (c_req k) then mset (map kept_metric (step_metrics (c_req k) (c_pc k) pc)) else {#})"
    and "mset (saved_alerts c' d) = mset (saved_alerts c d) +
      (if d = rmr_DeviceID (c_req k) then mset (map kept_alert (step_alerts (c_req k) (c_pc k) pc)) else {#})"
  using mset_concat_update [OF i, of "\<lambda>k. rmr_DeviceID (c_req k) = d" "move_call pc k" c_metrics]
    mset_concat_update [OF i, of "\<lambda>k. rmr_DeviceID (c_req k) = d" "move_call pc k" c_alerts]
  by (simp_all add: k_def c'_def saved_metrics_def saved_alerts_def calls_of_def)

lemma saved_arrive [simp]:
  "saved_metrics (c\<lparr>sys_calls := sys_calls c @ [new_call req]\<rparr>) d = saved_metrics c d"
  "saved_alerts (c\<lparr>sys_calls := sys_calls c @ [new_call req]\<rparr>) d = saved_alerts c d"
  by (simp_all add: saved_metrics_def saved_alerts_def calls_of_def new_call_def)

lemma saved_state [simp]:
  "saved_metrics (c\<lparr>sys_state := w\<rparr>) d = saved_metrics c d" "saved_alerts (c\<lparr>sys_state := w\<rparr>) d = saved_alerts c d"
  by (simp_all add: saved_metrics_def saved_alerts_def calls_of_def)

lemma advance_ok:
  assumes ok: "sys_ok c" and i: "i < length (sys_calls c)"
    and step: "call_step (svc l) (c_req (sys_calls c ! i)) (c_pc (sys_calls c ! i)) (sys_state c) = (pc, w)"
  shows "sys_ok (c\<lparr>sys_state := w, sys_calls := (sys_calls c)[i := move_call pc (sys_calls c ! i)]\<rparr>)"
proof -
  let ?k = "sys_calls c ! i"
  have inv: "db_inv (st_store (sys_state c))" and k: "call_ok ?k"
    using ok i by (auto simp: sys_ok_def list_all_length)
  have valid: "c_pc ?k = Saving \<Longrightarrow> validateRecordMetricReq (c_req ?k) = None"
    using k by (simp add: call_ok_def)
  note effect = store.call_step_effect [OF inv svc_repo valid step]
  then have "call_ok (move_call pc ?k)" using k move_call_ok by blast
  then have calls: "list_all call_ok ((sys_calls c)[i := move_call pc ?k])"
    using ok set_update_subset_insert [of "sys_calls c" i "move_call pc ?k"] by (auto simp: sys_ok_def list_all_iff)
  have v: "db_view (st_store w) = add_alerts (rmr_DeviceID (c_req ?k)) (map kept_alert (step_alerts (c_req ?k) (c_pc ?k) pc))
      (add_metrics (rmr_DeviceID (c_req ?k)) (map kept_metric (step_metrics (c_req ?k) (c_pc ?k) pc))
        (db_view (st_store (sys_state c))))" using effect by simp
  have view:
    "metrics_of (st_store w) d = metrics_of (st_store (sys_state c)) d @
      (if d = rmr_DeviceID (c_req ?k) then map kept_metric (step_metrics (c_req ?k) (c_pc ?k) pc) else [])"
    "alerts_of (st_store w) d = alerts_of (st_store (sys_state c)) d @
      (if d = rmr_DeviceID (c_req ?k) then map kept_alert (step_alerts (c_req ?k) (c_pc ?k) pc) else [])"
    "configs_of (st_store w) = configs_of (st_store (sys_state c))" for d
    using arg_cong [OF v, of "\<lambda>ct. ct_metrics ct d"] arg_cong [OF v, of "\<lambda>ct. ct_alerts ct d"]
      arg_cong [OF v, of ct_configs] by (simp_all add: add_metrics_def)
  have "db_inv (st_store w)" using effect by simp
  then show ?thesis using ok calls i
    by (simp add: sys_ok_def saved_move thresholds_ok_def view)
qed

lemma sys_step_ok: "sys_step l c c' \<Longrightarrow> sys_ok c \<Longrightarrow> sys_ok c'"
proof (induction rule: sys_step.induct)
  case (arrive c req)
  then show ?case by (simp add: sys_ok_def new_call_ok)
next
  case (advance i c pc w)
  then show ?case using advance_ok by blast
next
  case (configures creq c r w)
  have inv: "db_inv (st_store (sys_state c))" using configures.prems by (simp add: sys_ok_def)
  from store.configure_effect [OF inv svc_repo configures.hyps] configures.prems show ?case
    by (auto simp: sys_ok_def thresholds_ok_def validateConfigure_None_iff requested_config_def
        simp flip: db_view_simps split: if_splits)
next
  case (lists greq c res w)
  have inv: "db_inv (st_store (sys_state c))" using lists.prems by (simp add: sys_ok_def)
  from store.alerts_keep [OF inv svc_repo lists.hyps] lists.prems show ?case
    by (simp add: sys_ok_def flip: db_view_simps)
next
  case (faults fs c)
  then show ?case by (auto simp: sys_ok_def db_inv_def)
qed

lemma sys_steps_ok: "sys_steps l c c' \<Longrightarrow> sys_ok c \<Longrightarrow> sys_ok c'"
  by (induction rule: rtranclp_induct) (auto intro: sys_step_ok)

lemma empty_contents [simp]:
  "metrics_of empty_db d = []" "alerts_of empty_db d = []" "configs_of empty_db d = None"
  by (simp_all add: metrics_of_def alerts_of_def configs_of_def empty_db_def)

lemma idle_ok: "sys_ok idle_system"
  by (simp add: sys_ok_def idle_system_def thresholds_ok_def saved_metrics_def saved_alerts_def calls_of_def)

lemmas reached_ok = sys_steps_ok [OF _ idle_ok]

lemma call_alerts:
  assumes "call_ok k"
  shows "length (c_alerts k) \<le> 2 * length (c_metrics k) \<and>
    (\<forall>a \<in> set (c_alerts k). \<exists>m \<in> set (c_metrics k). justified (kept_metric m) (kept_alert a)) \<and>
    (\<forall>m \<in> set (c_metrics k). metric_ok (kept_metric m))"
proof -
  have m: "metric_ok (kept_metric (recorded_metric (c_req k)))"
    if "validateRecordMetricReq (c_req k) = None" "\<not> is_nan (rmr_Temperature (c_req k))"
    using that by (simp add: metric_ok_def kept_metric_def recorded_metric_def validateRecord_None_iff)
  have t: "justified (kept_metric (recorded_metric (c_req k))) (kept_alert (temperature_alert (c_req k) cfg))"
    if "f_gt (rmr_Temperature (c_req k)) (cfg_TemperatureThreshold cfg)" for cfg
    using that raised_justified [of _ "c_req k" cfg] by (simp add: alerts_raised_def)
  have r: "length (c_alerts k) \<le> 2 \<and>
      (\<forall>a \<in> set (c_alerts k). justified (kept_metric (recorded_metric (c_req k))) (kept_alert a))"
    if "alert_outcome found (c_req k) r (c_alerts k)" for found r
    using outcome_alerts [OF that] .
  show ?thesis
    using assms m t r by (cases "c_pc k") (auto simp: call_ok_def returned_ok_def)
qed

lemma sum_le_concat:
  "list_all (\<lambda>k. length (f k) \<le> 2 * length (g k)) ks \<Longrightarrow>
   length (concat (map f ks)) \<le> 2 * length (concat (map g ks))"
  by (induction ks) auto

lemma sys_contents_ok:
  assumes "sys_ok c"
  shows "contents_ok (db_view (st_store (sys_state c)))"
proof -
  let ?db = "st_store (sys_state c)"
  have calls: "list_all call_ok (calls_of c d)" for d
    using assms by (auto simp: sys_ok_def calls_of_def list_all_iff)
  have m: "mset (metrics_of ?db d) = mset (saved_metrics c d)"
    and a: "mset (alerts_of ?db d) = mset (saved_alerts c d)" for d
    using assms by (simp_all add: sys_ok_def)
  have ms: "set (metrics_of ?db d) = set (saved_metrics c d)" and as: "set (alerts_of ?db d) = set (saved_alerts c d)"
    for d using m [of d] a [of d] by (metis set_mset_mset)+
  have "length (saved_alerts c d) \<le> 2 * length (saved_metrics c d)" for d
    using calls [of d] call_alerts sum_le_concat [of c_alerts c_metrics "calls_of c d"]
    by (auto simp: saved_alerts_def saved_metrics_def list_all_iff)
  then have "length (alerts_of ?db d) \<le> 2 * length (metrics_of ?db d)" for d
    using m [of d] a [of d] by (metis size_mset)
  moreover have "\<exists>m \<in> set (metrics_of ?db d). justified m x" if "x \<in> set (alerts_of ?db d)" for x d
  proof -
    note x = that
    obtain k y where k: "k \<in> set (calls_of c d)" "y \<in> set (c_alerts k)" "x = kept_alert y"
      using x by (auto simp: as saved_alerts_def)
    then obtain z where "z \<in> set (c_metrics k)" "justified (kept_metric z) x"
      using call_alerts [of k] calls [of d] by (auto simp: list_all_iff)
    then show ?thesis using k by (auto simp: ms saved_metrics_def)
  qed
  moreover have "metric_ok x" if "x \<in> set (metrics_of ?db d)" for x d
    using that call_alerts calls [of d] by (fastforce simp: ms saved_metrics_def list_all_iff)
  ultimately show ?thesis using assms by (auto simp: contents_ok_def sys_ok_def thresholds_ok_def)
qed

section \<open>What a call is judged by\<close>

lemma config_read:
  assumes "\<nexists>e fs. db_faults db = Some e # fs"
  shows "fst (GetDeviceConfig_repo d db) =
    (case configs_of db d of Some c \<Rightarrow> Ok c | None \<Rightarrow> Err (ErrRepoItemNotFound, zero_config))"
  using assms
  by (auto simp: GetDeviceConfig_repo_def GetDeviceConfig_q_def db_call_def configs_of_def config_of_row_def
      split: list.split option.split)

lemma reading_step:
  assumes inv: "db_inv (st_store w)" and step: "call_step (svc l) req Reading w = (pc, w')"
  shows "(\<exists>cfg. pc = CheckingTemperature cfg \<and> (configs_of (st_store w) (rmr_DeviceID req) = Some cfg \<or>
      cfg = zero_config \<and> (\<exists>e fs. db_faults (st_store w) = Some e # fs))) \<or>
    pc = Returned (Ok ()) \<and> configs_of (st_store w) (rmr_DeviceID req) = None"
proof (cases "\<exists>e fs. db_faults (st_store w) = Some e # fs")
  case True
  have "pc_next (ct_configs (db_view (st_store w)) (rmr_DeviceID req)) req Reading pc"
    using store.call_step_effect [OF inv svc_repo _ step] by simp
  then show ?thesis using True by cases auto
next
  case False
  then have "fst (GetDeviceConfig_repo (rmr_DeviceID req) (st_store w)) = (case configs_of (st_store w) (rmr_DeviceID req) of
      Some c \<Rightarrow> Ok c | None \<Rightarrow> Err (ErrRepoItemNotFound, zero_config))"
    by (intro config_read) blast
  then show ?thesis using step
    by (cases "GetDeviceConfig_repo (rmr_DeviceID req) (st_store w)")
      (auto simp: in_store_def NewDeviceRepository_def split: option.splits)
qed

lemma sys_step_call:
  assumes "sys_step l c c'" and "i < length (sys_calls c)"
  shows "i < length (sys_calls c') \<and> (sys_calls c' ! i = sys_calls c ! i \<or>
    (\<exists>pc w. call_step (svc l) (c_req (sys_calls c ! i)) (c_pc (sys_calls c ! i)) (sys_state c) = (pc, w) \<and>
       sys_calls c' ! i = move_call pc (sys_calls c ! i)))"
  using assms by (induction rule: sys_step.induct) (auto simp: nth_append nth_list_update)

text \<open>
  Between \<open>c0\<close> and \<open>c1\<close> there was a moment at which the device's configuration was \<open>found\<close>, or,
  for the zero configuration, at which the database was about to fail.
\<close>

definition judged_between :: "Logger \<Rightarrow> system \<Rightarrow> system \<Rightarrow> string \<Rightarrow> Config option \<Rightarrow> bool" where
  "judged_between l c0 c1 d found \<longleftrightarrow> (\<exists>m. sys_steps l c0 m \<and> sys_steps l m c1 \<and>
     (configs_of (st_store (sys_state m)) d = found \<or>
      found = Some zero_config \<and> (\<exists>e fs. db_faults (st_store (sys_state m)) = Some e # fs)))"

definition alerts_for :: "Config option \<Rightarrow> RecordMetricRequest \<Rightarrow> Alert list" where
  "alerts_for found req = (case found of None \<Rightarrow> [] | Some cfg \<Rightarrow> alerts_raised req cfg)"

lemma judged_on: "judged_between l c0 c d found \<Longrightarrow> sys_step l c c1 \<Longrightarrow> judged_between l c0 c1 d found"
  unfolding judged_between_def by (blast intro: rtranclp.rtrancl_into_rtrancl)

fun judging :: "Logger \<Rightarrow> system \<Rightarrow> system \<Rightarrow> call \<Rightarrow> call_pc \<Rightarrow> bool" where
  "judging l c0 c k (CheckingTemperature cfg) \<longleftrightarrow> judged_between l c0 c (rmr_DeviceID (c_req k)) (Some cfg)"
| "judging l c0 c k (CheckingBattery cfg) \<longleftrightarrow> judged_between l c0 c (rmr_DeviceID (c_req k)) (Some cfg)"
| "judging l c0 c k (Returned (Ok _)) \<longleftrightarrow> (\<exists>found. judged_between l c0 c (rmr_DeviceID (c_req k)) found \<and>
     c_alerts k = alerts_for found (c_req k))"
| "judging l c0 c k _ \<longleftrightarrow> True"

lemma judging_on:
  assumes "judging l c0 c k pc" and "sys_step l c c1"
  shows "judging l c0 c1 k pc"
  using assms by (induction l c0 c k pc rule: judging.induct) (auto intro: judged_on)

lemma judging_moves:
  assumes ok: "sys_ok c" and from_start: "sys_steps l c0 c" and i: "i < length (sys_calls c)"
    and k: "k = sys_calls c ! i" and IH: "judging l c0 c k (c_pc k)"
    and step: "call_step (svc l) (c_req k) (c_pc k) (sys_state c) = (pc, w)" and next_c: "sys_step l c c1"
  shows "judging l c0 c1 (move_call pc k) pc"
proof -
  have inv: "db_inv (st_store (sys_state c))" and call: "call_ok k"
    using ok i k by (auto simp: sys_ok_def list_all_length)
  have here: "judged_between l c0 c1 d found" if "configs_of (st_store (sys_state c)) d = found \<or>
      found = Some zero_config \<and> (\<exists>e fs. db_faults (st_store (sys_state c)) = Some e # fs)" for d found
    unfolding judged_between_def using from_start next_c that by blast
  have moved: "pc_next (ct_configs (db_view (st_store (sys_state c))) (rmr_DeviceID (c_req k))) (c_req k) (c_pc k) pc"
    using store.call_step_effect [OF inv svc_repo _ step] call by (simp add: call_ok_def)
  show ?thesis
  proof (cases "c_pc k")
    case Reading
    have "c_alerts k = []" using call Reading by (simp add: call_ok_def)
    then show ?thesis
      using reading_step [OF inv, of l "c_req k" pc w] step Reading
      by (auto simp: step_alerts_def alerts_for_def intro!: here exI [of _ None])
  next
    case (CheckingBattery cfg)
    from moved have "pc = Returned (Ok ()) \<or> (\<exists>e. pc = Returned (Err e))"
      unfolding CheckingBattery by cases auto
    then show ?thesis using IH judged_on [OF _ next_c] call CheckingBattery
      by (auto simp: step_alerts_def alerts_for_def alerts_raised_def call_ok_def intro!: exI [of _ "Some cfg"])
  next
    case Saving
    from moved show ?thesis unfolding Saving by cases auto
  next
    case (CheckingTemperature cfg)
    from moved show ?thesis using IH judged_on [OF _ next_c]
      unfolding CheckingTemperature by cases auto
  next
    case (Returned r)
    then have pc: "pc = Returned r" using step by simp
    have "move_call pc k = k"
      unfolding pc using Returned by (simp add: move_call_def step_metrics_def step_alerts_def)
    then show ?thesis using judging_on [OF IH next_c] Returned pc by simp
  qed
qed

lemma judging_kept:
  assumes "sys_steps l c0 c" and "sys_ok c0" and "i < length (sys_calls c0)"
    and "c_pc (sys_calls c0 ! i) = Saving \<or> c_pc (sys_calls c0 ! i) = Reading"
  shows "i < length (sys_calls c) \<and> c_req (sys_calls c ! i) = c_req (sys_calls c0 ! i) \<and>
    judging l c0 c (sys_calls c ! i) (c_pc (sys_calls c ! i))"
  using assms(1)
proof (induction rule: rtranclp_induct)
  case base
  then show ?case using assms(3,4) by auto
next
  case (step c c1)
  have ok: "sys_ok c" using step.hyps(1) assms(2) by (rule sys_steps_ok)
  from sys_step_call [OF step.hyps(2)] step.IH
  consider (kept) "sys_calls c1 ! i = sys_calls c ! i"
    | (moved) pc w where "sys_calls c1 ! i = move_call pc (sys_calls c ! i)"
      "call_step (svc l) (c_req (sys_calls c ! i)) (c_pc (sys_calls c ! i)) (sys_state c) = (pc, w)"
    by blast
  then show ?case
  proof cases
    case kept
    then show ?thesis using step.IH judging_on [OF _ step.hyps(2)] sys_step_call [OF step.hyps(2)] by simp
  next
    case moved
    then show ?thesis
      using step.IH judging_moves [OF ok step.hyps(1) _ refl _ moved(2) step.hyps(2)]
        sys_step_call [OF step.hyps(2)] by simp
  qed
qed

section \<open>Schedules\<close>

text \<open>A schedule of what happens next, run from an idle system; used to look at one interleaving.\<close>

datatype event = Arrive RecordMetricRequest | Advance nat | Configure ConfigureDeviceRequest
  | Fault "go_error option list"

fun do_event :: "Logger \<Rightarrow> event \<Rightarrow> system \<Rightarrow> system" where
  "do_event l (Arrive req) c = c\<lparr>sys_calls := sys_calls c @ [new_call req]\<rparr>"
| "do_event l (Advance i) c =
     (if i < length (sys_calls c) then
        (case call_step (svc l) (c_req (sys_calls c ! i)) (c_pc (sys_calls c ! i)) (sys_state c) of
           (pc, w) \<Rightarrow> c\<lparr>sys_state := w, sys_calls := (sys_calls c)[i := move_call pc (sys_calls c ! i)]\<rparr>)
      else c)"
| "do_event l (Configure creq) c = c\<lparr>sys_state := snd (ConfigureDevice (svc l) creq (sys_state c))\<rparr>"
| "do_event l (Fault fs) c =
     (if list_all (\<lambda>f. case f of None \<Rightarrow> True | Some e \<Rightarrow> driver_error e) fs
      then c\<lparr>sys_state := (sys_state c)\<lparr>st_store := (st_store (sys_state c))\<lparr>db_faults := fs\<rparr>\<rparr>\<rparr> else c)"

definition schedule :: "Logger \<Rightarrow> event list \<Rightarrow> system" where
  "schedule l es = fold (do_event l) es idle_system"

lemma do_event_steps: "sys_steps l c (do_event l e c)"
proof (cases e)
  case (Configure creq)
  then show ?thesis using sys_step.configures [OF prod.collapse [symmetric], of l c creq] by auto
qed (auto simp: list_all_iff split: prod.split option.splits
  intro!: r_into_rtranclp sys_step.arrive sys_step.advance sys_step.faults)

lemma fold_events_steps: "sys_steps l c (fold (do_event l) es c)"
  by (induction es arbitrary: c) (auto intro: do_event_steps rtranclp_trans)

lemma schedule_steps: "sys_steps l idle_system (schedule l es)"
  unfolding schedule_def by (rule fold_events_steps)

lemma schedule_append: "sys_steps l (schedule l es) (schedule l (es @ es'))"
  unfolding schedule_def fold_append comp_apply by (rule fold_events_steps)

text \<open>Two metrics of a device, whose calls overlap, and its thresholds, set between them.\<close>

definition hot_metric :: RecordMetricRequest where
  "hot_metric = \<lparr>rmr_DeviceID = ''d1'', rmr_Temperature = FFin False 31 0, rmr_Battery = 5,
     rmr_Timestamp = \<lparr>t_sec = 63881154000, t_nsec = 5, t_off = 7200\<rparr>\<rparr>"

definition cold_metric :: RecordMetricRequest where
  "cold_metric = hot_metric\<lparr>rmr_Temperature := FFin False 3 0\<rparr>"

definition set_thresholds :: ConfigureDeviceRequest where
  "set_thresholds = \<lparr>cdr_DeviceID = ''d1'', cdr_TemperatureThreshold = FFin False 20 0, cdr_BatteryThreshold = 15\<rparr>"

definition overlap_start :: "event list" where
  "overlap_start = [Arrive hot_metric, Arrive cold_metric, Advance 0, Advance 1]"

definition overlap_rest :: "event list" where
  "overlap_rest = [Configure set_thresholds, Advance 1, Advance 0, Advance 1, Advance 0, Advance 0, Advance 1]"

lemma overlap_alerts:
  "map al_Reason (alerts_of (st_store (sys_state (schedule (NewLogger []) (overlap_start @ overlap_rest)))) ''d1'') =
     [AlertReasonTemperatureHigh, AlertReasonBatteryLow, AlertReasonBatteryLow]"
  by code_simp

lemma overlap_calls:
  "c_pc (sys_calls (schedule (NewLogger []) overlap_start) ! 0) = Reading"
  "length (sys_calls (schedule (NewLogger []) overlap_start)) = 2"
  "c_pc (sys_calls (schedule (NewLogger []) (overlap_start @ overlap_rest)) ! 0) = Returned (Ok ())"
  by code_simp+

section \<open>Properties\<close>


text \<open>C10. Under every interleaving of requests and every fault of the engine, the store holds exactly what the
  calls saved: the metrics of a device are those of its calls, one for each call that got past saving, and its
  alerts are those its calls raised; nothing is lost, doubled or mixed up between devices. A call that
  returned without an error has its metric and all the alerts of one configuration in the store.\<close>

theorem calls_account_for_contents:
  assumes "sys_steps l idle_system c"
  shows "mset (metrics_of (st_store (sys_state c)) d) = mset (saved_metrics c d) \<and>
    mset (alerts_of (st_store (sys_state c)) d) = mset (saved_alerts c d) \<and>
    list_all call_ok (sys_calls c)"
  using reached_ok [OF assms] by (simp add: sys_ok_def)

lemma calls_account_for_contents_witness:
  "length (saved_alerts (schedule (NewLogger []) (overlap_start @ overlap_rest)) ''d1'') = 3"
proof -
  have "length (alerts_of (st_store (sys_state (schedule (NewLogger []) (overlap_start @ overlap_rest)))) ''d1'') = 3"
    using arg_cong [OF overlap_alerts, of length] by simp
  then show ?thesis
    using calls_account_for_contents [OF schedule_steps, THEN conjunct2, THEN conjunct1] by (metis size_mset)
qed

text \<open>C12. What is stored stays justified when requests overlap: each alert of a device has a stored metric of
  that device with the same time and a reading beyond the quoted threshold, there are at most two
  alerts per metric, and every stored reading is within the limits.\<close>

theorem overlapping_alerts_justified:
  assumes "sys_steps l idle_system c"
  shows "(\<forall>a \<in> set (alerts_of (st_store (sys_state c)) d). \<exists>m \<in> set (metrics_of (st_store (sys_state c)) d). justified m a) \<and>
    length (alerts_of (st_store (sys_state c)) d) \<le> 2 * length (metrics_of (st_store (sys_state c)) d) \<and>
    (\<forall>m \<in> set (metrics_of (st_store (sys_state c)) d). metric_ok m)"
  using sys_contents_ok [OF reached_ok [OF assms]] by (auto simp: contents_ok_def)

lemma overlapping_alerts_justified_witness:
  "list_all metric_ok (metrics_of (st_store (sys_state (schedule (NewLogger []) (overlap_start @ overlap_rest)))) ''d1'')"
  unfolding list_all_iff using overlapping_alerts_justified [OF schedule_steps] by blast



end
