(* ===== verification/EndToEnd.thy ===== *)
theory EndToEnd
  imports Concurrency Server
begin

text \<open>
  A metric sent over REST or Connect, through the middlewares, the handler, the service and the
  repository to the database and back: which errors the service returns, and what the client is
  answered.
\<close>

section \<open>The errors of the service\<close>

text \<open>
  An error with nothing structured in it, as the documented errors of the engine are; a run that
  returns only such errors when the engine does.
\<close>

definition plain_error :: "go_error \<Rightarrow> bool" where
  "plain_error e \<longleftrightarrow> errors_As is_bad_request e = None \<and> errors_As is_echo_error e = None \<and>
     errors_As is_connect_error e = None"

definition plain_faults :: "database \<Rightarrow> bool" where
  "plain_faults db \<longleftrightarrow> (\<forall>e. Some e \<in> set (db_faults db) \<longrightarrow> plain_error e)"

definition plain_run :: "(database svc_state, go_error, 'a) run \<Rightarrow> bool" where
  "plain_run m \<longleftrightarrow> (\<forall>w r w'. plain_faults (st_store w) \<and> m w = (r, w') \<longrightarrow>
     plain_faults (st_store w') \<and> (\<forall>e. r = Err e \<longrightarrow> plain_error e))"

lemma plain_errors [simp]: "plain_error (ErrNew s)" "plain_error (ErrWrapf p e) \<longleftrightarrow> plain_error e"
  by (simp_all add: plain_error_def)

lemma plain_runD:
  "plain_run m \<Longrightarrow> m w = (r, w') \<Longrightarrow> plain_faults (st_store w) \<Longrightarrow>
   plain_faults (st_store w') \<and> (\<forall>e. r = Err e \<longrightarrow> plain_error e)"
  by (auto simp: plain_run_def)

lemma plain_runI:
  "(\<And>w r w'. m w = (r, w') \<Longrightarrow> plain_faults (st_store w) \<Longrightarrow>
     plain_faults (st_store w') \<and> (\<forall>e. r = Err e \<longrightarrow> plain_error e)) \<Longrightarrow> plain_run m"
  by (auto simp: plain_run_def)

lemma plain_in_store:
  assumes "\<And>db r db'. plain_faults db \<Longrightarrow> m db = (r, db') \<Longrightarrow> plain_faults db' \<and> (\<forall>e. r = Err e \<longrightarrow> plain_error e)"
  shows "plain_run (in_store m)"
  using assms by (auto simp: plain_run_def in_store_def split: prod.splits)

lemma plain_statement:
  assumes "\<And>db e db'. st db = (Err e, db') \<Longrightarrow> plain_error e"
    and "\<And>db r db'. st db = (r, db') \<Longrightarrow> db_faults db' = db_faults db"
  shows "plain_run (in_store (db_call st))"
proof (rule plain_in_store)
  fix db r db' assume plain: "plain_faults db" and "db_call st db = (r, db')"
  from this(2) show "plain_faults db' \<and> (\<forall>e. r = Err e \<longrightarrow> plain_error e)"
  proof (cases rule: db_callE)
    case (run fs)
    then show ?thesis using plain assms(1) assms(2) [OF run(1)] by (auto simp: plain_faults_def)
  next
    case (fault e fs)
    then show ?thesis using plain by (auto simp: plain_faults_def)
  qed
qed

lemma plain_wrap: "plain_run m \<Longrightarrow> plain_run (wrap_err p m)"
  by (auto simp: plain_run_def wrap_err_def split: prod.splits outcome.splits)

lemma plain_on_ok: "plain_run m \<Longrightarrow> (\<And>x. plain_run (f x)) \<Longrightarrow> plain_run (on_ok m f)"
proof (rule plain_runI)
  fix w r w' assume m: "plain_run m" and f: "\<And>x. plain_run (f x)"
    and call: "on_ok m f w = (r, w')" and w: "plain_faults (st_store w)"
  obtain q w1 where q: "m w = (q, w1)" by fastforce
  have w1: "plain_faults (st_store w1) \<and> (\<forall>e. q = Err e \<longrightarrow> plain_error e)" using plain_runD [OF m q w] .
  show "plain_faults (st_store w') \<and> (\<forall>e. r = Err e \<longrightarrow> plain_error e)"
  proof (cases q)
    case (Ok x)
    then have "f x w1 = (r, w')" using call q by simp
    then show ?thesis using plain_runD [OF f] w1 by blast
  qed (use call q w1 in auto)
qed

lemma plain_saves:
  "plain_run (wrap_err p (in_store (SaveDeviceMetric_repo d m)))"
  "plain_run (wrap_err p (in_store (SaveDeviceAlert_repo d a)))"
  "plain_run (wrap_err p (in_store (UpsertDeviceConfig_repo d c)))"
  unfolding SaveDeviceMetric_repo_def SaveDeviceMetric_q_def SaveDeviceAlert_repo_def SaveDeviceAlert_q_def
    UpsertDeviceConfig_repo_def UpsertDeviceConfig_q_def
  by (rule plain_wrap, rule plain_statement,
      (auto simp: err_not_null_def err_full_def split: if_splits) [2])+

lemma plain_checks:
  "plain_run (check_temperature (svc l) lg req cfg)" "plain_run (check_battery (svc l) lg req cfg)"
  by (rule plain_runI, auto simp: check_temperature_def check_battery_def NewDeviceRepository_def
      split: if_splits dest!: plain_runD [OF plain_saves(2)])+

lemma plain_evaluate: "plain_run (evaluate_thresholds (svc l) lg req)"
proof -
  have config: "plain_faults db'" if "plain_faults db" "GetDeviceConfig_repo d db = (q, db')" for d db q db'
  proof -
    note call = that(2)
    obtain q' where "GetDeviceConfig_q d db = (q', db')"
      using call by (cases "GetDeviceConfig_q d db")
        (auto simp: GetDeviceConfig_repo_def split: outcome.splits if_splits)
    from this [unfolded GetDeviceConfig_q_def] show ?thesis
      using that(1) by (cases rule: db_callE) (auto simp: plain_faults_def split: option.splits)
  qed
  have alerts: "plain_run (on_ok (check_temperature (svc l) lg req cfg) (\<lambda>_. check_battery (svc l) lg req cfg))" for cfg
    by (intro plain_on_ok plain_checks)
  show ?thesis
  proof (rule plain_runI)
    fix w r w' assume call: "evaluate_thresholds (svc l) lg req w = (r, w')" and w: "plain_faults (st_store w)"
    obtain q db where q: "GetDeviceConfig_repo (rmr_DeviceID req) (st_store w) = (q, db)" by fastforce
    note plain = config [OF w q]
    let ?w = "(log_info lg ''recorded metric'' [(''temperature'', LFloat (rmr_Temperature req)),
        (''battery'', LInt (rmr_Battery req))] w)\<lparr>st_store := db\<rparr>"
    have on: "plain_faults (st_store w') \<and> (\<forall>e. r = Err e \<longrightarrow> plain_error e)"
      if "on_ok (check_temperature (svc l) lg req cfg) (\<lambda>_. check_battery (svc l) lg req cfg) ?w = (r, w')" for cfg
      using plain_runD [OF alerts that] plain by simp
    have read: "in_store (repo_GetDeviceConfig (sv_repo (svc l)) (rmr_DeviceID req)) (log_info lg ''recorded metric''
        [(''temperature'', LFloat (rmr_Temperature req)), (''battery'', LInt (rmr_Battery req))] w) = (q, ?w)"
      using q by (intro in_store_eq) (simp add: NewDeviceRepository_def)
    show "plain_faults (st_store w') \<and> (\<forall>e. r = Err e \<longrightarrow> plain_error e)"
    proof (cases q)
      case (Ok cfg)
      then show ?thesis using call read on [of cfg] by (simp add: evaluate_thresholds_def)
    next
      case (Err ec)
      then show ?thesis using call read on [of "snd ec"] plain
        by (cases ec) (auto simp: evaluate_thresholds_def split: if_splits)
    next
      case (Panic p)
      then show ?thesis using call read plain by (auto simp: evaluate_thresholds_def)
    qed
  qed
qed

text \<open>What the service returns is the validator's error or a plain one.\<close>

lemma record_errors:
  assumes "plain_faults (st_store w)" and "RecordMetric (svc l) req w = (Err e, w')"
  shows "validateRecordMetricReq req = Some e \<or> validateRecordMetricReq req = None \<and> plain_error e"
proof (cases "validateRecordMetricReq req")
  case None
  have "plain_run (on_ok (wrap_err ''save device metric'' (in_store
       (repo_SaveDeviceMetric (sv_repo (svc l)) (rmr_DeviceID req) (recorded_metric req))))
     (\<lambda>_. evaluate_thresholds (svc l) (metric_logger (svc l) req) req))"
    by (intro plain_on_ok plain_evaluate) (simp add: NewDeviceRepository_def plain_saves)
  then show ?thesis using assms None by (auto simp: plain_run_def RecordMetric_valid)
qed (use assms in \<open>simp add: RecordMetric_invalid\<close>)

lemma configure_errors:
  assumes "plain_faults (st_store w)" and "ConfigureDevice (svc l) req w = (Err e, w')"
  shows "validateConfigureDeviceReq req = Some e \<or> validateConfigureDeviceReq req = None \<and> plain_error e"
proof (cases "validateConfigureDeviceReq req")
  case None
  have "plain_run (wrap_err ''upsert device config'' (in_store
       (UpsertDeviceConfig_repo (cdr_DeviceID req) \<lparr>cfg_TemperatureThreshold = cdr_TemperatureThreshold req,
                 cfg_BatteryThreshold = cdr_BatteryThreshold req\<rparr>)))"
    by (rule plain_saves)
  then show ?thesis using assms None
    by (auto simp: plain_run_def ConfigureDevice_def on_ok_def NewDeviceRepository_def split: prod.splits outcome.splits)
qed (use assms in \<open>simp add: ConfigureDevice_def\<close>)

section \<open>The answer\<close>

lemma rest_status:
  assumes "range_order ord"
  shows "\<exists>ds. mset ds = mset (map violation_line fv) \<and>
      rest_error_of ord (ErrBadRequest fv) = \<lparr>re_Code = 400, re_Message = ''Bad Request'', re_Details = ds\<rparr>"
    and "plain_error e \<Longrightarrow> rest_error_of ord e = \<lparr>re_Code = 500, re_Message = ''Internal Server Error'', re_Details = []\<rparr>"
proof -
  have st: "StatusText 400 = ''Bad Request''" "StatusText 500 = ''Internal Server Error''" by code_simp+
  have "mset (map violation_line (ord fv)) = mset (map violation_line fv)"
    using assms by (simp add: range_order_def)
  then show "\<exists>ds. mset ds = mset (map violation_line fv) \<and>
      rest_error_of ord (ErrBadRequest fv) = \<lparr>re_Code = 400, re_Message = ''Bad Request'', re_Details = ds\<rparr>"
    by (auto simp: rest_error_of_def BadRequestError_RestError_def st)
  show "rest_error_of ord e = \<lparr>re_Code = 500, re_Message = ''Internal Server Error'', re_Details = []\<rparr>" if "plain_error e"
    using that by (simp add: rest_error_of_def plain_error_def st)
qed

lemma validator_bad_request: "validateRecordMetricReq req = Some err \<Longrightarrow> \<exists>fv. err = ErrBadRequest fv \<and> fv \<noteq> []"
  by (auto simp: validateRecordMetricReq_def Let_def dest!: validator_Error_SomeD)

text \<open>C13. A metric sent over REST is answered by what became of it, through all the layers: 400 with every
  violation once if it is out of order, and nothing is stored; otherwise 201, and it is stored with the alerts
  of one configuration, or 500 with a fixed text, if the engine failed. There is no other answer.\<close>

theorem rest_metric_classified:
  assumes "recovers Recover" and "logs_requests RequestLogger" and "app_DeviceRateLimit cfg = None"
    and "range_order ord" and "db_inv (st_store (wd_svc w))" and "plain_faults (st_store (wd_svc w))"
    and "Bind q = Inr req"
    and "rest_stack Recover (run_middleware ord RequestLogger NewLimiter LWait meta_of Param cfg)
      (\<lambda>q. in_svc (RecordMetric_echo Bind (svc l) q)) q w = (res, w')"
  shows "case validateRecordMetricReq req of
      Some err \<Rightarrow> \<exists>fv ds. err = ErrBadRequest fv \<and> mset ds = mset (map violation_line fv) \<and>
        res = Ok (ErrorReply 400 \<lparr>rer_Error = \<lparr>re_Code = 400, re_Message = ''Bad Request'', re_Details = ds\<rparr>\<rparr>) \<and>
        db_view (st_store (wd_svc w')) = db_view (st_store (wd_svc w))
    | None \<Rightarrow>
        res = Ok (NoContent 201) \<and> (\<exists>as. alert_outcome (configs_of (st_store (wd_svc w)) (rmr_DeviceID req)) req (Ok ()) as \<and>
          db_view (st_store (wd_svc w')) = recorded req as (db_view (st_store (wd_svc w)))) \<or>
        res = Ok (ErrorReply 500 \<lparr>rer_Error = \<lparr>re_Code = 500, re_Message = ''Internal Server Error'', re_Details = []\<rparr>\<rparr>)"
proof -
  let ?h = "\<lambda>q. in_svc (RecordMetric_echo Bind (svc l) q)"
  obtain r s where call: "RecordMetric (svc l) req (wd_svc w) = (r, s)" by fastforce
  note effect = store.record_effect [OF assms(5) svc_repo call]
  show ?thesis
  proof (cases r)
    case (Ok u)
    then have h: "?h q w = (Ok (NoContent 201), w\<lparr>wd_svc := s\<rparr>)"
      using call assms(7) by (simp add: in_svc_def RecordMetric_echo_def)
    from rest_ok_response [where h = ?h and ord = ord and NewLimiter = NewLimiter and LWait = LWait and meta_of = meta_of and Param = Param,
        OF assms(1-3) h] assms(8)
    have "res = Ok (NoContent 201)" "st_store (wd_svc w') = st_store s" by auto
    moreover have "validateRecordMetricReq req = None"
      using call Ok by (cases "validateRecordMetricReq req") (auto simp: RecordMetric_invalid)
    ultimately show ?thesis using effect Ok by auto
  next
    case (Err e)
    then have h: "?h q w = (Err e, w\<lparr>wd_svc := s\<rparr>)"
      using call assms(7) by (simp add: in_svc_def RecordMetric_echo_def)
    from rest_error_response [where h = ?h and ord = ord and NewLimiter = NewLimiter and LWait = LWait and meta_of = meta_of and Param = Param,
        OF assms(1-3) h] assms(8)
    have res: "res = Ok (ErrorReply (re_Code (rest_error_of ord e)) \<lparr>rer_Error = rest_error_of ord e\<rparr>)"
      and w': "st_store (wd_svc w') = st_store s" by auto
    from record_errors [OF assms(6) call [unfolded Err]] show ?thesis
    proof
      assume v: "validateRecordMetricReq req = Some e"
      then obtain fv where fv: "e = ErrBadRequest fv" using validator_bad_request by blast
      have "s = wd_svc w" using call v by (simp add: RecordMetric_invalid)
      then show ?thesis using rest_status(1) [OF assms(4), of fv] v res w' fv by auto
    next
      assume "validateRecordMetricReq req = None \<and> plain_error e"
      then show ?thesis using rest_status(2) [OF assms(4), of e] res by simp
    qed
  next
    case (Panic p)
    then show ?thesis using effect by (auto simp: alert_outcome_def)
  qed
qed

definition demo_world :: "database \<Rightarrow> (database, unit) world" where
  "demo_world db = \<lparr>wd_svc = \<lparr>st_store = db, st_log = []\<rparr>, wd_rl = NewRateLimiter f_zero 1 0 0\<rparr>"

lemma rest_metric_classified_witness:
  "fst (rest_stack demo_recover (run_middleware (\<lambda>fv. fv) demo_request_logger (\<lambda>_ _. ()) (\<lambda>_ l. (None, l))
      (\<lambda>_. \<lparr>mt_now = 0, mt_ctx = (), mt_remote = ''1.2.3.4''\<rparr>) (\<lambda>q p. q) default_config)
      (\<lambda>q. in_svc (RecordMetric_echo (\<lambda>_. Inr (hot_metric\<lparr>rmr_Battery := 101\<rparr>)) (svc (NewLogger [])) q)) ''d1'' (demo_world empty_db)) =
   Ok (ErrorReply 400 \<lparr>rer_Error = \<lparr>re_Code = 400, re_Message = ''Bad Request'',
     re_Details = [''battery: Must be between 0 and 100'']\<rparr>\<rparr>)" (is "fst ?run = _")
proof -
  have v: "validateRecordMetricReq (hot_metric\<lparr>rmr_Battery := 101\<rparr>) =
      Some (ErrBadRequest [(''battery'', [''Must be between 0 and 100''])])" by code_simp
  have none: "app_DeviceRateLimit default_config = None" and ord: "range_order (\<lambda>fv. fv)"
    by (simp_all add: default_config_def range_order_def)
  have inv: "db_inv (st_store (wd_svc (demo_world empty_db)))"
    by (simp add: demo_world_def)
  have plain: "plain_faults (st_store (wd_svc (demo_world empty_db)))"
    by (simp add: demo_world_def plain_faults_def empty_db_def)
  note result = rest_metric_classified [where w = "demo_world empty_db" and res = "fst ?run" and w' = "snd ?run"
        and Bind = "\<lambda>_. Inr (hot_metric\<lparr>rmr_Battery := 101\<rparr>)" and q = "''d1''"
        and NewLimiter = "\<lambda>_ _. ()" and LWait = "\<lambda>_ l. (None, l)" and l = "NewLogger []"
        and meta_of = "\<lambda>_. \<lparr>mt_now = 0, mt_ctx = (), mt_remote = ''1.2.3.4''\<rparr>" and Param = "\<lambda>q p. q",
        OF demo_recovers demo_logs none ord inv plain refl prod.collapse [symmetric], unfolded v option.case]
  then obtain ds where "mset ds = {#''battery: Must be between 0 and 100''#}"
    "fst ?run = Ok (ErrorReply 400 \<lparr>rer_Error = \<lparr>re_Code = 400, re_Message = ''Bad Request'', re_Details = ds\<rparr>\<rparr>)"
    by (auto simp: violation_line_def)
  then show ?thesis by auto
qed

section \<open>Over Connect\<close>

text \<open>What the log of a Connect call that failed holds.\<close>

definition failed_call_entry :: "LogEntry \<Rightarrow> bool" where
  "failed_call_entry e \<longleftrightarrow> le_Level e = LevelError \<and> le_Msg e = ''unary rpc called'' \<and>
     ''error'' \<in> fst ` set (le_Attrs e) \<and> ''error_code'' \<notin> fst ` set (le_Attrs e)"

lemma procedure_attrs_keys: "''error_code'' \<notin> fst ` set (procedure_attrs p)"
  by (auto simp: procedure_attrs_def split: list.splits)

lemma connect_answer:
  assumes "recovers_rpc WithRecover" and "app_DeviceRateLimit cfg = None" and "f q w = (r, w1)" and "\<not> is_panic r"
    and "connect_stack WithRecover logger (run_interceptors ord new_detail Procedure start duration code_text NewLimiter
      LWait meta_of Any cfg) f q w = (res, w')"
  shows "st_store (wd_svc w') = st_store (wd_svc w1)"
    "r = Ok x \<Longrightarrow> res = Ok x"
    "r = Err e \<Longrightarrow> res = Err (connect_error_of ord new_detail e)"
    "r = Err e \<Longrightarrow> errors_As is_connect_error e = None \<Longrightarrow>
      \<exists>entry. st_log (wd_svc w') = st_log (wd_svc w1) @ [entry] \<and> failed_call_entry entry"
proof -
  let ?c = "chain (run_interceptors ord new_detail Procedure start duration code_text NewLimiter LWait meta_of Any cfg) f"
  note chain = connect_chain [of ord new_detail Procedure start duration code_text NewLimiter LWait meta_of Any cfg f q]
  have cases: "(\<exists>x. r = Ok x) \<or> (\<exists>e. r = Err e)" using assms(4) by (cases r) auto
  then have "\<not> is_panic (fst (?c q w))"
    using assms(2,3) chain by (auto simp: NewConnectErrorInterceptor_def NewConnectLogInterceptor_def Let_def)
  then have c: "?c q w = (res, w')"
    using assms(1) [unfolded recovers_rpc_def, rule_format, of "connect_recover logger" ?c q w] assms(5)
    by (cases "?c q w"; cases "fst (?c q w)") (auto simp: connect_stack_def WithConnectRecover_def)
  then show "st_store (wd_svc w') = st_store (wd_svc w1)" using cases assms(2,3) chain
    by (auto simp: NewConnectErrorInterceptor_def NewConnectLogInterceptor_def Let_def)
  show "res = Ok x" if "r = Ok x" using that c assms(2,3) chain
    by (auto simp: NewConnectErrorInterceptor_def NewConnectLogInterceptor_def Let_def)
  show "res = Err (connect_error_of ord new_detail e)" if "r = Err e" using that c assms(2,3) chain
    by (auto simp: NewConnectErrorInterceptor_def NewConnectLogInterceptor_def Let_def)
  show "\<exists>entry. st_log (wd_svc w') = st_log (wd_svc w1) @ [entry] \<and> failed_call_entry entry"
    if "r = Err e" "errors_As is_connect_error e = None"
    using that c assms(2,3) chain procedure_attrs_keys
    by (auto simp: NewConnectErrorInterceptor_def NewConnectLogInterceptor_def Let_def failed_call_entry_def logger_Log_def
        run_logger_def NewLogger_def WithDevelopment_def LevelError_def LevelInfo_def)
qed

lemma connect_code:
  "\<exists>ds. connect_error_of ord new_detail (ErrBadRequest fv) = ErrConnect CodeInvalidArgument ''bad request'' ds"
  "plain_error e \<Longrightarrow> connect_error_of ord new_detail e = ErrConnect CodeInternal ''internal server error'' []"
  by (auto simp: connect_error_of_def plain_error_def BadRequestError_ConnectError_def split: option.split)

text \<open>A valid metric is stored, or the engine failed.\<close>

lemma connect_valid_metric:
  assumes "recovers_rpc WithRecover" and "app_DeviceRateLimit cfg = None"
    and "db_inv (st_store (wd_svc w))" and "plain_faults (st_store (wd_svc w))"
    and "connect_stack WithRecover logger (run_interceptors ord new_detail Procedure start duration code_text NewLimiter
      LWait meta_of Any cfg) (\<lambda>msg. in_svc (RecordMetric_connect AsTime (svc l) msg)) msg w = (res, w')"
    and valid: "validateRecordMetricReq (record_request_of AsTime msg) = None"
  shows "res = Ok () \<and> (\<exists>as. alert_outcome (configs_of (st_store (wd_svc w)) (prm_DeviceId msg)) (record_request_of AsTime msg) (Ok ()) as \<and>
          db_view (st_store (wd_svc w')) = recorded (record_request_of AsTime msg) as (db_view (st_store (wd_svc w)))) \<or>
        res = Err (ErrConnect CodeInternal ''internal server error'' []) \<and> failed_call_entry (last (st_log (wd_svc w')))"
proof -
  let ?h = "\<lambda>msg. in_svc (RecordMetric_connect AsTime (svc l) msg)"
  let ?req = "record_request_of AsTime msg"
  have dev: "rmr_DeviceID ?req = prm_DeviceId msg" by (simp add: record_request_of_def)
  obtain r s where call: "RecordMetric (svc l) ?req (wd_svc w) = (r, s)" by fastforce
  have h: "?h msg w = (r, w\<lparr>wd_svc := s\<rparr>)" using call by (simp add: in_svc_def RecordMetric_connect_def)
  note effect = store.record_effect [OF assms(3) svc_repo call]
  have ok: "\<not> is_panic r" using effect by (cases r) (auto simp: alert_outcome_def)
  note answer = connect_answer [where f = ?h, OF assms(1,2) h this assms(5)]
  show ?thesis
  proof (cases r)
    case (Ok u)
    then show ?thesis using effect answer(1) answer(2) [of u] dev by auto
  next
    case (Err e)
    then have "plain_error e" using record_errors [OF assms(4) call [unfolded Err]] valid by simp
    then show ?thesis using answer(3,4) [OF Err] connect_code(2) [of e ord new_detail] by (auto simp: plain_error_def)
  qed (use ok in simp)
qed

text \<open>One that is out of order is refused.\<close>

lemma connect_invalid_metric:
  assumes "recovers_rpc WithRecover" and "app_DeviceRateLimit cfg = None"
    and "connect_stack WithRecover logger (run_interceptors ord new_detail Procedure start duration code_text NewLimiter
      LWait meta_of Any cfg) (\<lambda>msg. in_svc (RecordMetric_connect AsTime (svc l) msg)) msg w = (res, w')"
    and invalid: "validateRecordMetricReq (record_request_of AsTime msg) = Some err"
  shows "(\<exists>ds. res = Err (ErrConnect CodeInvalidArgument ''bad request'' ds)) \<and>
    st_store (wd_svc w') = st_store (wd_svc w) \<and> failed_call_entry (last (st_log (wd_svc w')))"
proof -
  let ?h = "\<lambda>msg. in_svc (RecordMetric_connect AsTime (svc l) msg)"
  have h: "?h msg w = (Err err, w)" using invalid by (simp add: in_svc_def RecordMetric_connect_def RecordMetric_invalid)
  obtain fv where fv: "err = ErrBadRequest fv" using validator_bad_request [OF invalid] by blast
  note answer = connect_answer [where f = ?h, OF assms(1,2) h _ assms(3)]
  show ?thesis using answer(1) answer(3,4) [OF _ refl] connect_code(1) [of ord new_detail fv] fv by auto
qed

text \<open>C21. A metric sent over Connect is answered by what became of it, through all the interceptors: with
  invalid argument if it is out of order, and nothing is stored; otherwise with a reply, and it is
  stored with the alerts of one configuration, or with internal and a fixed text, if the engine failed.
  A call that failed is logged as an error, but never with its code: the interceptor that logs runs
  inside the one that classifies.\<close>

theorem connect_metric_classified:
  assumes "recovers_rpc WithRecover" and "app_DeviceRateLimit cfg = None"
    and "db_inv (st_store (wd_svc w))" and "plain_faults (st_store (wd_svc w))"
    and "connect_stack WithRecover logger (run_interceptors ord new_detail Procedure start duration code_text NewLimiter
      LWait meta_of Any cfg) (\<lambda>msg. in_svc (RecordMetric_connect AsTime (svc l) msg)) msg w = (res, w')"
  shows "(case validateRecordMetricReq (record_request_of AsTime msg) of
      Some err \<Rightarrow> (\<exists>ds. res = Err (ErrConnect CodeInvalidArgument ''bad request'' ds)) \<and>
        db_view (st_store (wd_svc w')) = db_view (st_store (wd_svc w))
    | None \<Rightarrow>
        res = Ok () \<and> (\<exists>as. alert_outcome (configs_of (st_store (wd_svc w)) (prm_DeviceId msg)) (record_request_of AsTime msg) (Ok ()) as \<and>
          db_view (st_store (wd_svc w')) = recorded (record_request_of AsTime msg) as (db_view (st_store (wd_svc w)))) \<or>
        res = Err (ErrConnect CodeInternal ''internal server error'' [])) \<and>
    (res \<noteq> Ok () \<longrightarrow> failed_call_entry (last (st_log (wd_svc w'))))"
proof (cases "validateRecordMetricReq (record_request_of AsTime msg)")
  case None
  then show ?thesis using connect_valid_metric [OF assms None] by auto
next
  case (Some err)
  then show ?thesis using connect_invalid_metric [OF assms(1,2,5) Some] by auto
qed

lemma connect_metric_classified_witness:
  "\<exists>ds. fst (connect_stack demo_rpc_recover (NewLogger []) (run_interceptors (\<lambda>fv. fv) (\<lambda>_. None) (\<lambda>q. '''') (\<lambda>q. [])
      (\<lambda>q. []) (\<lambda>c. []) (\<lambda>_ _. ()) (\<lambda>_ l. (None, l)) (\<lambda>_. \<lparr>mt_now = 0, mt_ctx = (), mt_remote = ''1.2.3.4''\<rparr>)
      (\<lambda>q. AnyOther :: unit any_request) default_config)
      (\<lambda>msg. in_svc (RecordMetric_connect unix_utc (svc (NewLogger [])) msg))
      \<lparr>prm_DeviceId = ''d1'', prm_Timestamp = Some 100, prm_Temperature = f_zero, prm_Battery = 101\<rparr>
      (demo_world empty_db)) = Err (ErrConnect CodeInvalidArgument ''bad request'' ds)" (is "\<exists>ds. fst ?run = _ ds")
proof -
  let ?msg = "\<lparr>prm_DeviceId = ''d1'', prm_Timestamp = Some 100, prm_Temperature = f_zero, prm_Battery = 101\<rparr>"
  have v: "validateRecordMetricReq (record_request_of unix_utc ?msg) =
      Some (ErrBadRequest [(''battery'', [''Must be between 0 and 100''])])" by code_simp
  have none: "app_DeviceRateLimit default_config = None" by (simp add: default_config_def)
  have "db_inv (st_store (wd_svc (demo_world empty_db)))" "plain_faults (st_store (wd_svc (demo_world empty_db)))"
    by (simp add: demo_world_def) (simp add: demo_world_def plain_faults_def empty_db_def)
  from connect_metric_classified [where AsTime = unix_utc and msg = ?msg and res = "fst ?run" and w' = "snd ?run",
      OF demo_rpc_recovers none this prod.collapse [symmetric], unfolded v option.case]
  show ?thesis by blast
qed

end
