(* ===== verification/StressServed.thy ===== *)
theory StressServed
  imports StressOutcome EndToEnd
begin

text \<open>
  The stress client against the server: a job of the client, through the generated client, the
  interceptors and the handler of the service, down to the database and back.
\<close>

text \<open>
  The documented behaviour of a unary call: sent to the address of a procedure it is answered by
  what the server runs there. \<open>at_server\<close> is the server at \<open>base\<close>.
\<close>

definition at_server ::
  "string \<Rightarrow> string \<Rightarrow> ('m \<Rightarrow> ('w, 'b) unary_func) \<Rightarrow> ('o procedure_client \<Rightarrow> 'm \<Rightarrow> ('w, 'b) unary_func) \<Rightarrow> bool" where
  "at_server base procedure stack CallUnary \<longleftrightarrow>
     (\<forall>pc. pc_URL pc = trim_right_slashes base @ procedure \<longrightarrow> CallUnary pc = stack)"

lemma configure_plain:
  assumes "plain_faults (st_store w)" and "ConfigureDevice (svc l) req w = (r, w')"
  shows "plain_faults (st_store w')"
proof (cases "validateConfigureDeviceReq req")
  case None
  have "plain_run (wrap_err ''upsert device config'' (in_store
       (UpsertDeviceConfig_repo (cdr_DeviceID req) \<lparr>cfg_TemperatureThreshold = cdr_TemperatureThreshold req,
                 cfg_BatteryThreshold = cdr_BatteryThreshold req\<rparr>)))"
    by (rule plain_saves)
  then show ?thesis using assms None
    by (auto simp: plain_run_def ConfigureDevice_def on_ok_def NewDeviceRepository_def split: prod.splits outcome.splits)
qed (use assms in \<open>simp add: ConfigureDevice_def\<close>)

text \<open>The same for a configuration as for a metric.\<close>

lemma connect_valid_configure:
  assumes "recovers_rpc WithRecover" and "app_DeviceRateLimit cfg = None"
    and "db_inv (st_store (wd_svc w))" and "plain_faults (st_store (wd_svc w))"
    and "connect_stack WithRecover logger (run_interceptors ord new_detail Procedure start duration code_text NewLimiter
      LWait meta_of Any cfg) (\<lambda>msg. in_svc (ConfigureDevice_connect (svc l) msg)) msg w = (res, w')"
    and valid: "validateConfigureDeviceReq \<lparr>cdr_DeviceID = pcd_DeviceId msg, cdr_TemperatureThreshold = pcd_TemperatureThreshold msg,
      cdr_BatteryThreshold = pcd_BatteryThreshold msg\<rparr> = None"
  shows "db_inv (st_store (wd_svc w')) \<and> plain_faults (st_store (wd_svc w')) \<and>
    (res = Ok () \<and> configs_of (st_store (wd_svc w')) (pcd_DeviceId msg) =
       Some \<lparr>cfg_TemperatureThreshold = pcd_TemperatureThreshold msg, cfg_BatteryThreshold = pcd_BatteryThreshold msg\<rparr> \<or>
     res = Err (ErrConnect CodeInternal ''internal server error'' []) \<and>
       db_view (st_store (wd_svc w')) = db_view (st_store (wd_svc w)))"
proof -
  let ?h = "\<lambda>msg. in_svc (ConfigureDevice_connect (svc l) msg)"
  let ?req = "\<lparr>cdr_DeviceID = pcd_DeviceId msg, cdr_TemperatureThreshold = pcd_TemperatureThreshold msg,
      cdr_BatteryThreshold = pcd_BatteryThreshold msg\<rparr>"
  obtain r s where call: "ConfigureDevice (svc l) ?req (wd_svc w) = (r, s)" by fastforce
  have h: "?h msg w = (r, w\<lparr>wd_svc := s\<rparr>)" using call by (simp add: in_svc_def ConfigureDevice_connect_def)
  note effect = store.configure_effect [OF assms(3) svc_repo call]
  have ok: "\<not> is_panic r" using effect by (cases r) auto
  note answer = connect_answer [where f = ?h, OF assms(1,2) h this assms(5)]
  note plain = configure_plain [OF assms(4) call]
  show ?thesis
  proof (cases r)
    case (Ok u)
    then have stored: "db_view (st_store s) = set_config (pcd_DeviceId msg) (requested_config ?req) (db_view (st_store (wd_svc w)))"
      using effect by simp
    have "ct_configs (db_view (st_store s)) (pcd_DeviceId msg) = Some (requested_config ?req)"
      unfolding stored by (simp add: set_config_def)
    then show ?thesis using Ok effect plain answer(1) answer(2) [of u] by (auto simp: requested_config_def)
  next
    case (Err e)
    then have "plain_error e" using configure_errors [OF assms(4) call [unfolded Err]] valid by simp
    then show ?thesis using effect plain Err answer(1) answer(3) [OF Err] connect_code(2) [of e ord new_detail] by auto
  qed (use ok in simp)
qed

text \<open>The configuration every device of the client gets.\<close>

definition stress_config :: Config where
  "stress_config = \<lparr>cfg_TemperatureThreshold = tempThresh, cfg_BatteryThreshold = batteryThresh\<rparr>"


text \<open>A server without options, for the witness.\<close>

definition demo_connect where
  "demo_connect f = connect_stack demo_rpc_recover (NewLogger []) (run_interceptors (\<lambda>fv. fv) (\<lambda>_. None) (\<lambda>q. '''') (\<lambda>q. [])
      (\<lambda>q. []) (\<lambda>c. []) (\<lambda>_ _. ()) (\<lambda>_ l. (None, l)) (\<lambda>_. \<lparr>mt_now = 0, mt_ctx = (), mt_remote = ''1.2.3.4''\<rparr>)
      (\<lambda>q. AnyOther :: unit any_request) default_config) f"


end
