(* ===== verification/LivePaging.thy ===== *)
theory LivePaging
  imports Concurrency
begin

text \<open>
  Following page tokens while the service works on: between two page requests other requests record
  metrics and raise alerts. The locale \<open>growing_repository\<close> states what the cursor of
  \<^verbatim>\<open>sqlite/repository.go\<close> is for: a page and what is listed from its token on, later, are
  disjoint parts of one listing in order. The interpretation \<open>live\<close> proves it of the repository.
\<close>

section \<open>A repository that grows\<close>

locale growing_repository = device_repository R inv healthy view listing issued
  for R :: "'s Repository" and inv healthy view listing issued +
  fixes grows :: "'s \<Rightarrow> 's \<Rightarrow> bool"
  assumes grows_self: "grows s s"
    and grows_on: "grows s s' \<Longrightarrow> grows s' s'' \<Longrightarrow> grows s s''"
    and grows_issued: "grows s s' \<Longrightarrow> issued s d tf tk \<Longrightarrow> issued s' d tf tk"
    and grows_listing: "grows s s' \<Longrightarrow> mset (listing s d tf tk) \<subseteq># mset (listing s' d tf tk)"
    and page_then:
      "inv s \<Longrightarrow> healthy k s \<Longrightarrow> issued s d tf tk \<Longrightarrow> 0 < n \<Longrightarrow> n < 9223372036854775807 \<Longrightarrow>
       repo_GetDeviceAlerts R d tf \<lparr>po_Size = n, po_Token = tk\<rparr> s = (Ok page, s1) \<Longrightarrow>
       pg_NextPageToken page = Some t \<Longrightarrow> inv s' \<Longrightarrow> grows s s' \<Longrightarrow>
       mset (pg_Items page) + mset (listing s' d tf (Some t)) \<subseteq># mset (listing s' d tf tk) \<and>
       (\<forall>a \<in> set (pg_Items page). \<forall>b \<in> set (listing s' d tf (Some t)). t_Unix (al_Time b) \<le> t_Unix (al_Time a))"

text \<open>
  A client that follows the tokens, each page requested in the next of a list of states; \<open>None\<close> is an error on
  the way or a list too short.
\<close>

fun follow_live :: "'s Service \<Rightarrow> GetDeviceAlertsRequest \<Rightarrow> 's svc_state list \<Rightarrow> Alert list option" where
  "follow_live S req [] = None"
| "follow_live S req (w # ws) =
     (case fst (GetDeviceAlerts S req w) of
        Ok res \<Rightarrow>
          if gares_NextPageToken res = [] then Some (gares_Alerts res)
          else map_option ((@) (gares_Alerts res))
                 (follow_live S (req\<lparr>gar_PageToken := gares_NextPageToken res\<rparr>) ws)
      | _ \<Rightarrow> None)"

context growing_repository
begin

text \<open>The states a client sees: each later than the one before, and fit to answer.\<close>

definition live_states :: "GetDeviceAlertsRequest \<Rightarrow> 's svc_state list \<Rightarrow> bool" where
  "live_states req ws \<longleftrightarrow> sorted_wrt (\<lambda>w w'. grows (st_store w) (st_store w')) ws \<and>
     (\<forall>w \<in> set ws. inv (st_store w) \<and> healthy 0 (st_store w) \<and>
        (\<forall>a \<in> set (ct_alerts (view (st_store w)) (gar_DeviceID req)). json_time_ok (al_Time a)))"

lemma live_states_Cons: "live_states req (w # ws) \<Longrightarrow> live_states (req\<lparr>gar_PageToken := tok\<rparr>) ws"
  by (simp add: live_states_def)

text \<open>One page in a state, and what it means for the listing from its token on in a later one.\<close>

lemma live_pageE:
  assumes live: "live_states req (w # ws)" and repo: "sv_repo S = R"
    and valid: "validateGetDeviceAlertsReq req = None"
    and tk: "request_token req = Some tk" "issued (st_store w) (gar_DeviceID req) (request_timeframe req) tk"
  defines "L \<equiv> \<lambda>w. listing (st_store w) (gar_DeviceID req) (request_timeframe req)"
  obtains (final) res where "fst (GetDeviceAlerts S req w) = Ok res" "gares_NextPageToken res = []"
      "gares_Alerts res = L w tk"
    | (more) res n nt where "fst (GetDeviceAlerts S req w) = Ok res" "gares_NextPageToken res \<noteq> []"
      "gares_Alerts res = take n (L w tk)" "0 < n" "n < length (L w tk)"
      "request_token (req\<lparr>gar_PageToken := gares_NextPageToken res\<rparr>) = Some nt"
      "issued (st_store w) (gar_DeviceID req) (request_timeframe req) nt" "L w nt = drop n (L w tk)"
      "\<And>w'. w' \<in> set (w # ws) \<Longrightarrow> mset (take n (L w tk)) + mset (L w' nt) \<subseteq># mset (L w' tk)"
      "\<And>w' a b. w' \<in> set (w # ws) \<Longrightarrow> a \<in> set (take n (L w tk)) \<Longrightarrow> b \<in> set (L w' nt) \<Longrightarrow>
         t_Unix (al_Time b) \<le> t_Unix (al_Time a)"
proof -
  let ?n = "page_size (gar_PageSize req)"
  have w: "inv (st_store w)" "healthy 0 (st_store w)"
    "\<forall>a \<in> set (ct_alerts (view (st_store w)) (gar_DeviceID req)). json_time_ok (al_Time a)"
    using live by (simp_all add: live_states_def)
  have bounds: "0 < ?n" "?n < 9223372036854775807"
    using valid page_size_bounds [of "gar_PageSize req"] by (auto simp: validateAlerts_None_iff)
  from alerts_page_call [OF w(1,2) repo valid w(3) tk refl refl] obtain tok where
    run: "GetDeviceAlerts S req w = (Ok \<lparr>gares_Alerts = take (nat ?n) (L w tk), gares_NextPageToken = tok\<rparr>, w)"
    and tok: "if int (length (L w tk)) \<le> ?n then tok = []
     else tok \<noteq> [] \<and> (\<exists>nt. request_token (req\<lparr>gar_PageToken := tok\<rparr>) = Some nt \<and>
       issued (st_store w) (gar_DeviceID req) (request_timeframe req) nt \<and> L w nt = drop (nat ?n) (L w tk) \<and>
       repo_GetDeviceAlerts R (gar_DeviceID req) (request_timeframe req) \<lparr>po_Size = ?n, po_Token = tk\<rparr> (st_store w)
         = (Ok \<lparr>pg_Items = take (nat ?n) (L w tk), pg_NextPageToken = nt\<rparr>, st_store w))"
    unfolding L_def by blast
  show ?thesis
  proof (cases "int (length (L w tk)) \<le> ?n")
    case True
    then show ?thesis using run tok
      by (intro final [of "\<lparr>gares_Alerts = L w tk, gares_NextPageToken = []\<rparr>"]) simp_all
  next
    case False
    then obtain nt where ne: "tok \<noteq> []" and nt: "request_token (req\<lparr>gar_PageToken := tok\<rparr>) = Some nt"
      "issued (st_store w) (gar_DeviceID req) (request_timeframe req) nt" "L w nt = drop (nat ?n) (L w tk)"
      "repo_GetDeviceAlerts R (gar_DeviceID req) (request_timeframe req) \<lparr>po_Size = ?n, po_Token = tk\<rparr> (st_store w)
         = (Ok \<lparr>pg_Items = take (nat ?n) (L w tk), pg_NextPageToken = nt\<rparr>, st_store w)"
      using tok by auto
    obtain t where t: "nt = Some t" using nt(1) ne by (auto simp: request_token_def)
    have later: "mset (take (nat ?n) (L w tk)) + mset (L w' nt) \<subseteq># mset (L w' tk) \<and>
         (\<forall>a \<in> set (take (nat ?n) (L w tk)). \<forall>b \<in> set (L w' nt). t_Unix (al_Time b) \<le> t_Unix (al_Time a))"
      if "w' \<in> set (w # ws)" for w'
    proof -
      have "inv (st_store w')" "grows (st_store w) (st_store w')"
        using that live grows_self by (auto simp: live_states_def)
      from page_then [OF w(1,2) tk(2) bounds nt(4) _ this] t show ?thesis by (simp add: L_def)
    qed
    show ?thesis
      by (rule more [where res = "\<lparr>gares_Alerts = take (nat ?n) (L w tk), gares_NextPageToken = tok\<rparr>" and n = "nat ?n" and nt = nt])
        (use run ne nt(1-3) False bounds later in \<open>(simp; fail | blast)+\<close>)
  qed
qed

text \<open>
  From a token on the client sees all that was listed there when it asked first, nothing that is not
  listed there in the end, and it in order; it ends when it asks more often than there is something to see.
\<close>

lemma next_request:
  "gar_DeviceID (req\<lparr>gar_PageToken := tok\<rparr>) = gar_DeviceID req"
  "request_timeframe (req\<lparr>gar_PageToken := tok\<rparr>) = request_timeframe req"
  "validateGetDeviceAlertsReq (req\<lparr>gar_PageToken := tok\<rparr>) = None \<longleftrightarrow> validateGetDeviceAlertsReq req = None"
  by (simp_all add: request_timeframe_def validateAlerts_None_iff)

lemma follow_live_bounds:
  assumes "live_states req ws" and "ws \<noteq> []" and "sv_repo S = R" and "validateGetDeviceAlertsReq req = None"
    and "request_token req = Some tk"
    and "issued (st_store (ws ! 0)) (gar_DeviceID req) (request_timeframe req) tk"
    and "follow_live S req ws = Some as"
  shows "mset (listing (st_store (ws ! 0)) (gar_DeviceID req) (request_timeframe req) tk) \<subseteq># mset as \<and>
    mset as \<subseteq># mset (listing (st_store (last ws)) (gar_DeviceID req) (request_timeframe req) tk) \<and>
    sorted_wrt (\<lambda>a b. t_Unix (al_Time b) \<le> t_Unix (al_Time a)) as"
  using assms
proof (induction ws arbitrary: req tk as)
  case (Cons w ws)
  let ?L = "\<lambda>w. listing (st_store w) (gar_DeviceID req) (request_timeframe req)"
  have inv: "inv (st_store w)" and grows: "grows (st_store w) (st_store (last (w # ws)))"
    using Cons.prems(1) grows_self by (auto simp: live_states_def)
  have iss: "issued (st_store w) (gar_DeviceID req) (request_timeframe req) tk" using Cons.prems(6) by simp
  show ?case
  proof (rule live_pageE [OF Cons.prems(1,3,4,5) iss], goal_cases)
    case (1 res)
    then have "as = ?L w tk" using Cons.prems(7) by simp
    then show ?case using grows_listing [OF grows] listing_sorted [OF inv] by simp
  next
    case (2 res n nt)
    let ?req = "req\<lparr>gar_PageToken := gares_NextPageToken res\<rparr>"
    obtain as' where as': "follow_live S ?req ws = Some as'" and as: "as = take n (?L w tk) @ as'"
      using Cons.prems(7) 2(1-3) by auto
    then have ws: "ws \<noteq> []" by auto
    then have "grows (st_store w) (st_store (ws ! 0))" using Cons.prems(1) by (simp add: live_states_def)
    then have first: "mset (?L w nt) \<subseteq># mset (?L (ws ! 0) nt)"
      and iss': "issued (st_store (ws ! 0)) (gar_DeviceID req) (request_timeframe req) nt"
      using grows_listing grows_issued 2(7) by blast+
    have IH: "mset (?L (ws ! 0) nt) \<subseteq># mset as'" "mset as' \<subseteq># mset (?L (last ws) nt)"
        "sorted_wrt (\<lambda>a b. t_Unix (al_Time b) \<le> t_Unix (al_Time a)) as'"
      using Cons.IH [of ?req nt as'] live_states_Cons [OF Cons.prems(1)] ws Cons.prems(3,4) 2(6) iss' as'
      by (simp_all add: next_request)
    have last: "last ws \<in> set (w # ws)" using ws by simp
    have "mset (?L w tk) = mset (take n (?L w tk)) + mset (?L w nt)"
      unfolding 2(8) by (metis append_take_drop_id mset_append)
    also have "\<dots> \<subseteq># mset as"
      unfolding as using subset_mset.order_trans [OF first IH(1)] by simp
    finally have lower: "mset (?L w tk) \<subseteq># mset as" .
    have "mset as \<subseteq># mset (take n (?L w tk)) + mset (?L (last ws) nt)" unfolding as using IH(2) by simp
    also have "\<dots> \<subseteq># mset (?L (last (w # ws)) tk)" using 2(9) [OF last] ws by simp
    finally have upper: "mset as \<subseteq># mset (?L (last (w # ws)) tk)" .
    have "set as' \<subseteq> set (?L (last ws) nt)" using IH(2) by (metis set_mset_mono set_mset_mset)
    then have "sorted_wrt (\<lambda>a b. t_Unix (al_Time b) \<le> t_Unix (al_Time a)) as"
      unfolding as using IH(3) listing_sorted [OF inv] 2(10) [OF last]
      by (auto simp: sorted_wrt_append intro: sorted_wrt_take)
    then show ?case using lower upper by simp
  qed
qed simp

lemma follow_live_ends:
  assumes "live_states req ws" and "sv_repo S = R" and "validateGetDeviceAlertsReq req = None"
    and "request_token req = Some tk"
    and "\<And>w. w \<in> set ws \<Longrightarrow> issued (st_store w) (gar_DeviceID req) (request_timeframe req) tk"
    and "ws \<noteq> []" and "length (listing (st_store (last ws)) (gar_DeviceID req) (request_timeframe req) tk) < length ws"
  shows "follow_live S req ws \<noteq> None"
  using assms
proof (induction ws arbitrary: req tk)
  case (Cons w ws)
  let ?L = "\<lambda>w. listing (st_store w) (gar_DeviceID req) (request_timeframe req)"
  have iss: "issued (st_store w) (gar_DeviceID req) (request_timeframe req) tk" using Cons.prems(5) by simp
  have grows: "grows (st_store w) (st_store (last (w # ws)))"
    using Cons.prems(1) grows_self by (auto simp: live_states_def)
  show ?case
  proof (rule live_pageE [OF Cons.prems(1-4) iss], goal_cases)
    case (2 res n nt)
    let ?req = "req\<lparr>gar_PageToken := gares_NextPageToken res\<rparr>"
    have "length (?L w tk) \<le> length (?L (last (w # ws)) tk)"
      using size_mset_mono [OF grows_listing [OF grows]] by simp
    then have ws: "ws \<noteq> []" using Cons.prems(7) 2(4,5) by auto
    then have last: "last ws \<in> set (w # ws)" by simp
    have "length (take n (?L w tk)) + length (?L (last ws) nt) \<le> length (?L (last ws) tk)"
      using size_mset_mono [OF 2(9) [OF last]] by simp
    then have "length (?L (last ws) nt) < length ws" using Cons.prems(7) 2(4,5) ws by simp
    moreover have "issued (st_store v) (gar_DeviceID req) (request_timeframe req) nt" if "v \<in> set ws" for v
      using grows_issued [OF _ 2(7)] Cons.prems(1) that by (simp add: live_states_def)
    ultimately have "follow_live S ?req ws \<noteq> None"
      using Cons.IH [of ?req nt] live_states_Cons [OF Cons.prems(1)] ws Cons.prems(2,3) 2(6)
      by (simp add: next_request)
    then show ?case using 2(1,2) by auto
  qed simp
qed simp

end

section \<open>The repository grows\<close>

text \<open>Rows of alerts are only ever appended.\<close>

definition db_grows :: "database \<Rightarrow> database \<Rightarrow> bool" where
  "db_grows db db' \<longleftrightarrow> (\<exists>new. db_alerts db' = db_alerts db @ new)"

lemma db_grows_self: "db_grows db db"
  by (simp add: db_grows_def)

lemma db_grows_on: "db_grows db db' \<Longrightarrow> db_grows db' db'' \<Longrightarrow> db_grows db db''"
  by (auto simp: db_grows_def)

lemma alert_rows_grow:
  "db_grows db db' \<Longrightarrow> mset (alert_rows_after d tf tk db) \<subseteq># mset (alert_rows_after d tf tk db')"
  by (auto simp: db_grows_def alert_rows_after_def alert_rows_def alerts_tl.selection_def split: option.split)

lemma alert_rows_grow_set:
  "db_grows db db' \<Longrightarrow> set (alert_rows_after d tf tk db) \<subseteq> set (alert_rows_after d tf tk db')"
  using alert_rows_grow by (metis set_mset_mono set_mset_mset)

lemma listing_grows: "db_grows db db' \<Longrightarrow> mset (listing db d tf tk) \<subseteq># mset (listing db' d tf tk)"
  using alert_rows_grow by (simp add: listing_def image_mset_subseteq_mono)

lemma issued_grows: "db_grows db db' \<Longrightarrow> issued db d tf tk \<Longrightarrow> issued db' d tf tk"
  using alert_rows_grow_set [of db db' d tf None]
  by (auto simp: issued_def alert_rows_after_def split: option.splits)

text \<open>A page and, in a later state, the rows after its last row.\<close>

lemma rows_then:
  assumes inv: "db_inv db" and grows: "db_grows db db'" and n: "0 < n" "n \<le> length (alert_rows_after d tf tk db)"
    and r: "r = last (take n (alert_rows_after d tf tk db))"
  shows "mset (take n (alert_rows_after d tf tk db)) + mset (alert_rows_after d tf (Some (row_token r)) db')
      \<subseteq># mset (alert_rows_after d tf tk db') \<and>
    (\<forall>x \<in> set (take n (alert_rows_after d tf tk db)). alerts_tl.place x \<le> alerts_tl.place r) \<and>
    (\<forall>y \<in> set (alert_rows_after d tf (Some (row_token r)) db'). alerts_tl.place r < alerts_tl.place y)"
proof -
  let ?L = "alert_rows_after d tf tk" and ?beyond = "\<lambda>x. alerts_tl.place r < alerts_tl.place x"
  have "take n (?L db) \<noteq> []" using n by auto
  then have rL: "r \<in> set (?L db)" unfolding r by (meson in_set_takeD last_in_set)
  then have "r \<in> set (db_alerts db)" using alert_rows_after_subset alert_rows_set by blast
  then have ts: "in_int64 (ar_Timestamp r)" using inv row_in_range by blast
  have rL': "r \<in> set (?L db')" using rL grows alert_rows_grow_set by blast
  have after: "alert_rows_after d tf (Some (row_token r)) db' = filter ?beyond (?L db')"
    using alert_rows_after_row_token [OF ts] rows_beyond [OF rL'] by simp
  have "filter ?beyond (?L db) = drop n (?L db)"
    unfolding r using alert_rows_after_strict [OF inv] n by (rule filter_beyond_take)
  then have "mset (?L db) = mset (filter (\<lambda>x. \<not> ?beyond x) (?L db)) + mset (drop n (?L db))"
    by (metis mset_filter multiset_partition union_commute)
  moreover have "mset (?L db) = mset (take n (?L db)) + mset (drop n (?L db))"
    by (metis append_take_drop_id mset_append)
  ultimately have page: "mset (take n (?L db)) = mset (filter (\<lambda>x. \<not> ?beyond x) (?L db))" by simp
  also have "\<dots> \<subseteq># mset (filter (\<lambda>x. \<not> ?beyond x) (?L db'))"
    using alert_rows_grow [OF grows] by (simp add: multiset_filter_mono)
  finally have "mset (take n (?L db)) \<subseteq># mset (filter (\<lambda>x. \<not> ?beyond x) (?L db'))" .
  from subset_mset.add_right_mono [OF this, of "mset (filter ?beyond (?L db'))"]
  have "mset (take n (?L db)) + mset (filter ?beyond (?L db')) \<subseteq>#
      mset (filter (\<lambda>x. \<not> ?beyond x) (?L db')) + mset (filter ?beyond (?L db'))" .
  also have "\<dots> = mset (?L db')" by (metis mset_filter multiset_partition union_commute)
  finally have sub: "mset (take n (?L db)) + mset (filter ?beyond (?L db')) \<subseteq># mset (?L db')" .
  have "set (take n (?L db)) = set (filter (\<lambda>x. \<not> ?beyond x) (?L db))"
    using page by (metis set_mset_mset)
  then show ?thesis using sub unfolding after by auto
qed

lemma place_time:
  assumes "alerts_tl.place x \<le> alerts_tl.place y" and "in_int64 (ar_Timestamp x)" and "in_int64 (ar_Timestamp y)"
  shows "t_Unix (al_Time (alert_of_row y)) \<le> t_Unix (al_Time (alert_of_row x))"
  using assms by (auto simp: alerts_tl.place_def alert_of_row_def)

lemma rows_after_range: "db_inv db \<Longrightarrow> r \<in> set (alert_rows_after d tf tk db) \<Longrightarrow> in_int64 (ar_Timestamp r)"
  using alert_rows_after_subset alert_rows_set row_in_range by blast

lemma page_then_listing:
  assumes inv: "db_inv db" and h: "healthy k db" and iss: "issued db d tf tk"
    and n: "0 < n" "n < 9223372036854775807"
    and call: "GetDeviceAlerts_repo d tf \<lparr>po_Size = n, po_Token = tk\<rparr> db = (Ok page, s1)"
    and t: "pg_NextPageToken page = Some t" and inv': "db_inv db'" and grows: "db_grows db db'"
  shows "mset (pg_Items page) + mset (listing db' d tf (Some t)) \<subseteq># mset (listing db' d tf tk) \<and>
    (\<forall>a \<in> set (pg_Items page). \<forall>b \<in> set (listing db' d tf (Some t)). t_Unix (al_Time b) \<le> t_Unix (al_Time a))"
proof -
  let ?L = "alert_rows_after d tf tk db"
  let ?r = "last (take (nat n) ?L)"
  have "db_faults db = []" using h by (simp add: healthy_def)
  note read = page_read [OF inv this iss n]
  have more: "n < int (length ?L)"
    using call t by (cases "int (length ?L) \<le> n") (auto simp: read)
  then have page: "pg_Items page = map alert_of_row (take (nat n) ?L)" and t': "t = row_token ?r"
    using call t by (auto simp: read listing_def take_map)
  have pos: "0 < nat n" "nat n \<le> length ?L" using n more by auto
  note rows = rows_then [OF inv grows pos refl]
  have "t_Unix (al_Time (alert_of_row y)) \<le> t_Unix (al_Time (alert_of_row x))"
    if "x \<in> set (take (nat n) ?L)" "y \<in> set (alert_rows_after d tf (Some (row_token ?r)) db')" for x y
  proof (rule place_time)
    show "alerts_tl.place x \<le> alerts_tl.place y" using rows that by (meson le_less_trans less_imp_le)
    show "in_int64 (ar_Timestamp x)" using that rows_after_range [OF inv] by (blast dest: in_set_takeD)
    show "in_int64 (ar_Timestamp y)" using that rows_after_range [OF inv'] by blast
  qed
  moreover have "mset (pg_Items page) + mset (listing db' d tf (Some t)) \<subseteq># mset (listing db' d tf tk)"
    using image_mset_subseteq_mono [OF rows [THEN conjunct1], of alert_of_row] by (simp add: page t' listing_def)
  ultimately show ?thesis by (auto simp: page t' listing_def)
qed

interpretation live: growing_repository NewDeviceRepository db_inv healthy db_view listing issued db_grows
proof (unfold_locales, unfold NewDeviceRepository_def Repository.select_convs)
qed ((rule db_grows_self db_grows_on issued_grows listing_grows page_then_listing; assumption)+)

section \<open>Every step of the system lets the alerts grow\<close>

lemma alerts_kept:
  "UpsertDeviceConfig_repo d cfg db = (r, db') \<Longrightarrow> db_grows db db'"
  "SaveDeviceMetric_repo d m db = (r, db') \<Longrightarrow> db_grows db db'"
  "SaveDeviceAlert_repo d a db = (r, db') \<Longrightarrow> db_grows db db'"
  unfolding UpsertDeviceConfig_repo_def UpsertDeviceConfig_q_def SaveDeviceMetric_repo_def SaveDeviceMetric_q_def
    SaveDeviceAlert_repo_def SaveDeviceAlert_q_def
  by (erule db_callE; auto simp: db_grows_def split: if_splits)+

lemma config_kept: "GetDeviceConfig_repo d db = (q, db') \<Longrightarrow> db_grows db db'"
  by (cases "GetDeviceConfig_q d db", drule sym)
    (auto simp: GetDeviceConfig_repo_def GetDeviceConfig_q_def db_grows_def elim!: db_callE
      split: outcome.splits option.splits if_splits)

lemma listing_kept: "GetDeviceAlerts_repo d tf po db = (q, db') \<Longrightarrow> db_grows db db'"
  by (auto simp: GetDeviceAlerts_repo_def GetDeviceAlerts_q_def db_call_def db_grows_def
      split: outcome.splits option.splits prod.splits list.splits)

lemmas repository_kept = alerts_kept config_kept listing_kept

lemma in_store_grows:
  assumes "\<And>s q s'. m s = (q, s') \<Longrightarrow> db_grows s s'" and "in_store m w = (r, w')"
  shows "db_grows (st_store w) (st_store w')"
  using assms(2) by (auto simp: in_store_def split: prod.splits dest: assms(1))

lemma call_step_grows:
  assumes "call_step (svc l) req pc w = (pc', w')"
  shows "db_grows (st_store w) (st_store w')"
  using assms
  by (cases pc) (auto simp: go_on_def wrap_err_def check_temperature_def check_battery_def NewDeviceRepository_def
      in_store_def db_grows_self split: prod.splits outcome.splits if_splits dest!: repository_kept)

lemma configure_grows:
  assumes "ConfigureDevice (svc l) req w = (r, w')"
  shows "db_grows (st_store w) (st_store w')"
proof -
  obtain q s1 where q: "UpsertDeviceConfig_repo (cdr_DeviceID req) \<lparr>cfg_TemperatureThreshold = cdr_TemperatureThreshold req,
      cfg_BatteryThreshold = cdr_BatteryThreshold req\<rparr> (st_store w) = (q, s1)" by fastforce
  have "st_store w' = st_store w \<or> st_store w' = s1"
    using assms by (cases "validateConfigureDeviceReq req"; cases q)
      (auto simp: ConfigureDevice_def on_ok_def wrap_err_def in_store_def NewDeviceRepository_def q)
  then show ?thesis using alerts_kept(1) [OF q] db_grows_self by auto
qed

lemma list_grows:
  assumes "GetDeviceAlerts (svc l) req w = (r, w')"
  shows "db_grows (st_store w) (st_store w')"
proof (cases "validateGetDeviceAlertsReq req = None \<and> request_token req \<noteq> None")
  case False
  then have "w' = w" using assms by (cases "validateGetDeviceAlertsReq req") (auto simp: GetDeviceAlerts_refused)
  then show ?thesis by (simp add: db_grows_self)
next
  case True
  then obtain tk where tk: "request_token req = Some tk" by blast
  obtain q s1 where q: "GetDeviceAlerts_repo (gar_DeviceID req) (request_timeframe req)
      \<lparr>po_Size = page_size (gar_PageSize req), po_Token = tk\<rparr> (st_store w) = (q, s1)" by fastforce
  have "st_store w' = s1" using assms True tk q
    by (cases q) (auto simp: GetDeviceAlerts_valid on_ok_def wrap_err_def in_store_def NewDeviceRepository_def)
  then show ?thesis using listing_kept [OF q] by simp
qed

lemma sys_step_grows:
  "sys_step l c c' \<Longrightarrow> db_grows (st_store (sys_state c)) (st_store (sys_state c'))"
proof (induction rule: sys_step.induct)
  case (advance i c pc w)
  then show ?case using call_step_grows by simp
next
  case (configures creq c r w)
  then show ?case using configure_grows by simp
next
  case (lists greq c res w)
  then show ?case using list_grows by simp
qed (simp_all add: db_grows_def)

lemma sys_steps_grow: "sys_steps l c c' \<Longrightarrow> db_grows (st_store (sys_state c)) (st_store (sys_state c'))"
  by (induction rule: rtranclp_induct) (auto intro: db_grows_self db_grows_on sys_step_grows)

lemma alerts_grow: "db_grows db db' \<Longrightarrow> set (alerts_of db d) \<subseteq> set (alerts_of db' d)"
  by (auto simp: db_grows_def alerts_of_def)

section \<open>Properties\<close>

text \<open>C8. A client that follows the page tokens while other requests go on, each page from a later state of the
  system, sees every alert of the device in the timeframe that was there when it asked for the first page, and
  only alerts that are there in the end, none more often than it is stored, newest first. It comes
  to the last page when it asks more often than there are such alerts in the end.\<close>

theorem live_listing:
  assumes "sys_steps l idle_system (cs ! 0)" and "cs \<noteq> []" and "sorted_wrt (sys_steps l) cs"
    and "\<forall>c \<in> set cs. healthy 0 (st_store (sys_state c))"
    and "validateGetDeviceAlertsReq req = None" and "gar_PageToken req = []"
    and "\<forall>a \<in> set (alerts_of (st_store (sys_state (last cs))) (gar_DeviceID req)). json_time_ok (al_Time a)"
  defines "there \<equiv> \<lambda>c. filter (\<lambda>a. in_timeframe (request_timeframe req) (al_Time a))
      (alerts_of (st_store (sys_state c)) (gar_DeviceID req))"
  shows "(length (there (last cs)) < length cs \<longrightarrow> follow_live (svc l) req (map sys_state cs) \<noteq> None) \<and>
    (\<forall>as. follow_live (svc l) req (map sys_state cs) = Some as \<longrightarrow>
       mset (there (cs ! 0)) \<subseteq># mset as \<and> mset as \<subseteq># mset (there (last cs)) \<and>
       sorted_wrt (\<lambda>a b. t_Unix (al_Time b) \<le> t_Unix (al_Time a)) as)"
proof -
  let ?ws = "map sys_state cs" and ?d = "gar_DeviceID req" and ?tf = "request_timeframe req"
  have first: "sys_steps l (cs ! 0) c" if "c \<in> set cs" for c
    using assms(2,3) that by (cases cs) auto
  have inv: "db_inv (st_store (sys_state c))" if "c \<in> set cs" for c
    using reached_ok [OF rtranclp_trans [OF assms(1) first [OF that]]] by (simp add: sys_ok_def)
  have "sys_steps l c (last cs)" if "c \<in> set cs" for c
    using assms(2,3) that by (cases cs rule: rev_cases) (auto simp: sorted_wrt_append)
  then have grow: "db_grows (st_store (sys_state c)) (st_store (sys_state (last cs)))" if "c \<in> set cs" for c
    using that sys_steps_grow by blast
  have live: "live.live_states req ?ws"
    unfolding live.live_states_def sorted_wrt_map
  proof (intro conjI ballI)
    show "sorted_wrt (\<lambda>c c'. db_grows (st_store (sys_state c)) (st_store (sys_state c'))) cs"
      using assms(3) by (rule sorted_wrt_mono_rel [rotated]) (rule sys_steps_grow)
  qed (use inv grow assms(4,7) alerts_grow in \<open>fastforce+\<close>)
  have mset_there: "mset (listing (st_store (sys_state c)) ?d ?tf None) = mset (there c)" if "c \<in> set cs" for c
    using store.listing_mset [OF inv [OF that]] by (simp add: there_def)
  have ends: "?ws \<noteq> []" "last ?ws = sys_state (last cs)" "?ws ! 0 = sys_state (cs ! 0)" "last cs \<in> set cs" "cs ! 0 \<in> set cs"
    using assms(2) by (simp_all add: last_map)
  have tk: "request_token req = Some None" using assms(6) by (simp add: request_token_def)
  have len: "length (listing (st_store (sys_state (last cs))) ?d ?tf None) = length (there (last cs))"
    using mset_there [OF ends(4)] by (metis size_mset)
  have "length (there (last cs)) < length cs \<Longrightarrow> follow_live (svc l) req ?ws \<noteq> None"
    using live.follow_live_ends [OF live svc_repo assms(5) tk store.issued_start ends(1)] len ends(2) by simp
  moreover have "mset (there (cs ! 0)) \<subseteq># mset as \<and> mset as \<subseteq># mset (there (last cs)) \<and>
       sorted_wrt (\<lambda>a b. t_Unix (al_Time b) \<le> t_Unix (al_Time a)) as"
    if "follow_live (svc l) req ?ws = Some as" for as
    using live.follow_live_bounds [OF live ends(1) svc_repo assms(5) tk store.issued_start that]
      mset_there [OF ends(4)] mset_there [OF ends(5)] ends(2,3) by simp
  ultimately show ?thesis by blast
qed

text \<open>Two pages of one alert each, with a second alert raised between them.\<close>

definition watch :: GetDeviceAlertsRequest where
  "watch = \<lparr>gar_DeviceID = ''d1'', gar_TimeframeStart = None, gar_TimeframeEnd = None, gar_PageSize = 1,
     gar_PageToken = []\<rparr>"

definition one_alert :: "event list" where
  "one_alert = [Configure set_thresholds, Arrive cold_metric, Advance 0, Advance 0, Advance 0, Advance 0]"

definition another_alert :: "event list" where
  "another_alert = [Arrive cold_metric, Advance 1, Advance 1, Advance 1, Advance 1]"

abbreviation early :: system where
  "early \<equiv> schedule (NewLogger []) one_alert"

abbreviation late :: system where
  "late \<equiv> schedule (NewLogger []) (one_alert @ another_alert)"

definition cold_row :: "int \<Rightarrow> AlertRow" where
  "cold_row i = \<lparr>ar_ID = i, ar_DeviceID = ''d1'', ar_Reason = ''BATTERY_LOW'',
     ar_Desc = ''Battery (5) dropped below configured threshold (15)'', ar_Timestamp = 1745557200\<rparr>"

definition cold_db :: "int \<Rightarrow> MetricRow list \<Rightarrow> database" where
  "cold_db i ms = \<lparr>db_configs = [\<lparr>cr_DeviceID = ''d1'', cr_TemperatureThreshold = FFin False 20 0,
       cr_BatteryThreshold = 15\<rparr>], db_metrics = ms, db_alerts = map cold_row [1..i],
     db_metrics_seq = i, db_alerts_seq = i, db_faults = []\<rparr>"

lemma early_db: "st_store (sys_state early) = cold_db 1 (db_metrics (st_store (sys_state early)))"
  and late_db: "st_store (sys_state late) = cold_db 2 (db_metrics (st_store (sys_state late)))"
  by code_simp+

lemma cold_alerts: "alerts_of (cold_db i ms) ''d1'' = map (\<lambda>i. alert_of_row (cold_row i)) [1..i]"
  by (simp add: alerts_of_def cold_db_def cold_row_def filter_map o_def)

lemma watch_valid: "validateGetDeviceAlertsReq watch = None" "json_time_ok (unix_utc 1745557200)"
  by code_simp+

definition watched :: "system list" where
  "watched = [early, late, late]"

lemma watched_simps: "watched \<noteq> []" "watched ! 0 = early" "last watched = late" "length watched = 3"
  by (simp_all add: watched_def)

lemma watched_steps: "sys_steps (NewLogger []) idle_system (watched ! 0)" "sorted_wrt (sys_steps (NewLogger [])) watched"
  by (simp_all add: watched_def schedule_steps schedule_append)

lemma watched_alerts:
  "alerts_of (st_store (sys_state early)) ''d1'' = [alert_of_row (cold_row 1)]"
  "alerts_of (st_store (sys_state late)) ''d1'' = [alert_of_row (cold_row 1), alert_of_row (cold_row 2)]"
  by (subst early_db, simp add: cold_alerts upto.simps) (subst late_db, simp add: cold_alerts upto.simps)

lemma watched_healthy: "\<forall>c \<in> set watched. healthy 0 (st_store (sys_state c))"
proof -
  have "healthy 0 (st_store (sys_state early))" "healthy 0 (st_store (sys_state late))"
    by (subst early_db, simp add: healthy_def cold_db_def max_rowid_def)
      (subst late_db, simp add: healthy_def cold_db_def max_rowid_def)
  then show ?thesis by (simp add: watched_def)
qed

lemma live_listing_witness:
  "\<exists>as. follow_live (svc (NewLogger [])) watch (map sys_state watched) = Some as \<and> 0 < length as \<and> length as \<le> 2"
proof -
  have all: "filter (\<lambda>a. in_timeframe (request_timeframe watch) (al_Time a)) as = as" for as
    by (simp add: watch_def request_timeframe_def in_timeframe_def)
  have d: "gar_DeviceID watch = ''d1''" and tok: "gar_PageToken watch = []" by (simp_all add: watch_def)
  have times: "\<forall>a \<in> set (alerts_of (st_store (sys_state (last watched))) (gar_DeviceID watch)). json_time_ok (al_Time a)"
    unfolding watched_simps d watched_alerts using watch_valid(2) by (simp add: alert_of_row_def cold_row_def)
  note result = live_listing [OF watched_steps(1) watched_simps(1) watched_steps(2) watched_healthy
      watch_valid(1) tok times, unfolded all d watched_simps watched_alerts]
  have "follow_live (svc (NewLogger [])) watch (map sys_state watched) \<noteq> None"
    by (rule result [THEN conjunct1, THEN mp]) simp
  then obtain as where as: "follow_live (svc (NewLogger [])) watch (map sys_state watched) = Some as" by blast
  note bounds = result [THEN conjunct2, THEN spec, THEN mp, OF as]
  have "1 \<le> length as" using size_mset_mono [OF bounds [THEN conjunct1]] by simp
  moreover have "length as \<le> 2" using size_mset_mono [OF bounds [THEN conjunct2, THEN conjunct1]] by simp
  ultimately show ?thesis using as by auto
qed

end
