(* ===== verification/MetricPages.thy ===== *)
theory MetricPages
  imports Repository
begin

text \<open>
  Listing the metrics of a device, \<^verbatim>\<open>GetDeviceMetrics\<close> of \<^verbatim>\<open>sqlite/repository.go\<close>: the same
  keyset pagination as the alerts, at the level of the repository, which no handler calls yet. The
  walk along the cursors is the one of the locale \<open>timeline\<close>, interpreted as \<open>metrics_tl\<close>.
\<close>

section \<open>One page\<close>

abbreviation metric_rows_after :: "(int \<times> int) option \<Rightarrow> string \<Rightarrow> Timeframe \<Rightarrow> database \<Rightarrow> MetricRow list" where
  "metric_rows_after c d tf db \<equiv>
     metrics_tl.after_cursor c d (map_option t_Unix (tf_Start tf)) (map_option t_Unix (tf_End tf)) (db_metrics db)"

definition cursor_token :: "int \<times> int \<Rightarrow> RepositoryPageToken" where
  "cursor_token c = \<lparr>LastTime = Some (unix_utc (fst c)), LastID = Some (snd c)\<rparr>"

definition metric_cursor :: "MetricRow \<Rightarrow> int \<times> int" where
  "metric_cursor r = (mr_Timestamp r, mr_ID r)"

lemma cursor_params_token:
  "(\<And>lt li. c = Some (lt, li) \<Longrightarrow> in_int64 lt) \<Longrightarrow>
   cursor_params (map_option cursor_token c) = Some (map_option fst c, map_option snd c)"
  by (cases c) (auto simp: cursor_params_def cursor_token_def)

lemma metrics_page_read:
  fixes d :: string and tf :: Timeframe
  assumes inv: "db_inv db" and h: "db_faults db = []" and c: "\<And>lt li. c = Some (lt, li) \<Longrightarrow> in_int64 lt"
    and n: "0 < n" "n < 9223372036854775807"
  defines "L \<equiv> metric_rows_after c d tf db"
  shows "GetDeviceMetrics_repo d tf \<lparr>po_Size = n, po_Token = map_option cursor_token c\<rparr> db =
    (if int (length L) \<le> n then (Ok \<lparr>pg_Items = map metric_of_row L, pg_NextPageToken = None\<rparr>, db)
     else (Ok \<lparr>pg_Items = map metric_of_row (take (nat n) L),
            pg_NextPageToken = Some (cursor_token (metric_cursor (last (take (nat n) L))))\<rparr>, db))"
proof -
  have "distinct (map mr_ID (db_metrics db))" using inv ids_ok_distinct by (auto simp: db_inv_def)
  then show ?thesis
    using n by (simp add: GetDeviceMetrics_repo_def cursor_params_token [OF c] GetDeviceMetrics_q_eq db_call_healthy h
        page_limit_eq metrics_tl.query_after_cursor peek_short peek_more cursor_token_def metric_cursor_def flip: L_def)
qed

section \<open>All the pages\<close>

text \<open>A reader that follows the tokens to the end; the fuel bounds the pages it asks for.\<close>

fun follow_metrics :: "nat \<Rightarrow> string \<Rightarrow> Timeframe \<Rightarrow> int \<Rightarrow> RepositoryPageToken option \<Rightarrow> database \<Rightarrow> Metric list option" where
  "follow_metrics 0 d tf n tk db = None"
| "follow_metrics (Suc k) d tf n tk db =
     (case GetDeviceMetrics_repo d tf \<lparr>po_Size = n, po_Token = tk\<rparr> db of
        (Ok page, db') \<Rightarrow>
          (case pg_NextPageToken page of
             None \<Rightarrow> Some (pg_Items page)
           | Some tk' \<Rightarrow> map_option ((@) (pg_Items page)) (follow_metrics k d tf n (Some tk') db'))
      | _ \<Rightarrow> None)"

lemma follow_metrics_rows:
  assumes inv: "db_inv db" and h: "db_faults db = []" and n: "0 < n" "n < 9223372036854775807"
  shows "(\<And>lt li. c = Some (lt, li) \<Longrightarrow> in_int64 lt) \<Longrightarrow> length (metric_rows_after c d tf db) < fuel \<Longrightarrow>
    follow_metrics fuel d tf n (map_option cursor_token c) db = Some (map metric_of_row (metric_rows_after c d tf db))"
proof (induction fuel arbitrary: c)
  case (Suc fuel)
  let ?L = "metric_rows_after c d tf db"
  note read = metrics_page_read [OF inv h Suc.prems(1) n, where d = d and tf = tf]
  show ?case
  proof (cases "int (length ?L) \<le> n")
    case True
    then show ?thesis using read Suc.prems(1) by simp
  next
    case False
    let ?r = "last (take (nat n) ?L)"
    have pos: "0 < nat n" "nat n \<le> length ?L" using n False by auto
    have dist: "distinct (map mr_ID (db_metrics db))" using inv ids_ok_distinct by (auto simp: db_inv_def)
    have "take (nat n) ?L \<noteq> []" using pos by auto
    then have "?r \<in> set ?L" by (meson in_set_takeD last_in_set)
    then have "?r \<in> set (db_metrics db)"
      using metrics_tl.after_cursor_subset metrics_tl.selection_set by blast
    then have ts: "in_int64 (mr_Timestamp ?r)" using inv by (auto simp: db_inv_def)
    have rest: "metric_rows_after (Some (metric_cursor ?r)) d tf db = drop (nat n) ?L"
      unfolding metric_cursor_def by (rule metrics_tl.after_row [OF dist pos refl])
    have "follow_metrics fuel d tf n (map_option cursor_token (Some (metric_cursor ?r))) db =
        Some (map metric_of_row (drop (nat n) ?L))"
      using Suc.IH [of "Some (metric_cursor ?r)"] Suc.prems(2) ts pos unfolding rest by (auto simp: metric_cursor_def)
    then show ?thesis using False read Suc.prems(1)
      by (simp flip: map_append)
  qed
qed simp

text \<open>C14. On a database without faults a reader of the repository that follows the page tokens sees exactly
  the metrics of the device in the timeframe, the newest first and of those of one second the one stored last
  first, whatever the page size; one page more than there are metrics is enough.\<close>

theorem metrics_listed_completely:
  assumes "db_inv db" and "db_faults db = []" and "0 < n" and "n < 9223372036854775807"
    and "length (metrics_of db d) < fuel"
  shows "follow_metrics fuel d tf n None db = Some (newest_first met_Time tf (metrics_of db d))"
proof -
  let ?L = "metric_rows_after None d tf db"
  have ms: "map metric_of_row ?L = newest_first met_Time tf (metrics_of db d)"
    unfolding metrics_tl.after_cursor_def option.case metrics_of_def
    using assms(1) by (intro metrics_tl.selection_newest_first) (simp_all add: db_inv_def ids_ok_def metric_of_row_def)
  then have "length ?L \<le> length (metrics_of db d)"
    using newest_first_length [of met_Time tf "metrics_of db d"] by (metis length_map)
  then show ?thesis
    using follow_metrics_rows [OF assms(1-4), of None d tf fuel] assms(5) by (simp add: ms)
qed

definition demo_metrics_db :: database where
  "demo_metrics_db = empty_db\<lparr>db_metrics :=
     [\<lparr>mr_ID = 1, mr_DeviceID = ''d1'', mr_Temperature = FFin False 1 0, mr_Battery = 5, mr_Timestamp = 100\<rparr>,
      \<lparr>mr_ID = 2, mr_DeviceID = ''d2'', mr_Temperature = FFin False 2 0, mr_Battery = 5, mr_Timestamp = 100\<rparr>,
      \<lparr>mr_ID = 3, mr_DeviceID = ''d1'', mr_Temperature = FFin False 3 0, mr_Battery = 5, mr_Timestamp = 100\<rparr>],
    db_metrics_seq := 3\<rparr>"

lemma metrics_listed_completely_witness:
  "follow_metrics 3 ''d1'' \<lparr>tf_Start = None, tf_End = None\<rparr> 1 None demo_metrics_db =
    Some [\<lparr>met_Temperature = FFin False 3 0, met_Battery = 5, met_Time = unix_utc 100\<rparr>,
      \<lparr>met_Temperature = FFin False 1 0, met_Battery = 5, met_Time = unix_utc 100\<rparr>]"
proof -
  have inv: "db_inv demo_metrics_db" "db_faults demo_metrics_db = []"
    by (simp_all add: demo_metrics_db_def empty_db_def db_inv_def ids_ok_def max_rowid_def is_nan_def in_int32_def in_int64_def)
  have ms: "metrics_of demo_metrics_db ''d1'' =
      [\<lparr>met_Temperature = FFin False 1 0, met_Battery = 5, met_Time = unix_utc 100\<rparr>,
       \<lparr>met_Temperature = FFin False 3 0, met_Battery = 5, met_Time = unix_utc 100\<rparr>]"
    by (simp add: metrics_of_def demo_metrics_db_def empty_db_def metric_of_row_def to_int32_id in_int32_def)
  show ?thesis
    using metrics_listed_completely [OF inv, of 1 "''d1''" 3 "\<lparr>tf_Start = None, tf_End = None\<rparr>"]
    by (simp add: ms newest_first_def in_timeframe_def)
qed

end
