(* ===== verification/History.thy ===== *)
theory History
  imports Concurrency
begin

text \<open>
  Whole histories of the service: a sequence of requests, each answered before the next is sent. The abstract
  service answers from the contents alone, a map of configurations and the metrics and alerts of each
  device in the order they were saved; it knows no rows, ids, statements, pages or tokens. The theorem says
  that no client can tell the two apart.
\<close>

section \<open>The abstract service\<close>

datatype request =
    AskConfigure ConfigureDeviceRequest
  | AskRecord RecordMetricRequest
  | AskAlerts GetDeviceAlertsRequest

datatype answer = Accepted | Refused go_error | Listed "Alert list" | Crashed string | GaveUp

text \<open>
  The abstract service is a function of the request and the contents. \<open>bad_config\<close> and \<open>bad_metric\<close>
  are the errors for a NaN, which the validators let pass and no store keeps.
\<close>

definition abstract_step :: "go_error \<Rightarrow> go_error \<Rightarrow> request \<Rightarrow> contents \<Rightarrow> answer \<times> contents" where
  "abstract_step bad_config bad_metric q ct =
     (case q of
        AskConfigure req \<Rightarrow>
          (case validateConfigureDeviceReq req of
             Some e \<Rightarrow> (Refused e, ct)
           | None \<Rightarrow>
               if is_nan (cdr_TemperatureThreshold req) then (Refused bad_config, ct)
               else (Accepted, set_config (cdr_DeviceID req) (requested_config req) ct))
      | AskRecord req \<Rightarrow>
          (case validateRecordMetricReq req of
             Some e \<Rightarrow> (Refused e, ct)
           | None \<Rightarrow>
               if is_nan (rmr_Temperature req) then (Refused bad_metric, ct)
               else (Accepted, recorded req (alerts_due ct req) ct))
      | AskAlerts req \<Rightarrow>
          (case validateGetDeviceAlertsReq req of
             Some e \<Rightarrow> (Refused e, ct)
           | None \<Rightarrow> (Listed (newest_first al_Time (request_timeframe req) (ct_alerts ct (gar_DeviceID req))), ct)))"

text \<open>Running a step function over a list of requests.\<close>

fun history :: "('q \<Rightarrow> 's \<Rightarrow> 'a \<times> 's) \<Rightarrow> 'q list \<Rightarrow> 's \<Rightarrow> 'a list \<times> 's" where
  "history step [] s = ([], s)"
| "history step (q # qs) s =
     (case step q s of (a, s') \<Rightarrow> (case history step qs s' of (as, s'') \<Rightarrow> (a # as, s'')))"

section \<open>The service as its clients use it\<close>

fun answered :: "('a \<Rightarrow> answer) \<Rightarrow> (go_error, 'a) outcome \<Rightarrow> answer" where
  "answered f (Ok x) = f x"
| "answered f (Err e) = Refused e"
| "answered f (Panic p) = Crashed p"

definition respond :: "nat \<Rightarrow> 's Service \<Rightarrow> request \<Rightarrow> 's svc_state \<Rightarrow> answer \<times> 's svc_state" where
  "respond fuel S q w =
     (case q of
        AskConfigure req \<Rightarrow> (case ConfigureDevice S req w of (r, w') \<Rightarrow> (answered (\<lambda>_. Accepted) r, w'))
      | AskRecord req \<Rightarrow> (case RecordMetric S req w of (r, w') \<Rightarrow> (answered (\<lambda>_. Accepted) r, w'))
      | AskAlerts req \<Rightarrow> (case follow_pages fuel S req w of
            (r, w') \<Rightarrow> (answered (\<lambda>as. case as of None \<Rightarrow> GaveUp | Some as \<Rightarrow> Listed as) r, w')))"

section \<open>Refinement\<close>

text \<open>
  Requests a client may send: a listing starts at the first page, and the time of a metric has a year of at
  most four digits, as the JSON of a page token needs.
\<close>

definition orderly :: "request \<Rightarrow> bool" where
  "orderly q \<longleftrightarrow> (case q of
     AskConfigure req \<Rightarrow> True
   | AskRecord req \<Rightarrow> json_time_ok (kept_time (t_UTC (rmr_Timestamp req)))
   | AskAlerts req \<Rightarrow> gar_PageToken req = [])"

text \<open>Contents that can be listed, within a number of pages.\<close>

definition listable :: "nat \<Rightarrow> contents \<Rightarrow> bool" where
  "listable n ct \<longleftrightarrow> (\<forall>d. length (ct_alerts ct d) < n \<and> (\<forall>a \<in> set (ct_alerts ct d). json_time_ok (al_Time a)))"

lemma listable_more: "listable n ct \<Longrightarrow> n \<le> m \<Longrightarrow> listable m ct"
  by (auto simp: listable_def intro: order.strict_trans2)

lemma alerts_due_length: "length (alerts_due ct req) \<le> 2"
  by (auto simp: alerts_due_def alerts_raised_length split: option.split)

lemma alerts_due_time: "a \<in> set (alerts_due ct req) \<Longrightarrow> al_Time a = t_UTC (rmr_Timestamp req)"
  by (auto simp: alerts_due_def alerts_raised_def temperature_alert_def battery_alert_def split: option.splits if_splits)

lemma listable_step:
  assumes "listable n ct" and "orderly q"
  shows "listable (n + 2) (snd (abstract_step bc bm q ct))"
proof (cases q)
  case (AskRecord req)
  have "listable (n + 2) (recorded req (alerts_due ct req) ct)"
    unfolding listable_def
  proof (intro allI conjI ballI)
    fix d
    show "length (ct_alerts (recorded req (alerts_due ct req) ct) d) < n + 2"
      using assms(1) alerts_due_length [of ct req] spec [OF assms(1) [unfolded listable_def], of d]
      by (auto simp: recorded_def)
    fix a assume "a \<in> set (ct_alerts (recorded req (alerts_due ct req) ct) d)"
    then show "json_time_ok (al_Time a)"
      using assms alerts_due_time [of _ ct req]
      by (auto simp: recorded_def listable_def orderly_def AskRecord kept_alert_def split: if_splits)
  qed
  then show ?thesis using listable_more [OF assms(1)]
    by (auto simp: abstract_step_def AskRecord split: option.split)
qed (use listable_more [OF assms(1), of "n + 2"] in \<open>auto simp: abstract_step_def listable_def split: option.split\<close>)

text \<open>A repository that refuses a NaN, whatever it holds, with an error of its own.\<close>

locale strict_repository = device_repository R inv healthy view listing issued
  for R :: "'s Repository" and inv healthy view listing issued +
  fixes bad_threshold :: go_error and bad_temperature :: go_error
  assumes upsert_nan:
      "healthy k s \<Longrightarrow> is_nan (cfg_TemperatureThreshold c) \<Longrightarrow> repo_UpsertDeviceConfig R d c s = (Err bad_threshold, s)"
    and metric_nan:
      "healthy k s \<Longrightarrow> is_nan (met_Temperature m) \<Longrightarrow> repo_SaveDeviceMetric R d m s = (Err bad_temperature, s)"
begin

abbreviation step :: "request \<Rightarrow> contents \<Rightarrow> answer \<times> contents" where
  "step \<equiv> abstract_step (ErrWrapf ''upsert device config'' bad_threshold) (ErrWrapf ''save device metric'' bad_temperature)"

text \<open>What is needed of a state to answer \<open>k\<close> more requests.\<close>

definition ready :: "nat \<Rightarrow> nat \<Rightarrow> 's svc_state \<Rightarrow> bool" where
  "ready fuel k w \<longleftrightarrow> inv (st_store w) \<and> healthy (3 * k) (st_store w) \<and>
     (\<exists>n. listable n (view (st_store w)) \<and> n + 2 * k \<le> fuel)"

lemma healthy_Suc3: "healthy (3 * Suc k) s \<Longrightarrow> healthy (Suc (Suc (Suc (3 * k)))) s"
proof -
  have "3 * Suc k = Suc (Suc (Suc (3 * k)))" by simp
  then show "healthy (3 * Suc k) s \<Longrightarrow> healthy (Suc (Suc (Suc (3 * k)))) s" by (simp only:)
qed

lemma healthy_less3: "healthy (3 * Suc k) s \<Longrightarrow> healthy (3 * k) s"
  by (rule healthy_less [OF healthy_less [OF healthy_less [OF healthy_Suc3]]])

lemma respond_effect:
  assumes repo: "sv_repo S = R" and ready: "ready fuel (Suc k) w" and q: "orderly q"
  shows "\<exists>w'. respond fuel S q w = (fst (step q (view (st_store w))), w') \<and> inv (st_store w') \<and>
    healthy (3 * k) (st_store w') \<and> view (st_store w') = snd (step q (view (st_store w)))"
proof -
  have inv: "inv (st_store w)" and h: "healthy (3 * Suc k) (st_store w)" using ready by (simp_all add: ready_def)
  obtain n where n: "listable n (view (st_store w))" "n \<le> fuel" using ready by (auto simp: ready_def)
  show ?thesis
  proof (cases q)
    case (AskConfigure req)
    show ?thesis
    proof (cases "validateConfigureDeviceReq req")
      case None
      show ?thesis
      proof (cases "is_nan (cdr_TemperatureThreshold req)")
        case True
        have "ConfigureDevice S req w = (Err (ErrWrapf ''upsert device config'' bad_threshold), w)"
          using upsert_nan [OF h] True None repo
          by (simp add: ConfigureDevice_def on_ok_def wrap_err_def in_store_def)
        then show ?thesis using inv healthy_less3 [OF h] None True
          by (simp add: respond_def abstract_step_def AskConfigure)
      next
        case False
        obtain w' where w': "ConfigureDevice S req w = (Ok (), w')" "healthy (3 * k) (st_store w')"
          using configure_live [OF inv healthy_less3 [OF h] repo None False] by blast
        then show ?thesis using configure_effect [OF inv repo w'(1)] None False
          by (simp add: respond_def abstract_step_def AskConfigure)
      qed
    qed (use inv healthy_less3 [OF h] in \<open>simp add: respond_def abstract_step_def AskConfigure ConfigureDevice_def\<close>)
  next
    case (AskRecord req)
    show ?thesis
    proof (cases "validateRecordMetricReq req")
      case None
      show ?thesis
      proof (cases "is_nan (rmr_Temperature req)")
        case True
        have "RecordMetric S req w = (Err (ErrWrapf ''save device metric'' bad_temperature), w)"
          using metric_nan [OF h, of "recorded_metric req" "rmr_DeviceID req"] True None repo
          by (simp add: RecordMetric_valid on_ok_def wrap_err_def in_store_def)
        then show ?thesis using inv healthy_less3 [OF h] None True
          by (simp add: respond_def abstract_step_def AskRecord)
      next
        case False
        obtain w' where w': "RecordMetric S req w = (Ok (), w')" "healthy (3 * k) (st_store w')"
          "view (st_store w') = recorded req (alerts_due (view (st_store w)) req) (view (st_store w))"
          using record_live_on [OF inv healthy_Suc3 [OF h] repo None False] by blast
        then show ?thesis using record_effect [OF inv repo w'(1)] None False
          by (simp add: respond_def abstract_step_def AskRecord)
      qed
    qed (use inv healthy_less3 [OF h] in \<open>simp add: respond_def abstract_step_def AskRecord RecordMetric_invalid\<close>)
  next
    case (AskAlerts req)
    then have tok: "gar_PageToken req = []" using q by (simp add: orderly_def)
    show ?thesis
    proof (cases "validateGetDeviceAlertsReq req")
      case None
      let ?as = "ct_alerts (view (st_store w)) (gar_DeviceID req)"
      have "length ?as < fuel" "\<forall>a \<in> set ?as. json_time_ok (al_Time a)"
        using n by (auto simp: listable_def intro: order.strict_trans2)
      moreover have "length (newest_first al_Time (request_timeframe req) ?as) \<le> length ?as" by (rule newest_first_length)
      ultimately have "follow_pages fuel S req w = (Ok (Some (newest_first al_Time (request_timeframe req) ?as)), w)"
        using follow_listing [OF inv h repo None, of None fuel] issued_start tok
        by (simp add: listing_law [OF inv] request_token_def)
      then show ?thesis using inv healthy_less3 [OF h] None by (simp add: respond_def abstract_step_def AskAlerts)
    next
      case (Some e)
      obtain m where "fuel = Suc m" using n(1) n(2) by (cases fuel) (auto simp: listable_def)
      then have "follow_pages fuel S req w = (Err e, w)" by (simp add: GetDeviceAlerts_refused Some)
      then show ?thesis using inv healthy_less3 [OF h] Some by (simp add: respond_def abstract_step_def AskAlerts)
    qed
  qed
qed

lemma respond_refines:
  assumes "sv_repo S = R" and "ready fuel (Suc k) w" and "orderly q"
  shows "\<exists>w'. respond fuel S q w = (fst (step q (view (st_store w))), w') \<and>
    view (st_store w') = snd (step q (view (st_store w))) \<and> ready fuel k w'"
proof -
  obtain w' where w': "respond fuel S q w = (fst (step q (view (st_store w))), w')" "inv (st_store w')"
    "healthy (3 * k) (st_store w')" "view (st_store w') = snd (step q (view (st_store w)))"
    using respond_effect [OF assms] by blast
  obtain n where n: "listable n (view (st_store w))" "n + 2 * Suc k \<le> fuel" using assms(2) by (auto simp: ready_def)
  then have "listable (n + 2) (view (st_store w'))" unfolding w'(4) using assms(3) by (intro listable_step)
  moreover have "n + 2 + 2 * k \<le> fuel" using n(2) by simp
  ultimately have "ready fuel k w'" using w'(2,3) by (auto simp: ready_def)
  then show ?thesis using w' by blast
qed

lemma history_refines:
  assumes "sv_repo S = R" and "ready fuel (length qs) w" and "list_all orderly qs"
  shows "\<exists>w'. history (respond fuel S) qs w = (fst (history step qs (view (st_store w))), w') \<and>
    view (st_store w') = snd (history step qs (view (st_store w))) \<and> ready fuel 0 w'"
  using assms(2,3)
proof (induction qs arbitrary: w)
  case (Cons q qs)
  obtain w1 where w1: "respond fuel S q w = (fst (step q (view (st_store w))), w1)"
    "view (st_store w1) = snd (step q (view (st_store w)))" "ready fuel (length qs) w1"
    using respond_refines [OF assms(1), of fuel "length qs" w q] Cons.prems by auto
  from Cons.IH [OF w1(3)] Cons.prems(2) obtain w2 where
    "history (respond fuel S) qs w1 = (fst (history step qs (view (st_store w1))), w2)"
    "view (st_store w2) = snd (history step qs (view (st_store w1)))" "ready fuel 0 w2" by auto
  then show ?case using w1 by (auto split: prod.split)
qed simp

end

section \<open>The program\<close>

interpretation strict: strict_repository NewDeviceRepository db_inv healthy db_view listing issued
  "err_not_null ''configs.temperature_threshold''" "err_not_null ''metrics.temperature''"
  by unfold_locales (simp_all add: NewDeviceRepository_def UpsertDeviceConfig_repo_def UpsertDeviceConfig_q_def
      SaveDeviceMetric_repo_def SaveDeviceMetric_q_def healthy_def db_call_healthy)

definition specified :: "request \<Rightarrow> contents \<Rightarrow> answer \<times> contents" where
  "specified = abstract_step
     (ErrWrapf ''upsert device config'' (err_not_null ''configs.temperature_threshold''))
     (ErrWrapf ''save device metric'' (err_not_null ''metrics.temperature''))"


text \<open>A device is configured, sends a metric that is too hot and low, is listed, and is misconfigured.\<close>

definition demo_requests :: "request list" where
  "demo_requests = [AskConfigure set_thresholds, AskRecord hot_metric,
     AskAlerts \<lparr>gar_DeviceID = ''d1'', gar_TimeframeStart = None, gar_TimeframeEnd = None, gar_PageSize = 1,
       gar_PageToken = []\<rparr>,
     AskConfigure (set_thresholds\<lparr>cdr_BatteryThreshold := 101\<rparr>)]"

lemma demo_answers:
  "fst (history specified demo_requests (db_view empty_db)) =
    [Accepted, Accepted, Listed (map kept_alert (rev (alerts_raised hot_metric (requested_config set_thresholds)))),
     Refused (ErrBadRequest [(''battery_threshold'', [''Must be between 0 and 100''])])]"
  by code_simp


end
