(* ===== verification/RestHistory.thy ===== *)
theory RestHistory
  imports History Server
begin

text \<open>
  Whole histories over REST: the requests of \<open>History\<close> as a REST client sends them, through the middlewares
  and the handlers of \<^verbatim>\<open>device/echo_handler.go\<close>, with the status and the body it reads back. The client
  follows \<^verbatim>\<open>next_page_token\<close> itself.
\<close>

section \<open>A REST client\<close>

text \<open>What \<^verbatim>\<open>c.Bind\<close> makes of a request of each route.\<close>

record 'q binders =
  bind_Configure :: "'q \<Rightarrow> go_error + ConfigureDeviceRequest"
  bind_Record :: "'q \<Rightarrow> go_error + RecordMetricRequest"
  bind_Alerts :: "'q \<Rightarrow> go_error + GetDeviceAlertsRequest"

text \<open>The handler behind each route of \<open>echo_routes\<close>.\<close>

definition rest_handler ::
  "'q binders \<Rightarrow> 's Service \<Rightarrow> operation \<Rightarrow> 'q \<Rightarrow> (('s, 'l) world, GetDeviceAlertsResponse) echo_handler" where
  "rest_handler B S op q = in_svc
     (case op of
        OpConfigureDevice \<Rightarrow> ConfigureDevice_echo (bind_Configure B) S q
      | OpRecordMetric \<Rightarrow> RecordMetric_echo (bind_Record B) S q
      | OpGetDeviceAlerts \<Rightarrow> GetDeviceAlerts_echo (bind_Alerts B) S q)"

text \<open>\<open>Bare\<close> is a status other than 201 with no body, as the rate limiter answers.\<close>

datatype rest_answer = Created | Problem int RestError | Shown "Alert list" | Bare int | Unclear

fun read_reply :: "(go_error, GetDeviceAlertsResponse echo_reply) outcome \<Rightarrow> rest_answer" where
  "read_reply (Ok (NoContent s)) = (if s = 201 then Created else Bare s)"
| "read_reply (Ok (ErrorReply s body)) = Problem s (rer_Error body)"
| "read_reply _ = Unclear"

text \<open>
  \<open>stack\<close> is the chain of middlewares around a handler, \<open>turn q t\<close> the request \<open>q\<close> with the page token
  \<open>t\<close>. \<open>rest_pages\<close> asks for at most \<open>fuel\<close> pages.
\<close>

fun rest_pages ::
  "nat \<Rightarrow> ('q \<Rightarrow> (('s, 'l) world, GetDeviceAlertsResponse) echo_handler) \<Rightarrow> ('q \<Rightarrow> string \<Rightarrow> 'q) \<Rightarrow> 'q
   \<Rightarrow> ('s, 'l) world \<Rightarrow> rest_answer \<times> ('s, 'l) world" where
  "rest_pages 0 serve turn q w = (Unclear, w)"
| "rest_pages (Suc fuel) serve turn q w =
     (case serve q w of
        (Ok (JSONReply s res), w') \<Rightarrow>
          if s \<noteq> 200 then (Unclear, w')
          else if gares_NextPageToken res = [] then (Shown (gares_Alerts res), w')
          else (case rest_pages fuel serve turn (turn q (gares_NextPageToken res)) w' of
                  (Shown as, w'') \<Rightarrow> (Shown (gares_Alerts res @ as), w'')
                | r \<Rightarrow> r)
      | (r, w') \<Rightarrow> (read_reply r, w'))"

definition rest_ask ::
  "nat \<Rightarrow> (('q \<Rightarrow> (('s, 'l) world, GetDeviceAlertsResponse) echo_handler) \<Rightarrow> 'q
      \<Rightarrow> (('s, 'l) world, GetDeviceAlertsResponse) echo_handler) \<Rightarrow>
   'q binders \<Rightarrow> ('q \<Rightarrow> string \<Rightarrow> 'q) \<Rightarrow> 's Service \<Rightarrow> operation \<times> 'q \<Rightarrow> ('s, 'l) world \<Rightarrow> rest_answer \<times> ('s, 'l) world" where
  "rest_ask fuel stack B turn S oq w =
     (let serve = stack (rest_handler B S (fst oq)) in
      if fst oq = OpGetDeviceAlerts then rest_pages fuel serve turn (snd oq) w
      else (case serve (snd oq) w of (r, w') \<Rightarrow> (read_reply r, w')))"

section \<open>What it should be answered\<close>

definition bound :: "'q binders \<Rightarrow> operation \<times> 'q \<Rightarrow> go_error + request" where
  "bound B oq = (case fst oq of
     OpConfigureDevice \<Rightarrow> map_sum id AskConfigure (bind_Configure B (snd oq))
   | OpRecordMetric \<Rightarrow> map_sum id AskRecord (bind_Record B (snd oq))
   | OpGetDeviceAlerts \<Rightarrow> map_sum id AskAlerts (bind_Alerts B (snd oq)))"

fun rest_answer_of :: "(violations \<Rightarrow> violations) \<Rightarrow> answer \<Rightarrow> rest_answer" where
  "rest_answer_of ord Accepted = Created"
| "rest_answer_of ord (Refused e) = Problem (re_Code (rest_error_of ord e)) (rest_error_of ord e)"
| "rest_answer_of ord (Listed as) = Shown as"
| "rest_answer_of ord _ = Unclear"

definition rest_specified ::
  "(violations \<Rightarrow> violations) \<Rightarrow> 'q binders \<Rightarrow> operation \<times> 'q \<Rightarrow> contents \<Rightarrow> rest_answer \<times> contents" where
  "rest_specified ord B oq ct =
     (case bound B oq of
        Inl e \<Rightarrow> (rest_answer_of ord (Refused e), ct)
      | Inr q \<Rightarrow> (case specified q ct of (a, ct') \<Rightarrow> (rest_answer_of ord a, ct')))"

section \<open>Refinement\<close>

text \<open>A stack that passes the values and the errors of a handler on, the latter as a structured error.\<close>

definition transparent ::
  "(violations \<Rightarrow> violations) \<Rightarrow> (('q \<Rightarrow> (('s, 'l) world, 'b) echo_handler) \<Rightarrow> 'q \<Rightarrow> (('s, 'l) world, 'b) echo_handler) \<Rightarrow> bool" where
  "transparent ord stack \<longleftrightarrow> (\<forall>h q w w'.
     (\<forall>r. h q w = (Ok r, w') \<longrightarrow> (\<exists>f. stack h q w = (Ok r, log_to f w'))) \<and>
     (\<forall>e. h q w = (Err e, w') \<longrightarrow> (\<exists>f. stack h q w =
        (Ok (ErrorReply (re_Code (rest_error_of ord e)) \<lparr>rer_Error = rest_error_of ord e\<rparr>), log_to f w'))))"

lemma transparent_stack:
  assumes "recovers Recover" and "logs_requests RequestLogger" and "app_DeviceRateLimit cfg = None"
  shows "transparent ord (rest_stack Recover (run_middleware ord RequestLogger NewLimiter LWait meta_of Param cfg))"
  unfolding transparent_def
  by (intro allI conjI impI; rule rest_ok_response [OF assms] rest_error_response [OF assms]; assumption)

lemma transparentD:
  assumes "transparent ord stack"
  shows "h q w = (Ok r, w') \<Longrightarrow> \<exists>f. stack h q w = (Ok r, log_to f w')"
    and "h q w = (Err e, w') \<Longrightarrow> \<exists>f. stack h q w =
        (Ok (ErrorReply (re_Code (rest_error_of ord e)) \<lparr>rer_Error = rest_error_of ord e\<rparr>), log_to f w')"
  using assms by (auto simp: transparent_def)

text \<open>The client knows how to ask for the next page: the same request with the token in its query.\<close>

definition turns_pages :: "'q binders \<Rightarrow> ('q \<Rightarrow> string \<Rightarrow> 'q) \<Rightarrow> bool" where
  "turns_pages B turn \<longleftrightarrow> (\<forall>q r tok. bind_Alerts B q = Inr r \<longrightarrow> bind_Alerts B (turn q tok) = Inr (r\<lparr>gar_PageToken := tok\<rparr>))"

lemma turns_pagesD:
  "turns_pages B turn \<Longrightarrow> bind_Alerts B q = Inr r \<Longrightarrow> bind_Alerts B (turn q tok) = Inr (r\<lparr>gar_PageToken := tok\<rparr>)"
  by (simp add: turns_pages_def)

text \<open>One page as the handler gives it, with the token of the page after it.\<close>

lemma alerts_page_handler:
  assumes "bind_Alerts B q = Inr req" and inv: "db_inv (st_store (wd_svc w))" and healthy: "healthy k (st_store (wd_svc w))"
    and valid: "validateGetDeviceAlertsReq req = None"
    and times: "\<forall>a \<in> set (alerts_of (st_store (wd_svc w)) (gar_DeviceID req)). json_time_ok (al_Time a)"
    and tk: "request_token req = Some tk" "issued (st_store (wd_svc w)) (gar_DeviceID req) (request_timeframe req) tk"
    and L: "L = listing (st_store (wd_svc w)) (gar_DeviceID req) (request_timeframe req) tk"
    and n: "n = nat (page_size (gar_PageSize req))"
  shows "0 < n \<and> (\<exists>tok. rest_handler B (svc l) OpGetDeviceAlerts q w =
      (Ok (JSONReply 200 \<lparr>gares_Alerts = take n L, gares_NextPageToken = tok\<rparr>), w) \<and>
    (if length L \<le> n then tok = []
     else tok \<noteq> [] \<and> (\<exists>nt. request_token (req\<lparr>gar_PageToken := tok\<rparr>) = Some nt \<and>
       issued (st_store (wd_svc w)) (gar_DeviceID req) (request_timeframe req) nt \<and>
       listing (st_store (wd_svc w)) (gar_DeviceID req) (request_timeframe req) nt = drop n L)))"
proof
  show pos: "0 < n" using valid page_size_bounds n by (simp add: validateAlerts_None_iff)
  then have le: "length L \<le> n \<longleftrightarrow> int (length L) \<le> page_size (gar_PageSize req)" using n by linarith
  have times': "\<forall>a \<in> set (ct_alerts (db_view (st_store (wd_svc w))) (gar_DeviceID req)). json_time_ok (al_Time a)"
    using times by simp
  from store.alerts_page [OF inv healthy svc_repo valid times' tk refl refl] obtain tok where
    run: "GetDeviceAlerts (svc l) req (wd_svc w) = (Ok \<lparr>gares_Alerts = take n L, gares_NextPageToken = tok\<rparr>, wd_svc w)"
    and tok: "if length L \<le> n then tok = []
     else tok \<noteq> [] \<and> (\<exists>nt. request_token (req\<lparr>gar_PageToken := tok\<rparr>) = Some nt \<and>
       issued (st_store (wd_svc w)) (gar_DeviceID req) (request_timeframe req) nt \<and>
       listing (st_store (wd_svc w)) (gar_DeviceID req) (request_timeframe req) nt = drop n L)"
    unfolding L [symmetric] n [symmetric] le [symmetric] by blast
  from store.alerts_shown [OF inv svc_repo run]
  have "set (take n L) \<subseteq> set (alerts_of (st_store (wd_svc w)) (gar_DeviceID req))" by auto
  then have "marshal_alerts (take n L) = None"
    using times json_time_ok_marshal unfolding marshal_alerts_None_iff by blast
  then have "rest_handler B (svc l) OpGetDeviceAlerts q w =
      (Ok (JSONReply 200 \<lparr>gares_Alerts = take n L, gares_NextPageToken = tok\<rparr>), w)"
    using run assms(1) by (simp add: rest_handler_def in_svc_def GetDeviceAlerts_echo_def)
  then show "\<exists>tok. rest_handler B (svc l) OpGetDeviceAlerts q w =
      (Ok (JSONReply 200 \<lparr>gares_Alerts = take n L, gares_NextPageToken = tok\<rparr>), w) \<and>
    (if length L \<le> n then tok = []
     else tok \<noteq> [] \<and> (\<exists>nt. request_token (req\<lparr>gar_PageToken := tok\<rparr>) = Some nt \<and>
       issued (st_store (wd_svc w)) (gar_DeviceID req) (request_timeframe req) nt \<and>
       listing (st_store (wd_svc w)) (gar_DeviceID req) (request_timeframe req) nt = drop n L))"
    using tok by blast
qed

lemma next_page_request:
  assumes "validateGetDeviceAlertsReq req = None"
  shows "gar_DeviceID (req\<lparr>gar_PageToken := tok\<rparr>) = gar_DeviceID req"
    "request_timeframe (req\<lparr>gar_PageToken := tok\<rparr>) = request_timeframe req"
    "validateGetDeviceAlertsReq (req\<lparr>gar_PageToken := tok\<rparr>) = None"
  using assms by (simp_all add: request_timeframe_def validateAlerts_None_iff)

text \<open>Pages read over REST.\<close>

lemma rest_pages_listing:
  assumes t: "transparent ord stack" and turn: "turns_pages B turn"
  shows "bind_Alerts B q = Inr req \<Longrightarrow> db_inv (st_store (wd_svc w)) \<Longrightarrow> healthy k (st_store (wd_svc w)) \<Longrightarrow>
    validateGetDeviceAlertsReq req = None \<Longrightarrow>
    \<forall>a \<in> set (alerts_of (st_store (wd_svc w)) (gar_DeviceID req)). json_time_ok (al_Time a) \<Longrightarrow>
    request_token req = Some tk \<Longrightarrow> issued (st_store (wd_svc w)) (gar_DeviceID req) (request_timeframe req) tk \<Longrightarrow>
    length (listing (st_store (wd_svc w)) (gar_DeviceID req) (request_timeframe req) tk) < fuel \<Longrightarrow>
    \<exists>w'. rest_pages fuel (stack (rest_handler B (svc l) OpGetDeviceAlerts)) turn q w =
      (Shown (listing (st_store (wd_svc w)) (gar_DeviceID req) (request_timeframe req) tk), w') \<and>
      st_store (wd_svc w') = st_store (wd_svc w)"
proof (induction fuel arbitrary: q req tk w)
  case (Suc fuel)
  let ?n = "nat (page_size (gar_PageSize req))"
  let ?L = "listing (st_store (wd_svc w)) (gar_DeviceID req) (request_timeframe req) tk"
  from alerts_page_handler [where l = l, OF Suc.prems(1-7) refl refl] obtain tok where n: "0 < ?n"
    and h: "rest_handler B (svc l) OpGetDeviceAlerts q w =
      (Ok (JSONReply 200 \<lparr>gares_Alerts = take ?n ?L, gares_NextPageToken = tok\<rparr>), w)"
    and tok: "if length ?L \<le> ?n then tok = []
     else tok \<noteq> [] \<and> (\<exists>nt. request_token (req\<lparr>gar_PageToken := tok\<rparr>) = Some nt \<and>
       issued (st_store (wd_svc w)) (gar_DeviceID req) (request_timeframe req) nt \<and>
       listing (st_store (wd_svc w)) (gar_DeviceID req) (request_timeframe req) nt = drop ?n ?L)" by blast
  from transparentD(1) [where h = "rest_handler B (svc l) OpGetDeviceAlerts", OF t h] obtain f where
    serve: "stack (rest_handler B (svc l) OpGetDeviceAlerts) q w =
      (Ok (JSONReply 200 \<lparr>gares_Alerts = take ?n ?L, gares_NextPageToken = tok\<rparr>), log_to f w)" by blast
  show ?case
  proof (cases "length ?L \<le> ?n")
    case True
    then show ?thesis using serve tok by simp
  next
    case False
    let ?req = "req\<lparr>gar_PageToken := tok\<rparr>"
    note same = next_page_request [OF Suc.prems(4), of tok]
    from tok False obtain nt where nt: "request_token ?req = Some nt" "tok \<noteq> []"
      "issued (st_store (wd_svc w)) (gar_DeviceID req) (request_timeframe req) nt"
      "listing (st_store (wd_svc w)) (gar_DeviceID req) (request_timeframe req) nt = drop ?n ?L" by auto
    have "length (drop ?n ?L) < fuel" using Suc.prems(8) False n by simp
    then obtain w' where "rest_pages fuel (stack (rest_handler B (svc l) OpGetDeviceAlerts)) turn (turn q tok) (log_to f w) =
        (Shown (drop ?n ?L), w')" "st_store (wd_svc w') = st_store (wd_svc w)"
      using Suc.IH [of "turn q tok" ?req "log_to f w" nt] turns_pagesD [OF turn Suc.prems(1)] Suc.prems(2,3,5) nt same by auto
    then show ?thesis using serve nt(2) by simp
  qed
qed simp

text \<open>The reply to a call that creates something, read back.\<close>

lemma read_created:
  assumes t: "transparent ord stack" and h: "h q w = created (r, w1)" and r: "\<not> is_panic r"
  shows "\<exists>f. stack h q w = (fst (stack h q w), log_to f w1) \<and>
    read_reply (fst (stack h q w)) = rest_answer_of ord (answered (\<lambda>_. Accepted) r)"
proof (cases r)
  case (Ok x)
  then have "h q w = (Ok (NoContent 201), w1)" using h by (simp add: created_def)
  from transparentD(1) [where h = h, OF t this] show ?thesis using Ok by auto
next
  case (Err e)
  then have "h q w = (Err e, w1)" using h by (simp add: created_def)
  from transparentD(2) [where h = h, OF t this] show ?thesis using Err by auto
qed (use r in simp)

lemma created_handlers:
  "bind_Configure B q = Inr creq \<Longrightarrow> ConfigureDevice S creq (wd_svc w) = (r, s) \<Longrightarrow>
   rest_handler B S OpConfigureDevice q w = created (r, w\<lparr>wd_svc := s\<rparr>)"
  "bind_Record B q = Inr rreq \<Longrightarrow> RecordMetric S rreq (wd_svc w) = (r, s) \<Longrightarrow>
   rest_handler B S OpRecordMetric q w = created (r, w\<lparr>wd_svc := s\<rparr>)"
  by (cases r; simp add: rest_handler_def in_svc_def ConfigureDevice_echo_def RecordMetric_echo_def created_def)+

lemma unbound_handler:
  "bound B oq = Inl e \<Longrightarrow> rest_handler B S (fst oq) (snd oq) w = (Err e, w)"
  by (auto simp: bound_def rest_handler_def in_svc_def ConfigureDevice_echo_def RecordMetric_echo_def
      GetDeviceAlerts_echo_def split: operation.splits sum.splits)

lemma ready_less:
  assumes "strict.ready fuel (Suc k) w" and "st_store w' = st_store w"
  shows "strict.ready fuel k w'"
  using assms strict.healthy_less3 unfolding strict.ready_def by fastforce

lemma respond_created:
  "respond fuel S (AskConfigure creq) w = (a, w') \<Longrightarrow>
   \<exists>r. ConfigureDevice S creq w = (r, w') \<and> a = answered (\<lambda>_. Accepted) r"
  "respond fuel S (AskRecord rreq) w = (a, w') \<Longrightarrow>
   \<exists>r. RecordMetric S rreq w = (r, w') \<and> a = answered (\<lambda>_. Accepted) r"
  by (auto simp: respond_def split: prod.splits)

lemma created_answer:
  assumes op: "fst oq \<noteq> OpGetDeviceAlerts" and b: "bound B oq = Inr q" and ask: "respond fuel S q (wd_svc w) = (a, s)"
  shows "\<exists>r :: (go_error, unit) outcome. rest_handler B S (fst oq) (snd oq) w = created (r, w\<lparr>wd_svc := s\<rparr>) \<and> a = answered (\<lambda>_. Accepted) r"
proof (cases "fst oq")
  case OpConfigureDevice
  then obtain creq where bind: "bind_Configure B (snd oq) = Inr creq" and q: "q = AskConfigure creq"
    using b by (cases "bind_Configure B (snd oq)") (auto simp: bound_def)
  obtain r where r: "ConfigureDevice S creq (wd_svc w) = (r, s)" "a = answered (\<lambda>_. Accepted) r"
    using respond_created(1) [OF ask [unfolded q]] by blast
  then show ?thesis using created_handlers(1) [OF bind r(1)] unfolding OpConfigureDevice by blast
next
  case OpRecordMetric
  then obtain rreq where bind: "bind_Record B (snd oq) = Inr rreq" and q: "q = AskRecord rreq"
    using b by (cases "bind_Record B (snd oq)") (auto simp: bound_def)
  obtain r where r: "RecordMetric S rreq (wd_svc w) = (r, s)" "a = answered (\<lambda>_. Accepted) r"
    using respond_created(2) [OF ask [unfolded q]] by blast
  then show ?thesis using created_handlers(2) [OF bind r(1)] unfolding OpRecordMetric by blast
qed (use op in simp)

lemma specified_total: "fst (specified q ct) \<noteq> Crashed p" "fst (specified q ct) \<noteq> GaveUp"
  by (auto simp: specified_def abstract_step_def split: request.split option.split)

text \<open>A request that creates something.\<close>

lemma rest_created:
  assumes t: "transparent ord stack" and ready: "strict.ready fuel (Suc k) (wd_svc w)"
    and op: "fst oq \<noteq> OpGetDeviceAlerts" and b: "bound B oq = Inr q" and q: "orderly q"
  shows "\<exists>w'. rest_ask fuel stack B turn (svc l) oq w = (fst (rest_specified ord B oq (db_view (st_store (wd_svc w)))), w') \<and>
    db_view (st_store (wd_svc w')) = snd (rest_specified ord B oq (db_view (st_store (wd_svc w)))) \<and>
    strict.ready fuel k (wd_svc w')"
proof -
  let ?ct = "db_view (st_store (wd_svc w))" and ?h = "rest_handler B (svc l) (fst oq)"
  from strict.respond_refines [OF svc_repo ready q, of l, folded specified_def] obtain s where
    s: "respond fuel (svc l) q (wd_svc w) = (fst (specified q ?ct), s)" "db_view (st_store s) = snd (specified q ?ct)"
      "strict.ready fuel k s" by blast
  from created_answer [OF op b s(1)] obtain r :: "(go_error, unit) outcome" where h: "?h (snd oq) w = created (r, w\<lparr>wd_svc := s\<rparr>)"
    and a: "fst (specified q ?ct) = answered (\<lambda>_. Accepted) r" by blast
  have "\<not> is_panic r" using a specified_total(1) [of q ?ct] by (cases r) auto
  from read_created [where h = ?h, OF t h this] obtain f where
    f: "stack ?h (snd oq) w = (fst (stack ?h (snd oq) w), log_to f (w\<lparr>wd_svc := s\<rparr>))"
      "read_reply (fst (stack ?h (snd oq) w)) = rest_answer_of ord (answered (\<lambda>_. Accepted) r)" by blast
  have "rest_ask fuel stack B turn (svc l) oq w =
      (rest_answer_of ord (answered (\<lambda>_. Accepted) r), log_to f (w\<lparr>wd_svc := s\<rparr>))"
    unfolding rest_ask_def Let_def using op f by (cases "stack ?h (snd oq) w") auto
  moreover have "strict.ready fuel k (wd_svc (log_to f (w\<lparr>wd_svc := s\<rparr>)))"
    using s(3) by (simp add: strict.ready_def)
  ultimately show ?thesis using s(2) a b
    by (auto simp: rest_specified_def split: prod.split)
qed

text \<open>A listing.\<close>

lemma rest_listed:
  assumes t: "transparent ord stack" and turn: "turns_pages B turn"
    and ready: "strict.ready fuel (Suc k) (wd_svc w)" and op: "fst oq = OpGetDeviceAlerts"
    and b: "bound B oq = Inr (AskAlerts req)" and q: "orderly (AskAlerts req)"
  shows "\<exists>w'. rest_ask fuel stack B turn (svc l) oq w = (fst (rest_specified ord B oq (db_view (st_store (wd_svc w)))), w') \<and>
    st_store (wd_svc w') = st_store (wd_svc w)"
proof -
  let ?db = "st_store (wd_svc w)" and ?h = "rest_handler B (svc l) OpGetDeviceAlerts"
  have inv: "db_inv ?db" and h: "healthy (3 * Suc k) ?db" using ready by (simp_all add: strict.ready_def)
  obtain n where n: "listable n (db_view ?db)" "n \<le> fuel" using ready by (auto simp: strict.ready_def)
  have bind: "bind_Alerts B (snd oq) = Inr req" using b op by (cases "bind_Alerts B (snd oq)") (auto simp: bound_def)
  have tok: "gar_PageToken req = []" using q by (simp add: orderly_def)
  show ?thesis
  proof (cases "validateGetDeviceAlertsReq req")
    case None
    let ?as = "alerts_of ?db (gar_DeviceID req)"
    have as: "length ?as < fuel" "\<forall>a \<in> set ?as. json_time_ok (al_Time a)"
      using n by (auto simp: listable_def intro: order.strict_trans2)
    have "length (newest_first al_Time (request_timeframe req) ?as) < fuel"
      using as(1) by (rule order.strict_trans1 [OF newest_first_length])
    then have "\<exists>w'. rest_pages fuel (stack ?h) turn (snd oq) w =
        (Shown (newest_first al_Time (request_timeframe req) ?as), w') \<and> st_store (wd_svc w') = ?db"
      using rest_pages_listing [where tk = None and fuel = fuel and l = l, OF t turn bind inv h None as(2)] tok store.issued_start
      by (simp add: request_token_def store.listing_law [OF inv])
    then show ?thesis using op b None
      by (auto simp: rest_ask_def Let_def rest_specified_def specified_def abstract_step_def)
  next
    case (Some e)
    have "?h (snd oq) w = (Err e, w)"
      using bind Some by (simp add: rest_handler_def in_svc_def GetDeviceAlerts_echo_def GetDeviceAlerts_refused)
    from transparentD(2) [where h = ?h, OF t this] obtain f where
      "stack ?h (snd oq) w = (Ok (ErrorReply (re_Code (rest_error_of ord e)) \<lparr>rer_Error = rest_error_of ord e\<rparr>), log_to f w)"
      by blast
    moreover obtain m where "fuel = Suc m" using n by (cases fuel) (auto simp: listable_def)
    ultimately show ?thesis using op b Some
      by (simp add: rest_ask_def Let_def rest_specified_def specified_def abstract_step_def)
  qed
qed

text \<open>A request that cannot be bound.\<close>

lemma rest_unbound:
  assumes t: "transparent ord stack" and b: "bound B oq = Inl e" and fuel: "0 < fuel"
  shows "\<exists>w'. rest_ask fuel stack B turn S oq w = (rest_answer_of ord (Refused e), w') \<and>
    st_store (wd_svc w') = st_store (wd_svc w)"
proof -
  let ?h = "rest_handler B S (fst oq)"
  from transparentD(2) [where h = ?h, OF t unbound_handler [OF b]] obtain f where
    "stack ?h (snd oq) w = (Ok (ErrorReply (re_Code (rest_error_of ord e)) \<lparr>rer_Error = rest_error_of ord e\<rparr>), log_to f w)"
    by blast
  then show ?thesis using fuel by (cases fuel; cases "fst oq = OpGetDeviceAlerts") (auto simp: rest_ask_def Let_def)
qed

text \<open>Requests a REST client may send: what they are bound to is orderly.\<close>

definition rest_orderly :: "'q binders \<Rightarrow> operation \<times> 'q \<Rightarrow> bool" where
  "rest_orderly B oq = (case bound B oq of Inl e \<Rightarrow> True | Inr q \<Rightarrow> orderly q)"

lemma rest_ask_refines:
  assumes t: "transparent ord stack" and turn: "turns_pages B turn"
    and ready: "strict.ready fuel (Suc k) (wd_svc w)" and q: "rest_orderly B oq"
  shows "\<exists>w'. rest_ask fuel stack B turn (svc l) oq w = (fst (rest_specified ord B oq (db_view (st_store (wd_svc w)))), w') \<and>
    db_view (st_store (wd_svc w')) = snd (rest_specified ord B oq (db_view (st_store (wd_svc w)))) \<and>
    strict.ready fuel k (wd_svc w')"
proof (cases "bound B oq")
  case (Inl e)
  have "0 < fuel" using ready by (auto simp: strict.ready_def)
  from rest_unbound [OF t Inl this, of turn "svc l" w] show ?thesis
    using ready_less [OF ready] by (auto simp: rest_specified_def Inl)
next
  case (Inr r)
  then have r: "orderly r" using q by (simp add: rest_orderly_def)
  show ?thesis
  proof (cases "fst oq = OpGetDeviceAlerts")
    case True
    then obtain req where req: "r = AskAlerts req" using Inr by (cases "bind_Alerts B (snd oq)") (auto simp: bound_def)
    have "snd (rest_specified ord B oq ct) = ct" for ct
      using Inr by (simp add: rest_specified_def specified_def abstract_step_def req split: option.split)
    then show ?thesis
      using rest_listed [where l = l, OF t turn ready True Inr [unfolded req] r [unfolded req]] ready_less [OF ready] by fastforce
  next
    case False
    from rest_created [OF t ready False Inr r] show ?thesis .
  qed
qed

lemma rest_history_ready:
  assumes t: "transparent ord stack" and turn: "turns_pages B turn"
  shows "strict.ready fuel (length qs) (wd_svc w) \<Longrightarrow> list_all (rest_orderly B) qs \<Longrightarrow>
    \<exists>w'. history (rest_ask fuel stack B turn (svc l)) qs w =
        (fst (history (rest_specified ord B) qs (db_view (st_store (wd_svc w)))), w') \<and>
      db_view (st_store (wd_svc w')) = snd (history (rest_specified ord B) qs (db_view (st_store (wd_svc w)))) \<and>
      db_inv (st_store (wd_svc w'))"
proof (induction qs arbitrary: w)
  case Nil
  then show ?case by (simp add: strict.ready_def)
next
  case (Cons q qs)
  obtain w1 where w1: "rest_ask fuel stack B turn (svc l) q w = (fst (rest_specified ord B q (db_view (st_store (wd_svc w)))), w1)"
    "db_view (st_store (wd_svc w1)) = snd (rest_specified ord B q (db_view (st_store (wd_svc w))))"
    "strict.ready fuel (length qs) (wd_svc w1)"
    using rest_ask_refines [where l = l and w = w and oq = q and k = "length qs", OF t turn] Cons.prems by auto
  from Cons.IH [OF w1(3)] Cons.prems(2) show ?case using w1(1,2) by (auto split: prod.split)
qed

text \<open>C5. A REST client that sends one request after the other cannot tell the program on a healthy database from
  the abstract service, through the middlewares, the handlers, the service, the pages and the rows: each
  request that is bound and valid is answered 201 or with exactly the alerts the contents call for, each
  other one with the status and body of its error, and the contents are what the abstract service
  makes of them.\<close>

theorem rest_history_refines:
  assumes "recovers Recover" and "logs_requests RequestLogger" and "app_DeviceRateLimit cfg = None"
    and "db_inv (st_store (wd_svc w))" and "healthy (3 * length qs) (st_store (wd_svc w))"
    and "listable n (db_view (st_store (wd_svc w)))" and "n + 2 * length qs \<le> fuel"
    and "list_all (rest_orderly B) qs"
    and "turns_pages B turn"
  shows "\<exists>w'. history (rest_ask fuel
        (rest_stack Recover (run_middleware ord RequestLogger NewLimiter LWait meta_of Param cfg)) B turn (svc l)) qs w =
      (fst (history (rest_specified ord B) qs (db_view (st_store (wd_svc w)))), w') \<and>
    db_view (st_store (wd_svc w')) = snd (history (rest_specified ord B) qs (db_view (st_store (wd_svc w)))) \<and>
    db_inv (st_store (wd_svc w'))"
proof (rule rest_history_ready [OF transparent_stack [OF assms(1-3)] assms(9) _ assms(8)])
  show "strict.ready fuel (length qs) (wd_svc w)"
    using assms(4-7) by (auto simp: strict.ready_def)
qed

text \<open>A client whose requests carry the typed request itself.\<close>

definition demo_binders :: "request binders" where
  "demo_binders = \<lparr>bind_Configure = \<lambda>q. case q of AskConfigure r \<Rightarrow> Inr r | _ \<Rightarrow> Inl (ErrEcho 400 None),
     bind_Record = \<lambda>q. case q of AskRecord r \<Rightarrow> Inr r | _ \<Rightarrow> Inl (ErrEcho 400 None),
     bind_Alerts = \<lambda>q. case q of AskAlerts r \<Rightarrow> Inr r | _ \<Rightarrow> Inl (ErrEcho 400 None)\<rparr>"

definition demo_turn :: "request \<Rightarrow> string \<Rightarrow> request" where
  "demo_turn q tok = (case q of AskAlerts r \<Rightarrow> AskAlerts (r\<lparr>gar_PageToken := tok\<rparr>) | _ \<Rightarrow> q)"

lemma demo_turns: "turns_pages demo_binders demo_turn"
  by (auto simp: turns_pages_def demo_binders_def demo_turn_def split: request.splits)

definition demo_rest :: "(operation \<times> request) list" where
  "demo_rest = (OpRecordMetric, demo_requests ! 0) #
     zip [OpConfigureDevice, OpRecordMetric, OpGetDeviceAlerts, OpConfigureDevice] demo_requests"

lemma demo_rest_answers:
  "fst (history (rest_specified (\<lambda>fv. fv) demo_binders) demo_rest (db_view empty_db)) =
    [Problem 400 \<lparr>re_Code = 400, re_Message = ''Bad Request'', re_Details = []\<rparr>, Created, Created,
     Shown (map kept_alert (rev (alerts_raised hot_metric (requested_config set_thresholds)))),
     Problem 400 \<lparr>re_Code = 400, re_Message = ''Bad Request'',
       re_Details = [''battery_threshold: Must be between 0 and 100'']\<rparr>]"
  by code_simp

lemma rest_history_refines_witness:
  "fst (history (rest_ask 11 (rest_stack demo_recover (run_middleware (\<lambda>fv. fv) demo_request_logger (\<lambda>_ _. ())
      (\<lambda>_ l. (None, l)) (\<lambda>_. \<lparr>mt_now = 0, mt_ctx = (), mt_remote = ''1.2.3.4''\<rparr>) (\<lambda>q p. []) default_config))
      demo_binders demo_turn (svc (NewLogger []))) demo_rest
      \<lparr>wd_svc = \<lparr>st_store = empty_db, st_log = []\<rparr>, wd_rl = NewRateLimiter f_zero 1 0 0\<rparr>) =
    [Problem 400 \<lparr>re_Code = 400, re_Message = ''Bad Request'', re_Details = []\<rparr>, Created, Created,
     Shown (map kept_alert (rev (alerts_raised hot_metric (requested_config set_thresholds)))),
     Problem 400 \<lparr>re_Code = 400, re_Message = ''Bad Request'',
       re_Details = [''battery_threshold: Must be between 0 and 100'']\<rparr>]" (is "fst (history (rest_ask 11 ?stack _ _ _) _ ?w) = _")
proof -
  have none: "app_DeviceRateLimit default_config = None" by (simp add: default_config_def)
  have "db_inv (st_store (wd_svc ?w))" "healthy (3 * length demo_rest) (st_store (wd_svc ?w))"
    "listable 1 (db_view (st_store (wd_svc ?w)))" "1 + 2 * length demo_rest \<le> 11"
    by (simp_all add: healthy_def empty_db_def max_rowid_def demo_rest_def demo_requests_def listable_def alerts_of_def
        db_inv_def ids_ok_def)
  moreover have "list_all (rest_orderly demo_binders) demo_rest" by code_simp
  ultimately obtain w' where
    "history (rest_ask 11 ?stack demo_binders demo_turn (svc (NewLogger []))) demo_rest ?w =
      (fst (history (rest_specified (\<lambda>fv. fv) demo_binders) demo_rest (db_view (st_store (wd_svc ?w)))), w')"
    using rest_history_refines [where w = ?w and qs = demo_rest and B = demo_binders and turn = demo_turn and n = 1
        and fuel = 11 and ord = "\<lambda>fv. fv" and l = "NewLogger []" and NewLimiter = "\<lambda>_ _. ()" and LWait = "\<lambda>_ l. (None, l)"
        and meta_of = "\<lambda>_. \<lparr>mt_now = 0, mt_ctx = (), mt_remote = ''1.2.3.4''\<rparr>" and Param = "\<lambda>q p. []",
        OF demo_recovers demo_logs none] demo_turns by blast
  then show ?thesis by (simp add: demo_rest_answers)
qed

end
