(* ===== verification/ConnectHistory.thy ===== *)
theory ConnectHistory
  imports RestHistory EndToEnd
begin

text \<open>
  Whole histories over Connect: the requests of \<open>History\<close> as messages of a Connect client, through the
  interceptors and the handler of \<^verbatim>\<open>device/connect_handler.go\<close>. Interceptors see any request and any
  response, so the three procedures are one function of a call here.
\<close>

section \<open>A Connect client\<close>

datatype 't rpc_call =
    CallConfigure ConfigureDeviceRequestPb
  | CallRecord "'t RecordMetricRequestPb"
  | CallAlerts "'t GetDeviceAlertsRequestPb"

datatype 't rpc_reply = EmptyReply | AlertsReply "'t GetDeviceAlertsResponsePb"

definition rpc_any :: "'t rpc_call \<Rightarrow> 't any_request" where
  "rpc_any q = (case q of CallConfigure m \<Rightarrow> AnyConfigureDevice m | CallRecord m \<Rightarrow> AnyRecordMetric m
     | CallAlerts m \<Rightarrow> AnyGetDeviceAlerts m)"

text \<open>The method behind each procedure.\<close>

definition rpc_handler ::
  "('t \<Rightarrow> go_time) \<Rightarrow> (go_time \<Rightarrow> 't) \<Rightarrow> 's Service \<Rightarrow> 't rpc_call \<Rightarrow> (('s, 'l) world, 't rpc_reply) unary_func" where
  "rpc_handler AsTime ts_New S q = in_svc
     (case q of
        CallConfigure m \<Rightarrow> on_ok (ConfigureDevice_connect S m) (\<lambda>_ w. (Ok EmptyReply, w))
      | CallRecord m \<Rightarrow> on_ok (RecordMetric_connect AsTime S m) (\<lambda>_ w. (Ok EmptyReply, w))
      | CallAlerts m \<Rightarrow> on_ok (GetDeviceAlerts_connect AsTime ts_New S m) (\<lambda>r w. (Ok (AlertsReply r), w)))"

datatype 't rpc_answer = Replied | Failed go_error | Showed "'t AlertPb list" | Lost

text \<open>One call with what follows it: a listing goes on with the token of the reply.\<close>

fun rpc_ask ::
  "nat \<Rightarrow> ('t rpc_call \<Rightarrow> (('s, 'l) world, 't rpc_reply) unary_func) \<Rightarrow> 't rpc_call \<Rightarrow> ('s, 'l) world
   \<Rightarrow> 't rpc_answer \<times> ('s, 'l) world" where
  "rpc_ask 0 serve q w = (Lost, w)"
| "rpc_ask (Suc fuel) serve q w =
     (case serve q w of
        (Ok EmptyReply, w') \<Rightarrow> (Replied, w')
      | (Ok (AlertsReply r), w') \<Rightarrow>
          if pgr_NextPageToken r = [] then (Showed (pgr_Alerts r), w')
          else (case q of
              CallAlerts m \<Rightarrow>
                (case rpc_ask fuel serve (CallAlerts (m\<lparr>pga_PageToken := pgr_NextPageToken r\<rparr>)) w' of
                   (Showed as, w'') \<Rightarrow> (Showed (pgr_Alerts r @ as), w'')
                 | a \<Rightarrow> a)
            | _ \<Rightarrow> (Lost, w'))
      | (Err e, w') \<Rightarrow> (Failed e, w')
      | (Panic p, w') \<Rightarrow> (Lost, w'))"

section \<open>What it should be answered\<close>

text \<open>The request a message stands for, field by field. A missing time is the zero time, a missing timeframe is open.\<close>

definition rpc_request :: "('t \<Rightarrow> go_time) \<Rightarrow> 't rpc_call \<Rightarrow> request" where
  "rpc_request AsTime q = (case q of
     CallConfigure m \<Rightarrow> AskConfigure \<lparr>cdr_DeviceID = pcd_DeviceId m,
       cdr_TemperatureThreshold = pcd_TemperatureThreshold m, cdr_BatteryThreshold = pcd_BatteryThreshold m\<rparr>
   | CallRecord m \<Rightarrow> AskRecord \<lparr>rmr_DeviceID = prm_DeviceId m, rmr_Temperature = prm_Temperature m,
       rmr_Battery = prm_Battery m,
       rmr_Timestamp = (if prm_Timestamp m = None then zero_time else AsTime (the (prm_Timestamp m)))\<rparr>
   | CallAlerts m \<Rightarrow> AskAlerts \<lparr>gar_DeviceID = pga_DeviceId m,
       gar_TimeframeStart = map_option (t_UTC \<circ> AsTime) (Option.bind (pga_Timeframe m) ptf_Start),
       gar_TimeframeEnd = map_option (t_UTC \<circ> AsTime) (Option.bind (pga_Timeframe m) ptf_End),
       gar_PageSize = pga_PageSize m, gar_PageToken = pga_PageToken m\<rparr>)"

lemma rpc_request_handled:
  "rpc_request AsTime (CallRecord m) = AskRecord (record_request_of AsTime m)"
  "rpc_request AsTime (CallAlerts g) = AskAlerts (alerts_request_of AsTime g)"
  by (simp_all add: rpc_request_def record_request_of_def alerts_request_of_def o_def split: option.split)

fun rpc_answer_of ::
  "(go_time \<Rightarrow> 't) \<Rightarrow> (go_error \<Rightarrow> go_error) \<Rightarrow> answer \<Rightarrow> 't rpc_answer" where
  "rpc_answer_of ts_New classify Accepted = Replied"
| "rpc_answer_of ts_New classify (Refused e) = Failed (classify e)"
| "rpc_answer_of ts_New classify (Listed as) = Showed (map (Alert_Proto ts_New) as)"
| "rpc_answer_of ts_New classify _ = Lost"

definition rpc_specified ::
  "('t \<Rightarrow> go_time) \<Rightarrow> (go_time \<Rightarrow> 't) \<Rightarrow> (go_error \<Rightarrow> go_error) \<Rightarrow> 't rpc_call \<Rightarrow> contents \<Rightarrow> 't rpc_answer \<times> contents" where
  "rpc_specified AsTime ts_New classify q ct =
     (case specified (rpc_request AsTime q) ct of (a, ct') \<Rightarrow> (rpc_answer_of ts_New classify a, ct'))"

section \<open>Refinement\<close>

text \<open>A stack that passes replies on and classifies errors, and leaves the store as the method left it.\<close>

definition classifying :: "(go_error \<Rightarrow> go_error) \<Rightarrow> (('q \<Rightarrow> (('s, 'l) world, 'b) unary_func) \<Rightarrow> 'q \<Rightarrow> (('s, 'l) world, 'b) unary_func) \<Rightarrow> bool" where
  "classifying classify stack \<longleftrightarrow> (\<forall>h q w r w1. h q w = (r, w1) \<and> \<not> is_panic r \<longrightarrow>
     (\<exists>w'. stack h q w = ((case r of Err e \<Rightarrow> Err (classify e) | _ \<Rightarrow> r), w') \<and> st_store (wd_svc w') = st_store (wd_svc w1)))"

lemma classifying_call:
  assumes "recovers_rpc WithRecover" and "app_DeviceRateLimit cfg = None" and h: "h q w = (r, w1)" and r: "\<not> is_panic r"
  shows "\<exists>w'. connect_stack WithRecover logger (run_interceptors ord new_detail Procedure start duration code_text NewLimiter
      LWait meta_of Any cfg) h q w = ((case r of Err e \<Rightarrow> Err (connect_error_of ord new_detail e) | _ \<Rightarrow> r), w') \<and>
    st_store (wd_svc w') = st_store (wd_svc w1)" (is "\<exists>w'. ?stack h q w = _ w' \<and> _ w'")
proof -
  obtain res w' where run: "?stack h q w = (res, w')" by fastforce
  from connect_answer [where f = h, OF assms run] r show ?thesis by (cases r) (auto simp: run)
qed

lemma classifying_stack:
  assumes "recovers_rpc WithRecover" and "app_DeviceRateLimit cfg = None"
  shows "classifying (connect_error_of ord new_detail) (connect_stack WithRecover logger
    (run_interceptors ord new_detail Procedure start duration code_text NewLimiter LWait meta_of Any cfg))"
  unfolding classifying_def using classifying_call [OF assms] by blast

lemma classifyingD:
  "classifying classify stack \<Longrightarrow> h q w = (r, w1) \<Longrightarrow> \<not> is_panic r \<Longrightarrow>
   \<exists>w'. stack h q w = ((case r of Err e \<Rightarrow> Err (classify e) | _ \<Rightarrow> r), w') \<and> st_store (wd_svc w') = st_store (wd_svc w1)"
  by (simp add: classifying_def)

lemma alerts_request_token [simp]:
  "alerts_request_of AsTime (m\<lparr>pga_PageToken := tok\<rparr>) = (alerts_request_of AsTime m)\<lparr>gar_PageToken := tok\<rparr>"
  by (simp add: alerts_request_of_def)

lemma rpc_pages_listing:
  assumes t: "classifying classify stack"
  shows "alerts_request_of AsTime m = req \<Longrightarrow> db_inv (st_store (wd_svc w)) \<Longrightarrow> healthy k (st_store (wd_svc w)) \<Longrightarrow>
    validateGetDeviceAlertsReq req = None \<Longrightarrow>
    \<forall>a \<in> set (alerts_of (st_store (wd_svc w)) (gar_DeviceID req)). json_time_ok (al_Time a) \<Longrightarrow>
    request_token req = Some tk \<Longrightarrow> issued (st_store (wd_svc w)) (gar_DeviceID req) (request_timeframe req) tk \<Longrightarrow>
    length (listing (st_store (wd_svc w)) (gar_DeviceID req) (request_timeframe req) tk) < fuel \<Longrightarrow>
    \<exists>w'. rpc_ask fuel (stack (rpc_handler AsTime ts_New (svc l))) (CallAlerts m) w =
      (Showed (map (Alert_Proto ts_New) (listing (st_store (wd_svc w)) (gar_DeviceID req) (request_timeframe req) tk)), w') \<and>
      st_store (wd_svc w') = st_store (wd_svc w)"
proof (induction fuel arbitrary: m req tk w)
  case (Suc fuel)
  let ?n = "page_size (gar_PageSize req)" and ?h = "rpc_handler AsTime ts_New (svc l)"
  let ?L = "listing (st_store (wd_svc w)) (gar_DeviceID req) (request_timeframe req) tk"
  have n: "0 < ?n" using Suc.prems(4) page_size_bounds by (simp add: validateAlerts_None_iff)
  have times': "\<forall>a \<in> set (ct_alerts (db_view (st_store (wd_svc w))) (gar_DeviceID req)). json_time_ok (al_Time a)"
    using Suc.prems(5) by simp
  from store.alerts_page [OF Suc.prems(2,3) svc_repo Suc.prems(4) times' Suc.prems(6,7) refl refl] obtain tok where
    run: "GetDeviceAlerts (svc l) req (wd_svc w) = (Ok \<lparr>gares_Alerts = take (nat ?n) ?L, gares_NextPageToken = tok\<rparr>, wd_svc w)"
    and tok: "if int (length ?L) \<le> ?n then tok = []
     else tok \<noteq> [] \<and> (\<exists>nt. request_token (req\<lparr>gar_PageToken := tok\<rparr>) = Some nt \<and>
       issued (st_store (wd_svc w)) (gar_DeviceID req) (request_timeframe req) nt \<and>
       listing (st_store (wd_svc w)) (gar_DeviceID req) (request_timeframe req) nt = drop (nat ?n) ?L)"
    by blast
  let ?reply = "\<lparr>pgr_Alerts = map (Alert_Proto ts_New) (take (nat ?n) ?L), pgr_NextPageToken = tok\<rparr>"
  have "?h (CallAlerts m) w = (Ok (AlertsReply ?reply), w)"
    using run Suc.prems(1) by (simp add: rpc_handler_def in_svc_def GetDeviceAlerts_connect_def)
  from classifyingD [where h = ?h, OF t this] obtain w1 where
    serve: "stack ?h (CallAlerts m) w = (Ok (AlertsReply ?reply), w1)" "st_store (wd_svc w1) = st_store (wd_svc w)" by auto
  show ?case
  proof (cases "int (length ?L) \<le> ?n")
    case True
    then show ?thesis using serve tok by simp
  next
    case False
    let ?req = "req\<lparr>gar_PageToken := tok\<rparr>"
    have same: "gar_DeviceID ?req = gar_DeviceID req" "request_timeframe ?req = request_timeframe req"
      "validateGetDeviceAlertsReq ?req = None"
      using Suc.prems(4) by (simp_all add: request_timeframe_def validateAlerts_None_iff)
    from tok False obtain nt where nt: "request_token ?req = Some nt" "tok \<noteq> []"
      "issued (st_store (wd_svc w)) (gar_DeviceID req) (request_timeframe req) nt"
      "listing (st_store (wd_svc w)) (gar_DeviceID req) (request_timeframe req) nt = drop (nat ?n) ?L" by auto
    have "length (drop (nat ?n) ?L) < fuel" using Suc.prems(8) False n by simp
    then obtain w' where "rpc_ask fuel (stack ?h) (CallAlerts (m\<lparr>pga_PageToken := tok\<rparr>)) w1 =
        (Showed (map (Alert_Proto ts_New) (drop (nat ?n) ?L)), w')" "st_store (wd_svc w') = st_store (wd_svc w)"
      using Suc.IH [of "m\<lparr>pga_PageToken := tok\<rparr>" ?req w1 nt] Suc.prems(1,2,3,5) nt same serve(2) by auto
    then show ?thesis using serve(1) nt(2) by (simp flip: map_append)
  qed
qed simp

lemma rpc_created_answer:
  assumes q: "\<And>m. q \<noteq> CallAlerts m" and respond: "respond fuel S (rpc_request AsTime q) (wd_svc w) = (a, s)"
  shows "\<exists>r :: (go_error, unit) outcome. a = answered (\<lambda>_. Accepted) r \<and> rpc_handler AsTime ts_New S q w =
    ((case r of Ok _ \<Rightarrow> Ok EmptyReply | Err e \<Rightarrow> Err e | Panic p \<Rightarrow> Panic p), w\<lparr>wd_svc := s\<rparr>)"
proof (cases q)
  case (CallConfigure m)
  from respond_created(1) [OF respond [unfolded CallConfigure rpc_request_def rpc_call.case]] obtain r where
    "ConfigureDevice_connect S m (wd_svc w) = (r, s)" "a = answered (\<lambda>_. Accepted) r"
    by (auto simp: ConfigureDevice_connect_def)
  then show ?thesis by (intro exI [of _ r]) (cases r; simp add: rpc_handler_def in_svc_def CallConfigure)
next
  case (CallRecord m)
  from respond_created(2) [OF respond [unfolded CallRecord rpc_request_handled]] obtain r where
    "RecordMetric_connect AsTime S m (wd_svc w) = (r, s)" "a = answered (\<lambda>_. Accepted) r"
    by (auto simp: RecordMetric_connect_def)
  then show ?thesis by (intro exI [of _ r]) (cases r; simp add: rpc_handler_def in_svc_def CallRecord)
qed (use q in simp)

text \<open>A call that creates something.\<close>

lemma rpc_created:
  assumes t: "classifying classify stack" and ready: "strict.ready fuel (Suc k) (wd_svc w)"
    and q: "\<And>m. q \<noteq> CallAlerts m" and ord: "orderly (rpc_request AsTime q)"
  shows "\<exists>w'. rpc_ask fuel (stack (rpc_handler AsTime ts_New (svc l))) q w =
      (fst (rpc_specified AsTime ts_New classify q (db_view (st_store (wd_svc w)))), w') \<and>
    db_view (st_store (wd_svc w')) = snd (rpc_specified AsTime ts_New classify q (db_view (st_store (wd_svc w)))) \<and>
    strict.ready fuel k (wd_svc w')"
proof -
  let ?ct = "db_view (st_store (wd_svc w))" and ?h = "rpc_handler AsTime ts_New (svc l)"
  let ?a = "fst (specified (rpc_request AsTime q) ?ct)"
  from strict.respond_refines [OF svc_repo ready ord, of l, folded specified_def] obtain s where
    s: "respond fuel (svc l) (rpc_request AsTime q) (wd_svc w) = (?a, s)"
      "db_view (st_store s) = snd (specified (rpc_request AsTime q) ?ct)" "strict.ready fuel k s" by blast
  from rpc_created_answer [OF q s(1)] obtain r :: "(go_error, unit) outcome" where a: "?a = answered (\<lambda>_. Accepted) r"
    and h: "?h q w = ((case r of Ok _ \<Rightarrow> Ok EmptyReply | Err e \<Rightarrow> Err e | Panic p \<Rightarrow> Panic p), w\<lparr>wd_svc := s\<rparr>)" by blast
  have r: "\<not> is_panic r" using a specified_total(1) [of "rpc_request AsTime q" ?ct] by (cases r) auto
  then have "\<not> is_panic (case r of Ok _ \<Rightarrow> Ok EmptyReply | Err e \<Rightarrow> Err e | Panic p \<Rightarrow> Panic p)" by (cases r) auto
  from classifyingD [where h = ?h, OF t h this] obtain w' where
    w': "stack ?h q w = ((case r of Ok _ \<Rightarrow> Ok EmptyReply | Err e \<Rightarrow> Err (classify e) | Panic p \<Rightarrow> Panic p), w')"
      "st_store (wd_svc w') = st_store s" by (cases r) auto
  obtain n where "fuel = Suc n" using ready by (cases fuel) (auto simp: strict.ready_def)
  then have "rpc_ask fuel (stack ?h) q w = (rpc_answer_of ts_New classify ?a, w')"
    unfolding a using w'(1) r by (cases r) simp_all
  moreover have "strict.ready fuel k (wd_svc w')" using s(3) w'(2) by (simp add: strict.ready_def)
  ultimately show ?thesis using s(2) w'(2) by (auto simp: rpc_specified_def split: prod.split)
qed

text \<open>A listing.\<close>

lemma rpc_listed:
  assumes t: "classifying classify stack" and ready: "strict.ready fuel (Suc k) (wd_svc w)"
    and ord: "orderly (rpc_request AsTime (CallAlerts m))"
  shows "\<exists>w'. rpc_ask fuel (stack (rpc_handler AsTime ts_New (svc l))) (CallAlerts m) w =
      (fst (rpc_specified AsTime ts_New classify (CallAlerts m) (db_view (st_store (wd_svc w)))), w') \<and>
    st_store (wd_svc w') = st_store (wd_svc w)"
proof -
  let ?db = "st_store (wd_svc w)" and ?h = "rpc_handler AsTime ts_New (svc l)" and ?req = "alerts_request_of AsTime m"
  have inv: "db_inv ?db" and h: "healthy (3 * Suc k) ?db" using ready by (simp_all add: strict.ready_def)
  obtain n where n: "listable n (db_view ?db)" "n \<le> fuel" using ready by (auto simp: strict.ready_def)
  have tok: "gar_PageToken ?req = []" using ord by (simp add: orderly_def rpc_request_handled)
  show ?thesis
  proof (cases "validateGetDeviceAlertsReq ?req")
    case None
    let ?as = "alerts_of ?db (gar_DeviceID ?req)"
    have as: "length ?as < fuel" "\<forall>a \<in> set ?as. json_time_ok (al_Time a)"
      using n by (auto simp: listable_def intro: order.strict_trans2)
    have "length (newest_first al_Time (request_timeframe ?req) ?as) < fuel"
      using as(1) by (rule order.strict_trans1 [OF newest_first_length])
    then show ?thesis
      using rpc_pages_listing [where tk = None and fuel = fuel and l = l and ts_New = ts_New, OF t refl inv h None as(2)]
        tok store.issued_start None
      by (simp add: request_token_def store.listing_law [OF inv] rpc_specified_def specified_def abstract_step_def rpc_request_handled)
  next
    case (Some e)
    have "?h (CallAlerts m) w = (Err e, w)"
      using Some by (simp add: rpc_handler_def in_svc_def GetDeviceAlerts_connect_def GetDeviceAlerts_refused)
    from classifyingD [where h = ?h, OF t this] obtain w' where
      "stack ?h (CallAlerts m) w = (Err (classify e), w')" "st_store (wd_svc w') = ?db" by auto
    moreover obtain k where "fuel = Suc k" using n by (cases fuel) (auto simp: listable_def)
    ultimately show ?thesis using Some
      by (simp add: rpc_specified_def specified_def abstract_step_def rpc_request_handled)
  qed
qed

lemma rpc_ask_refines:
  assumes t: "classifying classify stack" and ready: "strict.ready fuel (Suc k) (wd_svc w)"
    and ord: "orderly (rpc_request AsTime q)"
  shows "\<exists>w'. rpc_ask fuel (stack (rpc_handler AsTime ts_New (svc l))) q w =
      (fst (rpc_specified AsTime ts_New classify q (db_view (st_store (wd_svc w)))), w') \<and>
    db_view (st_store (wd_svc w')) = snd (rpc_specified AsTime ts_New classify q (db_view (st_store (wd_svc w)))) \<and>
    strict.ready fuel k (wd_svc w')"
proof (cases "\<exists>m. q = CallAlerts m")
  case True
  then obtain m where q: "q = CallAlerts m" by blast
  have "snd (rpc_specified AsTime ts_New classify (CallAlerts m) ct) = ct" for ct
    by (simp add: rpc_specified_def specified_def abstract_step_def rpc_request_handled split: option.split)
  then show ?thesis
    using rpc_listed [where l = l and ts_New = ts_New, OF t ready ord [unfolded q]] ready_less [OF ready] unfolding q by fastforce
next
  case False
  then show ?thesis using rpc_created [OF t ready _ ord] by blast
qed

lemma rpc_history_ready:
  assumes t: "classifying classify stack"
  shows "strict.ready fuel (length qs) (wd_svc w) \<Longrightarrow> list_all (\<lambda>q. orderly (rpc_request AsTime q)) qs \<Longrightarrow>
    \<exists>w'. history (rpc_ask fuel (stack (rpc_handler AsTime ts_New (svc l)))) qs w =
        (fst (history (rpc_specified AsTime ts_New classify) qs (db_view (st_store (wd_svc w)))), w') \<and>
      db_view (st_store (wd_svc w')) = snd (history (rpc_specified AsTime ts_New classify) qs (db_view (st_store (wd_svc w)))) \<and>
      db_inv (st_store (wd_svc w'))"
proof (induction qs arbitrary: w)
  case Nil
  then show ?case by (simp add: strict.ready_def)
next
  case (Cons q qs)
  obtain w1 where w1: "rpc_ask fuel (stack (rpc_handler AsTime ts_New (svc l))) q w =
      (fst (rpc_specified AsTime ts_New classify q (db_view (st_store (wd_svc w)))), w1)"
    "db_view (st_store (wd_svc w1)) = snd (rpc_specified AsTime ts_New classify q (db_view (st_store (wd_svc w))))"
    "strict.ready fuel (length qs) (wd_svc w1)"
    using rpc_ask_refines [where l = l and w = w and q = q and k = "length qs" and ts_New = ts_New, OF t] Cons.prems by auto
  from Cons.IH [OF w1(3)] Cons.prems(2) show ?case using w1(1,2) by (auto split: prod.split)
qed

text \<open>C3. A Connect client that sends one call after the other cannot tell the program on a healthy database from
  the abstract service, through the interceptors, the handler, the service, the pages and the rows: each
  call is answered with an empty reply, with the messages of exactly the alerts the contents call
  for, or with the Connect error its failure is classified as, and the contents are what the abstract service makes of them.\<close>

theorem connect_history_refines:
  assumes "recovers_rpc WithRecover" and "app_DeviceRateLimit cfg = None"
    and "db_inv (st_store (wd_svc w))" and "healthy (3 * length qs) (st_store (wd_svc w))"
    and "listable n (db_view (st_store (wd_svc w)))" and "n + 2 * length qs \<le> fuel"
    and "list_all (\<lambda>q. orderly (rpc_request AsTime q)) qs"
  shows "\<exists>w'. history (rpc_ask fuel (connect_stack WithRecover logger (run_interceptors ord new_detail Procedure start duration
        code_text NewLimiter LWait meta_of rpc_any cfg) (rpc_handler AsTime ts_New (svc l)))) qs w =
      (fst (history (rpc_specified AsTime ts_New (connect_error_of ord new_detail)) qs (db_view (st_store (wd_svc w)))), w') \<and>
    db_view (st_store (wd_svc w')) =
      snd (history (rpc_specified AsTime ts_New (connect_error_of ord new_detail)) qs (db_view (st_store (wd_svc w)))) \<and>
    db_inv (st_store (wd_svc w'))"
proof (rule rpc_history_ready [OF classifying_stack [OF assms(1,2)] _ assms(7)])
  show "strict.ready fuel (length qs) (wd_svc w)"
    using assms(3-6) by (auto simp: strict.ready_def)
qed

text \<open>The requests of \<open>History\<close> as messages; a device is configured, sends a metric, is listed page by page, and
  is misconfigured.\<close>

definition demo_calls :: "go_time rpc_call list" where
  "demo_calls =
    [CallConfigure \<lparr>pcd_DeviceId = ''d1'', pcd_TemperatureThreshold = FFin False 20 0, pcd_BatteryThreshold = 15\<rparr>,
     CallRecord \<lparr>prm_DeviceId = ''d1'', prm_Timestamp = Some (rmr_Timestamp hot_metric), prm_Temperature = FFin False 31 0, prm_Battery = 5\<rparr>,
     CallAlerts \<lparr>pga_DeviceId = ''d1'', pga_Timeframe = None, pga_PageSize = 1, pga_PageToken = []\<rparr>,
     CallConfigure \<lparr>pcd_DeviceId = ''d1'', pcd_TemperatureThreshold = FFin False 20 0, pcd_BatteryThreshold = 101\<rparr>]"

lemma demo_calls_answers:
  "fst (history (rpc_specified (\<lambda>t. t) (\<lambda>t. t) (connect_error_of (\<lambda>fv. fv) (\<lambda>_. None))) demo_calls (db_view empty_db)) =
    [Replied, Replied, Showed (map (Alert_Proto (\<lambda>t. t)) (map kept_alert (rev (alerts_raised hot_metric (requested_config set_thresholds))))),
     Failed (ErrConnect CodeInvalidArgument ''bad request'' [])]"
  by code_simp

lemma demo_calls_orderly: "list_all (\<lambda>q. orderly (rpc_request (\<lambda>t. t) q)) demo_calls"
  by code_simp

lemma empty_world:
  "db_inv (st_store (wd_svc (demo_world empty_db)))" "healthy k (st_store (wd_svc (demo_world empty_db))) \<longleftrightarrow> int k \<le> max_rowid"
  "listable 1 (db_view (st_store (wd_svc (demo_world empty_db))))"
  by (simp add: demo_world_def) (simp_all add: demo_world_def healthy_def empty_db_def listable_def alerts_of_def)

lemma connect_history_refines_witness:
  "fst (history (rpc_ask 9 (connect_stack demo_rpc_recover (NewLogger []) (run_interceptors (\<lambda>fv. fv) (\<lambda>_. None) (\<lambda>q. [])
      (\<lambda>q. []) (\<lambda>q. []) (\<lambda>c. []) (\<lambda>_ _. ()) (\<lambda>_ l. (None, l)) (\<lambda>_. \<lparr>mt_now = 0, mt_ctx = (), mt_remote = ''1.2.3.4''\<rparr>)
      rpc_any default_config) (rpc_handler (\<lambda>t. t) (\<lambda>t. t) (svc (NewLogger []))))) demo_calls (demo_world empty_db)) =
    [Replied, Replied, Showed (map (Alert_Proto (\<lambda>t. t)) (map kept_alert (rev (alerts_raised hot_metric (requested_config set_thresholds))))),
     Failed (ErrConnect CodeInvalidArgument ''bad request'' [])]"
proof -
  have none: "app_DeviceRateLimit default_config = None" by (simp add: default_config_def)
  have "healthy (3 * length demo_calls) (st_store (wd_svc (demo_world empty_db)))" "1 + 2 * length demo_calls \<le> 9"
    by (simp_all add: empty_world demo_calls_def max_rowid_def)
  with connect_history_refines [where qs = demo_calls and n = 1 and fuel = 9 and w = "demo_world empty_db" and AsTime = "\<lambda>t. t"
      and ts_New = "\<lambda>t. t" and ord = "\<lambda>fv. fv" and new_detail = "\<lambda>_. None" and Procedure = "\<lambda>q. []" and start = "\<lambda>q. []"
      and duration = "\<lambda>q. []" and code_text = "\<lambda>c. []" and NewLimiter = "\<lambda>_ _. ()" and LWait = "\<lambda>_ l. (None, l)" and l = "NewLogger []"
      and meta_of = "\<lambda>_. \<lparr>mt_now = 0, mt_ctx = (), mt_remote = ''1.2.3.4''\<rparr>" and logger = "NewLogger []",
      OF demo_rpc_recovers none empty_world(1) _ empty_world(3) _ demo_calls_orderly]
  show ?thesis by (auto simp: demo_calls_answers demo_world_def)
qed

section \<open>The two front ends\<close>

text \<open>Histories of the same requests are specified alike: one list of abstract answers, rendered twice.\<close>

lemma histories_agree:
  assumes "map (bound B) qr = map (\<lambda>q. Inr (rpc_request AsTime q)) qc"
  defines "run \<equiv> \<lambda>ct. history specified (map (rpc_request AsTime) qc) ct"
  shows "history (rest_specified ord B) qr ct = (map (rest_answer_of ord) (fst (run ct)), snd (run ct)) \<and>
    history (rpc_specified AsTime ts_New classify) qc ct = (map (rpc_answer_of ts_New classify) (fst (run ct)), snd (run ct))"
  using assms(1) unfolding run_def
proof (induction qr arbitrary: qc ct)
  case (Cons q qr)
  then show ?case by (cases qc) (auto simp: rest_specified_def rpc_specified_def split: prod.splits)
qed simp

lemma history_total: "a \<in> set (fst (history specified qs ct)) \<Longrightarrow> a \<noteq> GaveUp \<and> a \<noteq> Crashed p"
proof (induction qs arbitrary: ct)
  case (Cons q qs)
  obtain b ct' where s: "specified q ct = (b, ct')" by fastforce
  then show ?case using Cons.IH [of ct'] Cons.prems specified_total [of q ct] by (auto split: prod.splits)
qed simp

text \<open>C4. It makes no difference over which front end a client works: the same requests, sent one after the other
  over REST to one server and over Connect to another whose healthy database has the same contents,
  get the same answers, each rendered by its front end, none of them a crash, and leave the
  same contents.\<close>

theorem front_ends_equivalent:
  assumes "recovers Recover" and "logs_requests RequestLogger" and "recovers_rpc WithRecover"
    and "app_DeviceRateLimit cfg = None" and "turns_pages B turn"
    and "map (bound B) qr = map (\<lambda>q. Inr (rpc_request AsTime q)) qc" and "list_all (\<lambda>q. orderly (rpc_request AsTime q)) qc"
    and "db_inv (st_store (wd_svc w))" and "healthy (3 * length qc) (st_store (wd_svc w))"
    and "db_inv (st_store (wd_svc v))" and "healthy (3 * length qc) (st_store (wd_svc v))"
    and "db_view (st_store (wd_svc v)) = db_view (st_store (wd_svc w))"
    and "listable n (db_view (st_store (wd_svc w)))" and "n + 2 * length qc \<le> fuel"
  shows "\<exists>as w' v'.
    history (rest_ask fuel (rest_stack Recover (run_middleware ord RequestLogger NewLimiter LWait meta_of Param cfg))
        B turn (svc l)) qr w = (map (rest_answer_of ord) as, w') \<and>
    history (rpc_ask fuel (connect_stack WithRecover logger (run_interceptors ord new_detail Procedure start duration
        code_text NewLimiter' LWait' meta_of' rpc_any cfg) (rpc_handler AsTime ts_New (svc l)))) qc v =
      (map (rpc_answer_of ts_New (connect_error_of ord new_detail)) as, v') \<and>
    GaveUp \<notin> set as \<and> (\<forall>p. Crashed p \<notin> set as) \<and> db_view (st_store (wd_svc w')) = db_view (st_store (wd_svc v'))"
proof -
  let ?as = "fst (history specified (map (rpc_request AsTime) qc) (db_view (st_store (wd_svc w))))"
  have len: "length qr = length qc" using assms(6) by (metis length_map)
  have "list_all (\<lambda>x. case x of Inl e \<Rightarrow> True | Inr q \<Rightarrow> orderly q) (map (bound B) qr)"
    using assms(7) unfolding assms(6) by (simp add: list_all_iff)
  then have ord: "list_all (rest_orderly B) qr" by (simp add: list_all_iff rest_orderly_def)
  have ready: "strict.ready fuel (length qr) (wd_svc w)" "strict.ready fuel (length qc) (wd_svc v)"
    using assms(8-14) len by (auto simp: strict.ready_def)
  note agree = histories_agree [OF assms(6), of _ "db_view (st_store (wd_svc w))"]
  from rest_history_ready [OF transparent_stack [OF assms(1,2,4)] assms(5) ready(1) ord, of ord NewLimiter LWait meta_of Param l]
  obtain w' where "history (rest_ask fuel (rest_stack Recover (run_middleware ord RequestLogger NewLimiter LWait meta_of Param cfg))
        B turn (svc l)) qr w = (map (rest_answer_of ord) ?as, w')"
    "db_view (st_store (wd_svc w')) = snd (history specified (map (rpc_request AsTime) qc) (db_view (st_store (wd_svc w))))"
    using agree by auto
  moreover from rpc_history_ready [where ts_New = ts_New and l = l, OF classifying_stack [OF assms(3,4)] ready(2) assms(7)]
  obtain v' where "history (rpc_ask fuel (connect_stack WithRecover logger (run_interceptors ord new_detail Procedure start duration
        code_text NewLimiter' LWait' meta_of' rpc_any cfg) (rpc_handler AsTime ts_New (svc l)))) qc v =
      (map (rpc_answer_of ts_New (connect_error_of ord new_detail)) ?as, v')"
    "db_view (st_store (wd_svc v')) = snd (history specified (map (rpc_request AsTime) qc) (db_view (st_store (wd_svc w))))"
    using agree unfolding assms(12) by (metis fst_conv snd_conv)
  ultimately show ?thesis using history_total by (metis (no_types))
qed

lemma demo_same_requests:
  "map (bound demo_binders) (tl demo_rest) = map (\<lambda>q. Inr (rpc_request (\<lambda>t. t) q)) demo_calls"
  by code_simp

lemma front_ends_equivalent_witness:
  "\<exists>as w' v'. history (rest_ask 9 (rest_stack demo_recover (run_middleware (\<lambda>fv. fv) demo_request_logger (\<lambda>_ _. ())
      (\<lambda>_ l. (None, l)) (\<lambda>_. \<lparr>mt_now = 0, mt_ctx = (), mt_remote = ''1.2.3.4''\<rparr>) (\<lambda>q p. []) default_config))
      demo_binders demo_turn (svc (NewLogger []))) (tl demo_rest) (demo_world empty_db) = (map (rest_answer_of (\<lambda>fv. fv)) as, w') \<and>
    history (rpc_ask 9 (connect_stack demo_rpc_recover (NewLogger []) (run_interceptors (\<lambda>fv. fv) (\<lambda>_. None) (\<lambda>q. [])
      (\<lambda>q. []) (\<lambda>q. []) (\<lambda>c. []) (\<lambda>_ _. ()) (\<lambda>_ l. (None, l)) (\<lambda>_. \<lparr>mt_now = 0, mt_ctx = (), mt_remote = ''1.2.3.4''\<rparr>)
      rpc_any default_config) (rpc_handler (\<lambda>t. t) (\<lambda>t. t) (svc (NewLogger []))))) demo_calls (demo_world empty_db) =
      (map (rpc_answer_of (\<lambda>t. t) (connect_error_of (\<lambda>fv. fv) (\<lambda>_. None))) as, v') \<and>
    db_view (st_store (wd_svc w')) = db_view (st_store (wd_svc v'))"
proof -
  have none: "app_DeviceRateLimit default_config = None" by (simp add: default_config_def)
  have h: "healthy (3 * length demo_calls) (st_store (wd_svc (demo_world empty_db)))" and fuel: "1 + 2 * length demo_calls \<le> 9"
    by (simp_all add: empty_world demo_calls_def max_rowid_def)
  from front_ends_equivalent [where n = 1 and fuel = 9 and ord = "\<lambda>fv. fv" and new_detail = "\<lambda>_. None" and Procedure = "\<lambda>q. []"
      and start = "\<lambda>q. []" and duration = "\<lambda>q. []" and code_text = "\<lambda>c. []" and NewLimiter = "\<lambda>_ _. ()" and LWait = "\<lambda>_ l. (None, l)"
      and NewLimiter' = "\<lambda>_ _. ()" and LWait' = "\<lambda>_ l. (None, l)" and l = "NewLogger []" and ts_New = "\<lambda>t. t"
      and meta_of = "\<lambda>_. \<lparr>mt_now = 0, mt_ctx = (), mt_remote = ''1.2.3.4''\<rparr>" and logger = "NewLogger []" and Param = "\<lambda>q p. []"
      and meta_of' = "\<lambda>_. \<lparr>mt_now = 0, mt_ctx = (), mt_remote = ''1.2.3.4''\<rparr>",
      OF demo_recovers demo_logs demo_rpc_recovers none demo_turns demo_same_requests demo_calls_orderly empty_world(1) h
        empty_world(1) h refl empty_world(3) fuel]
  show ?thesis by blast
qed

end
