(* ===== verification/LimitedHistory.thy ===== *)
theory LimitedHistory
  imports RestHistory
begin

text \<open>
  Whole histories over REST behind the rate limiter. Each request the client sends, and each page of a listing is
  one, passes the limiter of \<^verbatim>\<open>rlimit/rate_limiter.go\<close> first, under the device id of its path or, without one,
  its remote address. The abstract service is that of \<open>History\<close> behind a gate: the limiter alone decides who is
  turned away, with a bare 429 or 408, and a request turned away changes nothing else.
\<close>

section \<open>The gate\<close>

text \<open>What a request shows the limiter: its time, context and address, and the device id it names.\<close>

definition sent_by :: "('q \<Rightarrow> 'c meta) \<Rightarrow> ('q \<Rightarrow> string \<Rightarrow> string) \<Rightarrow> 'q \<Rightarrow> 'c meta \<times> string" where
  "sent_by meta_of Param q = (meta_of q, Param q ''device_id'')"

definition gate ::
  "(float64 \<Rightarrow> int \<Rightarrow> 'l) \<Rightarrow> ('c \<Rightarrow> 'l \<Rightarrow> go_error option \<times> 'l) \<Rightarrow> AppConfig \<Rightarrow> 'c meta \<times> string \<Rightarrow> 'l RateLimiter
   \<Rightarrow> int option \<times> 'l RateLimiter" where
  "gate NewLimiter LWait cfg i rl =
     (if app_DeviceRateLimit cfg = None then (None, rl)
      else (case Wait NewLimiter LWait (mt_now (fst i)) (mt_ctx (fst i))
                   (if snd i = [] then mt_remote (fst i) else snd i) rl of
              (err, rl') \<Rightarrow> (map_option (\<lambda>e. if errors_Is e ErrCanceled then 408 else 429) err, rl')))"

text \<open>A stack with a gate \<open>G\<close>: a request turned away is answered with a bare status, one let through is the handler's.\<close>

definition gated ::
  "(violations \<Rightarrow> violations) \<Rightarrow> ('i \<Rightarrow> 'l RateLimiter \<Rightarrow> int option \<times> 'l RateLimiter) \<Rightarrow> ('q \<Rightarrow> 'i) \<Rightarrow>
   (('q \<Rightarrow> (('s, 'l) world, 'b) echo_handler) \<Rightarrow> 'q \<Rightarrow> (('s, 'l) world, 'b) echo_handler) \<Rightarrow> bool" where
  "gated ord G info stack \<longleftrightarrow> (\<forall>h q w rl.
     (\<forall>s. G (info q) (wd_rl w) = (Some s, rl) \<longrightarrow> s \<noteq> 201 \<and> (\<exists>f. stack h q w = (Ok (NoContent s), log_to f (w\<lparr>wd_rl := rl\<rparr>)))) \<and>
     (G (info q) (wd_rl w) = (None, rl) \<longrightarrow>
        (\<forall>r w'. h q (w\<lparr>wd_rl := rl\<rparr>) = (Ok r, w') \<longrightarrow> (\<exists>f. stack h q w = (Ok r, log_to f w'))) \<and>
        (\<forall>e w'. h q (w\<lparr>wd_rl := rl\<rparr>) = (Err e, w') \<longrightarrow> (\<exists>f. stack h q w =
          (Ok (ErrorReply (re_Code (rest_error_of ord e)) \<lparr>rer_Error = rest_error_of ord e\<rparr>), log_to f w')))))"

lemma gatedD:
  assumes "gated ord G info stack"
  shows "G (info q) (wd_rl w) = (Some s, rl) \<Longrightarrow> s \<noteq> 201 \<and> (\<exists>f. stack h q w = (Ok (NoContent s), log_to f (w\<lparr>wd_rl := rl\<rparr>)))"
    and "G (info q) (wd_rl w) = (None, rl) \<Longrightarrow> h q (w\<lparr>wd_rl := rl\<rparr>) = (Ok r, w') \<Longrightarrow> \<exists>f. stack h q w = (Ok r, log_to f w')"
    and "G (info q) (wd_rl w) = (None, rl) \<Longrightarrow> h q (w\<lparr>wd_rl := rl\<rparr>) = (Err e, w') \<Longrightarrow> \<exists>f. stack h q w =
          (Ok (ErrorReply (re_Code (rest_error_of ord e)) \<lparr>rer_Error = rest_error_of ord e\<rparr>), log_to f w')"
  using assms by (auto simp: gated_def)

lemma gatedI:
  assumes "\<And>h q w s rl. G (info q) (wd_rl w) = (Some s, rl) \<Longrightarrow>
      s \<noteq> 201 \<and> (\<exists>f. stack h q w = (Ok (NoContent s), log_to f (w\<lparr>wd_rl := rl\<rparr>)))"
    and "\<And>h q w rl r w'. G (info q) (wd_rl w) = (None, rl) \<Longrightarrow> h q (w\<lparr>wd_rl := rl\<rparr>) = (Ok r, w') \<Longrightarrow>
      \<exists>f. stack h q w = (Ok r, log_to f w')"
    and "\<And>h q w rl e w'. G (info q) (wd_rl w) = (None, rl) \<Longrightarrow> h q (w\<lparr>wd_rl := rl\<rparr>) = (Err e, w') \<Longrightarrow> \<exists>f. stack h q w =
      (Ok (ErrorReply (re_Code (rest_error_of ord e)) \<lparr>rer_Error = rest_error_of ord e\<rparr>), log_to f w')"
  shows "gated ord G info stack"
  unfolding gated_def using assms by blast

lemma named_key:
  "(case EchoRequestDeviceIDGetter Param q of Some k \<Rightarrow> k | None \<Rightarrow> a) =
   (if Param q ''device_id'' = [] then a else Param q ''device_id'')"
  by (simp add: EchoRequestDeviceIDGetter_def)

lemma gate_waits:
  assumes "app_DeviceRateLimit cfg \<noteq> None"
  shows "gate NewLimiter LWait cfg (sent_by meta_of Param q) l = (Some s, rl) \<Longrightarrow>
      \<exists>err. s = (if errors_Is err ErrCanceled then 408 else 429) \<and>
        Wait NewLimiter LWait (mt_now (meta_of q)) (mt_ctx (meta_of q))
          (case EchoRequestDeviceIDGetter Param q of Some k \<Rightarrow> k | None \<Rightarrow> mt_remote (meta_of q)) l = (Some err, rl)"
    and "gate NewLimiter LWait cfg (sent_by meta_of Param q) l = (None, rl) \<Longrightarrow>
      Wait NewLimiter LWait (mt_now (meta_of q)) (mt_ctx (meta_of q))
        (case EchoRequestDeviceIDGetter Param q of Some k \<Rightarrow> k | None \<Rightarrow> mt_remote (meta_of q)) l = (None, rl)"
  using assms unfolding named_key by (auto simp: gate_def sent_by_def split: prod.splits)

lemma gated_stack:
  fixes Recover :: "('q \<Rightarrow> (('s, 'l) world, 'b) echo_handler) \<Rightarrow> 'q \<Rightarrow> (('s, 'l) world, 'b) echo_handler"
  assumes "recovers Recover" and "logs_requests RequestLogger"
  shows "gated ord (gate NewLimiter LWait cfg) (sent_by meta_of Param)
    (rest_stack Recover (run_middleware ord RequestLogger NewLimiter LWait meta_of Param cfg))"
proof (cases "app_DeviceRateLimit cfg = None")
  case True
  then have same: "w\<lparr>wd_rl := rl\<rparr> = w"
    if "gate NewLimiter LWait cfg (sent_by meta_of Param q) (wd_rl w) = (out, rl)" for q rl out and w :: "('s, 'l) world"
    using that by (simp add: gate_def)
  show ?thesis
  proof (rule gatedI)
    show "s \<noteq> 201 \<and> (\<exists>f. rest_stack Recover (run_middleware ord RequestLogger NewLimiter LWait meta_of Param cfg) h q w =
        (Ok (NoContent s), log_to f (w\<lparr>wd_rl := rl\<rparr>)))"
      if "gate NewLimiter LWait cfg (sent_by meta_of Param q) (wd_rl w) = (Some s, rl)" for h q w s rl
      using that True by (simp add: gate_def)
  qed (auto dest!: same intro: rest_ok_response [OF assms True] rest_error_response [OF assms True])
next
  case False
  show ?thesis
  proof (rule gatedI)
    fix h :: "'q \<Rightarrow> (('s, 'l) world, 'b) echo_handler" and q s rl and w :: "('s, 'l) world"
    assume "gate NewLimiter LWait cfg (sent_by meta_of Param q) (wd_rl w) = (Some s, rl)"
    from gate_waits(1) [OF False this] obtain err where err: "s = (if errors_Is err ErrCanceled then 408 else 429)"
      "Wait NewLimiter LWait (mt_now (meta_of q)) (mt_ctx (meta_of q))
        (case EchoRequestDeviceIDGetter Param q of Some k \<Rightarrow> k | None \<Rightarrow> mt_remote (meta_of q)) (wd_rl w) = (Some err, rl)"
      by blast
    from rest_limited_request [where h = h and meta_of = meta_of and Param = Param, OF assms False err(2)]
    show "s \<noteq> 201 \<and> (\<exists>f. rest_stack Recover (run_middleware ord RequestLogger NewLimiter LWait meta_of Param cfg) h q w =
        (Ok (NoContent s), log_to f (w\<lparr>wd_rl := rl\<rparr>)))" unfolding err(1) by simp
  next
    fix h :: "'q \<Rightarrow> (('s, 'l) world, 'b) echo_handler" and q rl and w :: "('s, 'l) world"
    assume "gate NewLimiter LWait cfg (sent_by meta_of Param q) (wd_rl w) = (None, rl)"
    note through = rest_admitted_request [where h = h and meta_of = meta_of and Param = Param, OF assms False gate_waits(2) [OF False this]]
    show "\<exists>f. rest_stack Recover (run_middleware ord RequestLogger NewLimiter LWait meta_of Param cfg) h q w = (Ok r, log_to f w')"
      if "h q (w\<lparr>wd_rl := rl\<rparr>) = (Ok r, w')" for r w' by (rule through(1) [OF that])
    show "\<exists>f. rest_stack Recover (run_middleware ord RequestLogger NewLimiter LWait meta_of Param cfg) h q w =
        (Ok (ErrorReply (re_Code (rest_error_of ord e)) \<lparr>rer_Error = rest_error_of ord e\<rparr>), log_to f w')"
      if "h q (w\<lparr>wd_rl := rl\<rparr>) = (Err e, w')" for e w' by (rule through(2) [OF that])
  qed
qed

section \<open>The abstract service behind a gate\<close>

text \<open>
  A listing in pages of \<open>n\<close>: each page passes the gate, and a client turned away before the last one has no
  listing. \<open>later\<close> is what the request for the next page shows the gate.
\<close>

fun gated_pages ::
  "('i \<Rightarrow> 'r \<Rightarrow> int option \<times> 'r) \<Rightarrow> ('i \<Rightarrow> 'i) \<Rightarrow> nat \<Rightarrow> 'i \<Rightarrow> Alert list \<Rightarrow> 'r \<Rightarrow> rest_answer \<times> 'r" where
  "gated_pages G later n i L rl =
     (case G i rl of
        (Some s, rl') \<Rightarrow> (Bare s, rl')
      | (None, rl') \<Rightarrow>
          if n = 0 \<or> length L \<le> n then (Shown L, rl')
          else (case gated_pages G later n (later i) (drop n L) rl' of
                  (Shown as, rl'') \<Rightarrow> (Shown (take n L @ as), rl'')
                | r \<Rightarrow> r))"

declare gated_pages.simps [simp del]

definition gated_specified ::
  "(violations \<Rightarrow> violations) \<Rightarrow> ('i \<Rightarrow> 'r \<Rightarrow> int option \<times> 'r) \<Rightarrow> ('i \<Rightarrow> 'i) \<Rightarrow> ('q \<Rightarrow> 'i) \<Rightarrow> 'q binders \<Rightarrow> operation \<times> 'q
   \<Rightarrow> 'r \<times> contents \<Rightarrow> rest_answer \<times> 'r \<times> contents" where
  "gated_specified ord G later info B oq st =
     (case (bound B oq, rest_specified ord B oq (snd st)) of
        (Inr (AskAlerts req), (Shown L, ct)) \<Rightarrow>
          (case gated_pages G later (nat (page_size (gar_PageSize req))) (info (snd oq)) L (fst st) of
             (a, rl) \<Rightarrow> (a, rl, ct))
      | (_, (a, ct)) \<Rightarrow>
          (case G (info (snd oq)) (fst st) of
             (Some s, rl) \<Rightarrow> (Bare s, rl, snd st)
           | (None, rl) \<Rightarrow> (a, rl, ct)))"


section \<open>Refinement\<close>

text \<open>What a request let through gets is what a stack that only makes errors into replies would give it.\<close>

definition reply_stack ::
  "(violations \<Rightarrow> violations) \<Rightarrow> ('q \<Rightarrow> ('w, 'b) echo_handler) \<Rightarrow> 'q \<Rightarrow> ('w, 'b) echo_handler" where
  "reply_stack ord h q w = (case h q w of
     (Err e, w') \<Rightarrow> (Ok (ErrorReply (re_Code (rest_error_of ord e)) \<lparr>rer_Error = rest_error_of ord e\<rparr>), w')
   | r \<Rightarrow> r)"

lemma log_to_nothing: "log_to (\<lambda>x. x) w = w"
  by (simp add: log_to_def)

lemma transparent_reply_stack: "transparent ord (reply_stack ord)"
  unfolding transparent_def reply_stack_def by (intro allI conjI impI exI [of _ "\<lambda>x. x"]) (simp_all add: log_to_nothing)

lemma gated_admits:
  assumes g: "gated ord G info stack" and rl: "G (info q) (wd_rl w) = (None, rl)"
    and r: "reply_stack ord h q (w\<lparr>wd_rl := rl\<rparr>) = (r, w')" "\<not> is_panic r"
  shows "\<exists>f. stack h q w = (r, log_to f w')"
proof (cases "h q (w\<lparr>wd_rl := rl\<rparr>)")
  case (Pair x v)
  show ?thesis
  proof (cases x)
    case (Ok y)
    then show ?thesis using gatedD(2) [where h = h, OF g rl] Pair r by (auto simp: reply_stack_def)
  next
    case (Err e)
    then show ?thesis using gatedD(3) [where h = h, OF g rl] Pair r by (auto simp: reply_stack_def)
  qed (use Pair r in \<open>auto simp: reply_stack_def\<close>)
qed

lemma handler_limiter: "wd_rl (snd (rest_handler B S op q w)) = wd_rl w"
  by (simp add: rest_handler_def in_svc_def split: prod.split)

lemma reply_stack_limiter: "wd_rl (snd (reply_stack ord (rest_handler B S op) q w)) = wd_rl w"
  using handler_limiter [of B S op q w] by (auto simp: reply_stack_def split: prod.splits outcome.splits)

text \<open>Only a valid listing is answered with a page.\<close>

lemma reply_without_page:
  assumes "\<And>req. bound B oq = Inr (AskAlerts req) \<Longrightarrow> validateGetDeviceAlertsReq req \<noteq> None"
  shows "fst (reply_stack ord (rest_handler B S (fst oq)) (snd oq) w) \<noteq> Ok (JSONReply s b)"
proof (cases "fst oq")
  case OpGetDeviceAlerts
  show ?thesis
  proof (cases "bind_Alerts B (snd oq)")
    case (Inr req)
    then have "validateGetDeviceAlertsReq req \<noteq> None" using assms OpGetDeviceAlerts by (simp add: bound_def)
    then show ?thesis using Inr OpGetDeviceAlerts
      by (auto simp: reply_stack_def rest_handler_def in_svc_def GetDeviceAlerts_echo_def GetDeviceAlerts_refused)
  qed (simp add: OpGetDeviceAlerts reply_stack_def rest_handler_def in_svc_def GetDeviceAlerts_echo_def)
qed (auto simp: reply_stack_def rest_handler_def in_svc_def ConfigureDevice_echo_def RecordMetric_echo_def on_ok_def
      split: sum.splits prod.splits outcome.splits)

lemma rest_ask_once:
  assumes "stack (rest_handler B S (fst oq)) (snd oq) w = (r, w')" and "\<And>s b. r \<noteq> Ok (JSONReply s b)" and "0 < fuel"
  shows "rest_ask fuel stack B turn S oq w = (read_reply r, w')"
proof (cases "fst oq = OpGetDeviceAlerts")
  case True
  obtain m where "fuel = Suc m" using assms(3) by (cases fuel) auto
  then show ?thesis using True assms(1,2)
    by (auto simp: rest_ask_def Let_def split: outcome.split echo_reply.split)
qed (use assms(1) in \<open>simp add: rest_ask_def Let_def\<close>)

lemma rest_specified_clear: "fst (rest_specified ord B oq ct) \<noteq> Unclear"
proof (cases "bound B oq")
  case (Inr q)
  obtain a ct' where a: "specified q ct = (a, ct')" by fastforce
  then show ?thesis using specified_total [of q ct] Inr by (cases a) (auto simp: rest_specified_def)
qed (simp add: rest_specified_def)

text \<open>A request that is not a valid listing, let through.\<close>

lemma gated_once:
  assumes g: "gated ord G info stack" and turn: "turns_pages B turn"
    and ready: "strict.ready fuel (Suc k) (wd_svc w)" and q: "rest_orderly B oq"
    and rl: "G (info (snd oq)) (wd_rl w) = (None, rl)"
    and one: "\<And>req. bound B oq = Inr (AskAlerts req) \<Longrightarrow> validateGetDeviceAlertsReq req \<noteq> None"
  shows "\<exists>w'. rest_ask fuel stack B turn (svc l) oq w = (fst (rest_specified ord B oq (db_view (st_store (wd_svc w)))), w') \<and>
    wd_rl w' = rl \<and> db_view (st_store (wd_svc w')) = snd (rest_specified ord B oq (db_view (st_store (wd_svc w)))) \<and>
    strict.ready fuel k (wd_svc w')"
proof -
  let ?v = "w\<lparr>wd_rl := rl\<rparr>" and ?h = "rest_handler B (svc l) (fst oq)"
  have fuel: "0 < fuel" using ready by (auto simp: strict.ready_def)
  obtain r v where r: "reply_stack ord ?h (snd oq) ?v = (r, v)" by fastforce
  have page: "r \<noteq> Ok (JSONReply s b)" for s b
    using reply_without_page [where B = B and oq = oq and ord = ord and S = "svc l" and w = ?v and s = s and b = b] one r by simp
  have "rest_ask fuel (reply_stack ord) B turn (svc l) oq ?v = (read_reply r, v)"
    by (rule rest_ask_once [where stack = "reply_stack ord"]) (use r page fuel in simp_all)
  then have a: "read_reply r = fst (rest_specified ord B oq (db_view (st_store (wd_svc w))))"
      "db_view (st_store (wd_svc v)) = snd (rest_specified ord B oq (db_view (st_store (wd_svc w))))"
      "strict.ready fuel k (wd_svc v)"
    using rest_ask_refines [where w = ?v and l = l and fuel = fuel and k = k and ord = ord, OF transparent_reply_stack turn _ q]
      ready by auto
  then have "\<not> is_panic r" using rest_specified_clear [of ord B oq "db_view (st_store (wd_svc w))"] by (cases r) auto
  from gated_admits [where h = ?h, OF g rl r this] obtain f where f: "stack ?h (snd oq) w = (r, log_to f v)" by blast
  have "wd_rl v = rl" using reply_stack_limiter [of ord B "svc l" "fst oq" "snd oq" ?v] r by simp
  moreover have "strict.ready fuel k (wd_svc (log_to f v))" using a(3) by (simp add: strict.ready_def)
  ultimately show ?thesis using rest_ask_once [where stack = stack and B = B and turn = turn and r = r] f page fuel a(1,2) by simp
qed


text \<open>A listing, page by page.\<close>

definition shows_later :: "('q \<Rightarrow> string \<Rightarrow> 'q) \<Rightarrow> ('q \<Rightarrow> 'i) \<Rightarrow> ('i \<Rightarrow> 'i) \<Rightarrow> bool" where
  "shows_later turn info later \<longleftrightarrow> (\<forall>q tok. info (turn q tok) = later (info q))"

lemma gated_pages_listing:
  assumes g: "gated ord G info stack" and turn: "turns_pages B turn" and later: "shows_later turn info later"
  shows "bind_Alerts B q = Inr req \<Longrightarrow> db_inv (st_store (wd_svc w)) \<Longrightarrow> healthy k (st_store (wd_svc w)) \<Longrightarrow>
    validateGetDeviceAlertsReq req = None \<Longrightarrow>
    \<forall>a \<in> set (alerts_of (st_store (wd_svc w)) (gar_DeviceID req)). json_time_ok (al_Time a) \<Longrightarrow>
    request_token req = Some tk \<Longrightarrow> issued (st_store (wd_svc w)) (gar_DeviceID req) (request_timeframe req) tk \<Longrightarrow>
    L = listing (st_store (wd_svc w)) (gar_DeviceID req) (request_timeframe req) tk \<Longrightarrow>
    n = nat (page_size (gar_PageSize req)) \<Longrightarrow> length L < fuel \<Longrightarrow>
    gated_pages G later n (info q) L (wd_rl w) = (a, rl) \<Longrightarrow>
    \<exists>w'. rest_pages fuel (stack (rest_handler B (svc l) OpGetDeviceAlerts)) turn q w = (a, w') \<and>
      wd_rl w' = rl \<and> st_store (wd_svc w') = st_store (wd_svc w)"
proof (induction fuel arbitrary: q req tk L a w)
  case (Suc fuel)
  let ?h = "rest_handler B (svc l) OpGetDeviceAlerts"
  obtain out rl1 where G: "G (info q) (wd_rl w) = (out, rl1)" by fastforce
  show ?case
  proof (cases out)
    case (Some s)
    from gatedD(1) [where h = ?h, OF g G [unfolded Some]] obtain f where
      "s \<noteq> 201" "stack ?h q w = (Ok (NoContent s), log_to f (w\<lparr>wd_rl := rl1\<rparr>))" by blast
    moreover have "a = Bare s" "rl = rl1" using Suc.prems(11) G Some by (simp_all add: gated_pages.simps)
    ultimately show ?thesis by simp
  next
    case None
    let ?v = "w\<lparr>wd_rl := rl1\<rparr>"
    have st: "st_store (wd_svc ?v) = st_store (wd_svc w)" by simp
    note page = alerts_page_handler [where l = l and w = ?v and q = q, unfolded st, OF Suc.prems(1-9)]
    obtain tok where n: "0 < n"
      and h: "?h q ?v = (Ok (JSONReply 200 \<lparr>gares_Alerts = take n L, gares_NextPageToken = tok\<rparr>), ?v)"
      and tok: "if length L \<le> n then tok = []
       else tok \<noteq> [] \<and> (\<exists>nt. request_token (req\<lparr>gar_PageToken := tok\<rparr>) = Some nt \<and>
         issued (st_store (wd_svc w)) (gar_DeviceID req) (request_timeframe req) nt \<and>
         listing (st_store (wd_svc w)) (gar_DeviceID req) (request_timeframe req) nt = drop n L)"
      using page by blast
    from gatedD(2) [where h = ?h, OF g G [unfolded None] h] obtain f where
      serve: "stack ?h q w = (Ok (JSONReply 200 \<lparr>gares_Alerts = take n L, gares_NextPageToken = tok\<rparr>), log_to f ?v)"
      by blast
    show ?thesis
    proof (cases "length L \<le> n")
      case True
      then have "a = Shown L" "rl = rl1" using Suc.prems(11) G None by (simp_all add: gated_pages.simps)
      then show ?thesis using serve tok True by simp
    next
      case False
      let ?req = "req\<lparr>gar_PageToken := tok\<rparr>"
      note same = next_page_request [OF Suc.prems(4), of tok]
      from tok False obtain nt where nt: "request_token ?req = Some nt" "tok \<noteq> []"
        "issued (st_store (wd_svc w)) (gar_DeviceID req) (request_timeframe req) nt"
        "drop n L = listing (st_store (wd_svc w)) (gar_DeviceID req) (request_timeframe req) nt" by auto
      obtain b where b: "gated_pages G later n (later (info q)) (drop n L) rl1 = (b, rl)"
        and a: "a = (case b of Shown as \<Rightarrow> Shown (take n L @ as) | r \<Rightarrow> r)"
        using Suc.prems(11) G None False n
        by (subst (asm) gated_pages.simps) (auto split: prod.splits rest_answer.splits)
      have "length (drop n L) < fuel" using Suc.prems(10) False n by simp
      then have "length (listing (st_store (wd_svc w)) (gar_DeviceID req) (request_timeframe req) nt) < fuel"
        unfolding nt(4) .
      then obtain w' where "rest_pages fuel (stack ?h) turn (turn q tok) (log_to f ?v) = (b, w')" "wd_rl w' = rl"
        "st_store (wd_svc w') = st_store (wd_svc w)"
        using Suc.IH [of "turn q tok" ?req "log_to f ?v" nt "drop n L" b] turns_pagesD [OF turn Suc.prems(1)]
          Suc.prems(2,3,5,9) nt same b later by (auto simp: shows_later_def)
      then show ?thesis using serve nt(2) a by (simp split: rest_answer.split)
    qed
  qed
qed simp


text \<open>A request turned away.\<close>

lemma gated_refused:
  assumes g: "gated ord G info stack" and rl: "G (info (snd oq)) (wd_rl w) = (Some s, rl)" and fuel: "0 < fuel"
  shows "\<exists>f. rest_ask fuel stack B turn S oq w = (Bare s, log_to f (w\<lparr>wd_rl := rl\<rparr>))"
proof -
  from gatedD(1) [where h = "rest_handler B S (fst oq)", OF g rl] obtain f where
    "s \<noteq> 201" "stack (rest_handler B S (fst oq)) (snd oq) w = (Ok (NoContent s), log_to f (w\<lparr>wd_rl := rl\<rparr>))" by blast
  then show ?thesis
    using rest_ask_once [where stack = stack and B = B and S = S and oq = oq and w = w and r = "Ok (NoContent s)"] fuel by auto
qed

lemma specified_pages:
  assumes "bound B oq = Inr (AskAlerts req)" and "validateGetDeviceAlertsReq req = None"
  shows "rest_specified ord B oq ct = (Shown (newest_first al_Time (request_timeframe req) (ct_alerts ct (gar_DeviceID req))), ct)"
  using assms by (simp add: rest_specified_def specified_def abstract_step_def)

lemma specified_once:
  assumes "\<And>req. bound B oq = Inr (AskAlerts req) \<Longrightarrow> validateGetDeviceAlertsReq req \<noteq> None"
  shows "gated_specified ord G later info B oq (rl, ct) =
    (case G (info (snd oq)) rl of
       (Some s, rl') \<Rightarrow> (Bare s, rl', ct)
     | (None, rl') \<Rightarrow> (case rest_specified ord B oq ct of (a, ct') \<Rightarrow> (a, rl', ct')))"
proof -
  have "fst (rest_specified ord B oq ct) \<noteq> Shown L" if "bound B oq = Inr (AskAlerts req)" for req L
    using assms [OF that] that by (auto simp: rest_specified_def specified_def abstract_step_def)
  then show ?thesis unfolding gated_specified_def
    by (cases "rest_specified ord B oq ct")
      (fastforce split: sum.split request.split rest_answer.split prod.split option.split)
qed

lemma bound_alerts: "bound B oq = Inr (AskAlerts req) \<Longrightarrow> fst oq = OpGetDeviceAlerts \<and> bind_Alerts B (snd oq) = Inr req"
  by (cases "bind_Alerts B (snd oq)"; cases "bind_Record B (snd oq)"; cases "bind_Configure B (snd oq)")
    (auto simp: bound_def split: operation.splits)

lemma gated_ask_refines:
  assumes g: "gated ord G info stack" and turn: "turns_pages B turn" and later: "shows_later turn info later"
    and ready: "strict.ready fuel (Suc k) (wd_svc w)" and q: "rest_orderly B oq"
    and spec: "gated_specified ord G later info B oq (wd_rl w, db_view (st_store (wd_svc w))) = (a, rl, ct)"
  shows "\<exists>w'. rest_ask fuel stack B turn (svc l) oq w = (a, w') \<and> wd_rl w' = rl \<and>
    db_view (st_store (wd_svc w')) = ct \<and> strict.ready fuel k (wd_svc w')"
proof (cases "\<exists>req. bound B oq = Inr (AskAlerts req) \<and> validateGetDeviceAlertsReq req = None")
  case True
  let ?db = "st_store (wd_svc w)"
  from True obtain req where b: "bound B oq = Inr (AskAlerts req)" and valid: "validateGetDeviceAlertsReq req = None" by blast
  let ?L = "newest_first al_Time (request_timeframe req) (ct_alerts (db_view ?db) (gar_DeviceID req))"
  have op: "fst oq = OpGetDeviceAlerts" "bind_Alerts B (snd oq) = Inr req"
    using bound_alerts [OF b] by simp_all
  have inv: "db_inv ?db" and h: "healthy (3 * Suc k) ?db" using ready by (simp_all add: strict.ready_def)
  obtain n where n: "listable n (db_view ?db)" "n \<le> fuel" using ready by (auto simp: strict.ready_def)
  then have as: "length (ct_alerts (db_view ?db) (gar_DeviceID req)) < fuel"
    "\<forall>a \<in> set (alerts_of ?db (gar_DeviceID req)). json_time_ok (al_Time a)"
    by (auto simp: listable_def intro: order.strict_trans2)
  have L: "length ?L < fuel" using as(1) by (rule order.strict_trans1 [OF newest_first_length])
  have tok: "request_token req = Some None" "issued ?db (gar_DeviceID req) (request_timeframe req) None"
    using q b store.issued_start by (auto simp: rest_orderly_def orderly_def request_token_def)
  have pages: "gated_pages G later (nat (page_size (gar_PageSize req))) (info (snd oq)) ?L (wd_rl w) = (a, rl)"
    and ct: "ct = db_view ?db"
    using spec b by (auto simp: gated_specified_def specified_pages [OF b valid] split: prod.splits)
  have "?L = listing ?db (gar_DeviceID req) (request_timeframe req) None" by (simp add: store.listing_law [OF inv])
  from gated_pages_listing [where l = l, OF g turn later op(2) inv h valid as(2) tok this refl L pages] obtain w' where
    "rest_pages fuel (stack (rest_handler B (svc l) OpGetDeviceAlerts)) turn (snd oq) w = (a, w')" "wd_rl w' = rl"
    "st_store (wd_svc w') = ?db" by blast
  then show ?thesis using op(1) ct ready_less [OF ready] by (auto simp: rest_ask_def)
next
  case False
  then have one: "\<And>req. bound B oq = Inr (AskAlerts req) \<Longrightarrow> validateGetDeviceAlertsReq req \<noteq> None" by simp
  have "gated_specified ord G later info B oq (r, c) =
      (case G (info (snd oq)) r of
         (Some s, rl') \<Rightarrow> (Bare s, rl', c)
       | (None, rl') \<Rightarrow> (case rest_specified ord B oq c of (a, ct') \<Rightarrow> (a, rl', ct')))" for r c
    by (rule specified_once) (rule one)
  note spec' = spec [unfolded this]
  obtain out rl' where G: "G (info (snd oq)) (wd_rl w) = (out, rl')" by fastforce
  show ?thesis
  proof (cases out)
    case None
    from gated_once [where l = l, OF g turn ready q G [unfolded None] one] show ?thesis
      using spec' G None by (auto split: prod.splits)
  next
    case (Some s)
    have "0 < fuel" using ready by (auto simp: strict.ready_def)
    from gated_refused [OF g G [unfolded Some] this, of B turn "svc l"] obtain f where
      "rest_ask fuel stack B turn (svc l) oq w = (Bare s, log_to f (w\<lparr>wd_rl := rl'\<rparr>))" by blast
    moreover have "strict.ready fuel k (wd_svc (log_to f (w\<lparr>wd_rl := rl'\<rparr>)))" by (rule ready_less [OF ready]) simp
    ultimately show ?thesis using spec' G Some by auto
  qed
qed

lemma gated_history:
  assumes g: "gated ord G info stack" and turn: "turns_pages B turn" and later: "shows_later turn info later"
  shows "strict.ready fuel (length qs) (wd_svc w) \<Longrightarrow> list_all (rest_orderly B) qs \<Longrightarrow>
    history (gated_specified ord G later info B) qs (wd_rl w, db_view (st_store (wd_svc w))) = (as, rl, ct) \<Longrightarrow>
    \<exists>w'. history (rest_ask fuel stack B turn (svc l)) qs w = (as, w') \<and> wd_rl w' = rl \<and>
      db_view (st_store (wd_svc w')) = ct \<and> db_inv (st_store (wd_svc w'))"
proof (induction qs arbitrary: w as)
  case Nil
  then show ?case by (simp add: strict.ready_def)
next
  case (Cons q qs)
  obtain a rl1 ct1 where q: "gated_specified ord G later info B q (wd_rl w, db_view (st_store (wd_svc w))) = (a, rl1, ct1)"
    using prod_cases3 by blast
  obtain w1 where w1: "rest_ask fuel stack B turn (svc l) q w = (a, w1)" "wd_rl w1 = rl1"
    "db_view (st_store (wd_svc w1)) = ct1" "strict.ready fuel (length qs) (wd_svc w1)"
    using gated_ask_refines [where l = l and k = "length qs", OF g turn later _ _ q] Cons.prems(1,2) by auto
  obtain as' where rest: "history (gated_specified ord G later info B) qs (rl1, ct1) = (as', rl, ct)" "as = a # as'"
    using Cons.prems(3) q by (auto split: prod.splits)
  from Cons.IH [of w1 as'] w1(2-4) rest Cons.prems(2) show ?case using w1(1) by fastforce
qed


text \<open>C6. Over REST, with or without a rate limit configured, a client that sends one request after the other is answered
  as by the abstract service behind a gate: every request and every page of a listing is put to the limiter once,
  under its device id or address; one it turns away gets a bare 429 or 408 and changes the limiter only; all the
  others get the answers, and leave the contents and the limiter, as if those turned away had not been sent
  to the service at all.\<close>

theorem rest_history_limited:
  assumes "recovers Recover" and "logs_requests RequestLogger"
    and "db_inv (st_store (wd_svc w))" and "healthy (3 * length qs) (st_store (wd_svc w))"
    and "listable n (db_view (st_store (wd_svc w)))" and "n + 2 * length qs \<le> fuel"
    and "list_all (rest_orderly B) qs"
    and "turns_pages B turn" and "shows_later turn (sent_by meta_of Param) later"
    and "history (gated_specified ord (gate NewLimiter LWait cfg) later (sent_by meta_of Param) B) qs
      (wd_rl w, db_view (st_store (wd_svc w))) = (as, rl, ct)"
  shows "\<exists>w'. history (rest_ask fuel
        (rest_stack Recover (run_middleware ord RequestLogger NewLimiter LWait meta_of Param cfg)) B turn (svc l)) qs w = (as, w') \<and>
    wd_rl w' = rl \<and> db_view (st_store (wd_svc w')) = ct \<and> db_inv (st_store (wd_svc w'))"
proof (rule gated_history [OF gated_stack [OF assms(1,2)] assms(8,9) _ assms(7,10)])
  show "strict.ready fuel (length qs) (wd_svc w)"
    using assms(3-6) by (auto simp: strict.ready_def)
qed

text \<open>A burst of four: the second page of the listing is one too many, another device is not concerned.\<close>

definition demo_device :: "request \<Rightarrow> string \<Rightarrow> string" where
  "demo_device q p = (if p = ''device_id'' then
     (case q of AskConfigure r \<Rightarrow> cdr_DeviceID r | AskRecord r \<Rightarrow> rmr_DeviceID r | AskAlerts r \<Rightarrow> gar_DeviceID r) else [])"

definition demo_wait :: "unit \<Rightarrow> int \<Rightarrow> go_error option \<times> int" where
  "demo_wait ctx l = (if 0 < l then (None, l - 1) else (Some (ErrNew ''rate limited''), l))"

definition demo_burst :: "(operation \<times> request) list" where
  "demo_burst = demo_rest @ [(OpGetDeviceAlerts, AskAlerts \<lparr>gar_DeviceID = ''d2'', gar_TimeframeStart = None,
     gar_TimeframeEnd = None, gar_PageSize = 1, gar_PageToken = []\<rparr>)]"

abbreviation demo_meta :: "request \<Rightarrow> unit meta" where
  "demo_meta q \<equiv> \<lparr>mt_now = 0, mt_ctx = (), mt_remote = ''1.2.3.4''\<rparr>"

lemma demo_shows: "shows_later demo_turn (sent_by demo_meta demo_device) (\<lambda>i. i)"
  by (auto simp: shows_later_def sent_by_def demo_turn_def demo_device_def split: request.split)

lemma demo_burst_answers:
  "fst (history (gated_specified (\<lambda>fv. fv) (gate (\<lambda>_ b. b) demo_wait demo_limited) (\<lambda>i. i) (sent_by demo_meta demo_device)
      demo_binders) demo_burst (NewRateLimiter f_zero 4 0 0, db_view empty_db)) =
    [Problem 400 \<lparr>re_Code = 400, re_Message = ''Bad Request'', re_Details = []\<rparr>, Created, Created,
     Bare 429, Bare 429, Shown []]"
  by code_simp

lemma rest_history_limited_witness:
  "fst (history (rest_ask 13 (rest_stack demo_recover (run_middleware (\<lambda>fv. fv) demo_request_logger (\<lambda>_ b. b) demo_wait
      demo_meta demo_device demo_limited)) demo_binders demo_turn (svc (NewLogger []))) demo_burst
      \<lparr>wd_svc = \<lparr>st_store = empty_db, st_log = []\<rparr>, wd_rl = NewRateLimiter f_zero 4 0 0\<rparr>) =
    [Problem 400 \<lparr>re_Code = 400, re_Message = ''Bad Request'', re_Details = []\<rparr>, Created, Created,
     Bare 429, Bare 429, Shown []]" (is "fst (history (rest_ask 13 ?stack _ _ _) _ ?w) = _")
proof -
  let ?spec = "gated_specified (\<lambda>fv. fv) (gate (\<lambda>_ b. b) demo_wait demo_limited) (\<lambda>i. i) (sent_by demo_meta demo_device) demo_binders"
  have "db_inv (st_store (wd_svc ?w))" "healthy (3 * length demo_burst) (st_store (wd_svc ?w))"
    "listable 1 (db_view (st_store (wd_svc ?w)))" "1 + 2 * length demo_burst \<le> 13"
    by (simp_all add: healthy_def empty_db_def max_rowid_def demo_burst_def demo_rest_def demo_requests_def listable_def
        alerts_of_def db_inv_def ids_ok_def)
  moreover have "list_all (rest_orderly demo_binders) demo_burst" by code_simp
  moreover obtain as rl ct where h: "history ?spec demo_burst (wd_rl ?w, db_view (st_store (wd_svc ?w))) = (as, rl, ct)"
    by (cases "history ?spec demo_burst (wd_rl ?w, db_view (st_store (wd_svc ?w)))") auto
  ultimately obtain w' where "history (rest_ask 13 ?stack demo_binders demo_turn (svc (NewLogger []))) demo_burst ?w = (as, w')"
    using rest_history_limited [where w = ?w and qs = demo_burst and B = demo_binders and turn = demo_turn and n = 1
        and fuel = 13 and l = "NewLogger []" and cfg = demo_limited, OF demo_recovers demo_logs _ _ _ _ _ demo_turns demo_shows h]
    by auto
  then show ?thesis using demo_burst_answers h by simp
qed

end
