(* ===== verification/Spec2Isabelle.thy ===== *)
theory Spec2Isabelle
  imports Startup StressServed LivePaging MetricPages ConnectHistory LimitedHistory
begin

text \<open>
  A verification of the service of this repository: devices are configured with thresholds, send
  metrics, and a metric beyond a threshold raises alerts, which clients list page by page over REST
  or Connect.

  The theories and the code they model (paths under \<^verbatim>\<open>src/\<close>):

  \<^item> \<open>Prelude\<close>, \<open>GoFloat\<close>, \<open>GoTime\<close>, \<open>GoEncoding\<close>: outcomes (a value, an error, a panic), runs
    of stateful code, float64 as exact dyadic numbers with rounding, times and their RFC 3339 text,
    base64 and the JSON of a page token. They model what the program uses of Go's library.
  \<^item> \<open>Device\<close>: \<^verbatim>\<open>device/repository.go\<close>, the domain types and the Repository interface, with
    the locales that state what the service relies on.
  \<^item> \<open>Pagination\<close>: \<^verbatim>\<open>device/pagination.go\<close>, page tokens.
  \<^item> \<open>HttpError\<close>: \<^verbatim>\<open>http/error.go\<close>, errors and the two error middlewares.
  \<^item> \<open>Validation\<close>: \<^verbatim>\<open>http/req_validator.go\<close>, \<^verbatim>\<open>device/validation.go\<close>.
  \<^item> \<open>Sqlc\<close>: \<^verbatim>\<open>sqlite/sqlc\<close> and the migration: the generated queries on lists of rows. A
    statement may be given a fault of the engine, taken from the list \<open>db_faults\<close>.
  \<^item> \<open>Repository\<close>: \<^verbatim>\<open>sqlite/repository.go\<close>; its \<open>interpretation store\<close> discharges the laws
    of the interface, so that the lemmas of \<open>Service\<close> hold of the program.
  \<^item> \<open>Service\<close>: \<^verbatim>\<open>device/service.go\<close> over any repository.
  \<^item> \<open>Log\<close>: \<^verbatim>\<open>log/logger.go\<close>. \<open>Configuration\<close>: \<^verbatim>\<open>config/config.go\<close>.
    \<open>Connection\<close>: \<^verbatim>\<open>sqlite/conn.go\<close>.
  \<^item> \<open>Proto\<close>: \<^verbatim>\<open>proto/gen/iot/v1/service.pb.go\<close>, the messages. \<open>Handlers\<close>:
    \<^verbatim>\<open>device/echo_handler.go\<close>, \<^verbatim>\<open>device/connect_handler.go\<close>, \<^verbatim>\<open>device/device_id.go\<close>.
  \<^item> \<open>RateLimiter\<close>: \<^verbatim>\<open>rlimit/rate_limiter.go\<close>, \<^verbatim>\<open>http/rate_limit.go\<close>.
  \<^item> \<open>Server\<close>: \<^verbatim>\<open>http/log.go\<close>, \<^verbatim>\<open>http/recover.go\<close> and the chains of middlewares
    \<^verbatim>\<open>main.go\<close> builds. \<open>Rpc\<close>: \<^verbatim>\<open>proto/gen/iot/v1/iotv1connect/service.connect.go\<close>,
    the names, the client and the routing of the procedures.
  \<^item> \<open>Startup\<close>: \<^verbatim>\<open>http/server.go\<close>, \<^verbatim>\<open>sqlite/migrate.go\<close> and \<^verbatim>\<open>main.go\<close>, the start and
    the end of the program.
  \<^item> \<open>Cli\<close>: what the two programs hand to the command-line library, which is a parameter.
  \<^item> \<open>WorkerPool\<close>: \<^verbatim>\<open>cmd/stress/worker_pool.go\<close> as a transition system. \<open>Stress\<close>:
    \<^verbatim>\<open>cmd/stress/main.go\<close>, the flags, requests and jobs of the stress client; \<open>GoFloatRound\<close>, the
    float64 arithmetic they need. \<open>StressRun\<close>: its \<^verbatim>\<open>run\<close>, the goroutines on the pool as the
    components of one step function, with history variables and the invariant of its phases;
    \<open>StressOutcome\<close>: what every schedule comes to, and the exit status. \<open>StressServed\<close>: a job of
    the client against the server, through both and down to the database.
  \<^item> \<open>Reachability\<close>: the service on the repository as a transition system and the invariant of
    what is stored. \<open>Concurrency\<close>: the same with requests that overlap: \<open>call_step\<close> cuts
    \<open>RecordMetric\<close> at its calls of the repository, and \<open>sys_step\<close> interleaves any number of calls.
    \<open>LivePaging\<close>: listing alerts while other requests go on, over the locale \<open>growing_repository\<close>.
    \<open>MetricPages\<close>: the pages of metrics, which the repository offers and no handler uses yet.
    \<open>EndToEnd\<close>: a metric over REST and over Connect, through all the layers and back.
  \<^item> \<open>History\<close>: the abstract service, a function of a request and of the contents (configurations, metrics
    and alerts, no rows, ids or tokens), and the theorem that a list of requests to the service on the
    repository is answered as by it; over the locale \<open>strict_repository\<close>. \<open>RestHistory\<close> and
    \<open>ConnectHistory\<close>: the same for requests sent through the middlewares and handlers of a front end, whose
    client follows the page tokens itself, and that the two front ends answer alike. \<open>LimitedHistory\<close>: the
    same over REST with the rate limiter as a gate before every request and every page.

  The properties here are those of the service on its repository and of the two front ends; those of
  one component stand in its theory. They show, for the service: that whole histories of requests refine the
  abstract service, directly and over each front end, what each operation stores whatever the engine does,
  that listings are complete, in order and confined, and the invariant of everything reachable, also when
  requests overlap; for the limiter: that keys are isolated, under interleaving too, and which keys the
  collector forgets; for the front ends: that every request is answered and how errors are classified; for
  the program: what a start guarantees and what an interrupt does; for the stress client: that its pool
  drains, that under every schedule its setup ends, its configurations come before its metrics, its errors
  are accounted for and an interrupt ends it, and what the server stores of what it sends.

  The rows of a table are kept in the order of their ids (\<open>ids_ok\<close>), so the last row stored of a second is
  the first listed of it; \<open>newest_first\<close> says the same of the contents.

  Bounds. Following page tokens takes fuel, and one more than the number of alerts is proved enough; for a history,
  two more for each request sent, as a metric raises at most two alerts. A run of the pool
  of the stress client, its setup, and its run after an interrupt are bounded by a weight of the state.
  The integers of the code are \<open>int\<close> with the conversions to 32 and 64 bits written out. Row ids grow
  up to the largest int64, where SQLite reports a full table; a healthy database has room left.

  Not modelled: the frameworks (Echo, Connect, the SQLite driver, slog, golang-migrate, the token
  bucket, the random numbers, the health and reflection handlers), which are parameters with their documented behaviour, or, for SQL, the meaning of the
  statements; reflection data of the generated messages; the lines the stress client logs at info level
  and the time its pauses take; cancellation of a context inside a call other
  than as an error the call returns.
\<close>

text \<open>A database, a state and requests for the witnesses.\<close>

definition demo_db :: database where
  "demo_db = empty_db\<lparr>db_configs := [\<lparr>cr_DeviceID = ''d1'', cr_TemperatureThreshold = FFin False 61 (- 1),
     cr_BatteryThreshold = 20\<rparr>]\<rparr>"

definition demo_state :: "database svc_state" where
  "demo_state = \<lparr>st_store = demo_db, st_log = []\<rparr>"

definition demo_metric :: RecordMetricRequest where
  "demo_metric = \<lparr>rmr_DeviceID = ''d1'', rmr_Temperature = FFin False 31 0, rmr_Battery = 5,
     rmr_Timestamp = \<lparr>t_sec = 63881154000, t_nsec = 5, t_off = 7200\<rparr>\<rparr>"

definition demo_configure :: ConfigureDeviceRequest where
  "demo_configure = \<lparr>cdr_DeviceID = ''d2'', cdr_TemperatureThreshold = FFin False 40 0,
     cdr_BatteryThreshold = 15\<rparr>"

definition demo_logger :: Logger where
  "demo_logger = NewLogger []"

lemma demo_inv: "db_inv (st_store demo_state)"
  by (simp add: demo_state_def demo_db_def empty_db_def db_inv_def ids_ok_def max_rowid_def is_nan_def in_int32_def)

lemma demo_healthy: "healthy 3 (st_store demo_state)"
  by (simp add: demo_state_def demo_db_def empty_db_def healthy_def max_rowid_def)

lemma demo_metric_valid: "validateRecordMetricReq demo_metric = None" "\<not> is_nan (rmr_Temperature demo_metric)"
  by code_simp+

lemma demo_configure_valid:
  "validateConfigureDeviceReq demo_configure = None" "\<not> is_nan (cdr_TemperatureThreshold demo_configure)"
  by code_simp+

section \<open>Recording and configuring\<close>

text \<open>On a healthy database a valid metric is stored with its time to the second in UTC, and
  exactly the alerts the device's configuration calls for are stored after it, temperature first;
  every other device, and every configuration, is left alone.\<close>

lemma record_metric_refines:
  assumes "db_inv (st_store w)" and "healthy 3 (st_store w)"
    and "validateRecordMetricReq req = None" and "\<not> is_nan (rmr_Temperature req)"
  shows "\<exists>w'. RecordMetric (svc l) req w = (Ok (), w') \<and> db_inv (st_store w') \<and>
    db_view (st_store w') = recorded req (alerts_due (db_view (st_store w)) req) (db_view (st_store w))"
  using store.record_live [OF assms(1,2) svc_repo assms(3,4)]
    store.record_effect [OF assms(1) svc_repo] by blast

text \<open>C7. Whatever the database does, recording a metric does not panic, keeps the invariant of the
  tables, and either stores nothing and returns an error, or stores the metric of a valid request and
  then a prefix of the alerts of one configuration; the prefix is complete when the call succeeds.\<close>

theorem record_metric_outcomes:
  assumes "db_inv (st_store w)" and "RecordMetric (svc l) req w = (r, w')"
  shows "\<not> is_panic r \<and> db_inv (st_store w') \<and>
    ((\<exists>e. r = Err e) \<and> db_view (st_store w') = db_view (st_store w) \<or>
     validateRecordMetricReq req = None \<and> \<not> is_nan (rmr_Temperature req) \<and>
     (\<exists>as. alert_outcome (configs_of (st_store w) (rmr_DeviceID req)) req r as \<and>
       db_view (st_store w') = recorded req as (db_view (st_store w))))"
  using store.record_effect [OF assms(1) svc_repo assms(2)]
  by (auto simp: alert_outcome_def)

lemma record_metric_outcomes_witness:
  "\<not> is_panic (fst (RecordMetric (svc demo_logger) demo_metric (demo_state\<lparr>st_store := demo_db\<lparr>db_faults := [Some ErrCanceled]\<rparr>\<rparr>)))"
proof -
  let ?w = "demo_state\<lparr>st_store := demo_db\<lparr>db_faults := [Some ErrCanceled]\<rparr>\<rparr>"
  have "db_inv (st_store ?w)"
    using demo_inv by (auto simp: demo_state_def db_inv_def demo_db_def empty_db_def driver_error_def
        errors_Is_def ErrRepoItemNotFound_def)
  then show ?thesis
    using record_metric_outcomes [of ?w demo_logger demo_metric "fst (RecordMetric (svc demo_logger) demo_metric ?w)"
        "snd (RecordMetric (svc demo_logger) demo_metric ?w)"] by simp
qed

text \<open>C24. Whatever the database does, configuring a device does not panic, keeps the invariant, and
  either sets exactly the requested configuration of that device or returns an error and changes
  nothing.\<close>

theorem configure_device_outcomes:
  assumes "db_inv (st_store w)" and "ConfigureDevice (svc l) req w = (r, w')"
  shows "\<not> is_panic r \<and> db_inv (st_store w') \<and>
    (r = Ok () \<and> validateConfigureDeviceReq req = None \<and>
       db_view (st_store w') = set_config (cdr_DeviceID req) (requested_config req) (db_view (st_store w)) \<or>
     (\<exists>e. r = Err e) \<and> db_view (st_store w') = db_view (st_store w))"
  using store.configure_effect [OF assms(1) svc_repo assms(2)] by auto

lemma configure_device_outcomes_witness:
  "\<not> is_panic (fst (ConfigureDevice (svc demo_logger) demo_configure demo_state))"
  using configure_device_outcomes [OF demo_inv, of demo_logger demo_configure
      "fst (ConfigureDevice (svc demo_logger) demo_configure demo_state)"
      "snd (ConfigureDevice (svc demo_logger) demo_configure demo_state)"] by simp

text \<open>Thresholds take effect: after a device was configured on a healthy database, the next metric
  of that device is judged by the new thresholds, whatever was configured before.\<close>

lemma configured_thresholds_apply:
  assumes "db_inv (st_store w)" and "healthy 3 (st_store w)"
    and "validateConfigureDeviceReq creq = None" and "\<not> is_nan (cdr_TemperatureThreshold creq)"
    and "validateRecordMetricReq rreq = None" and "\<not> is_nan (rmr_Temperature rreq)"
    and "rmr_DeviceID rreq = cdr_DeviceID creq"
  shows "\<exists>w1 w2. ConfigureDevice (svc l) creq w = (Ok (), w1) \<and> RecordMetric (svc l) rreq w1 = (Ok (), w2) \<and>
    alerts_of (st_store w2) (rmr_DeviceID rreq) = alerts_of (st_store w) (rmr_DeviceID rreq) @
      map kept_alert (alerts_raised rreq (requested_config creq))"
proof -
  obtain w1 where w1: "ConfigureDevice (svc l) creq w = (Ok (), w1)" "healthy 3 (st_store w1)"
    using store.configure_live [OF assms(1,2) svc_repo assms(3,4)] by blast
  have v1: "db_inv (st_store w1)"
    "db_view (st_store w1) = set_config (cdr_DeviceID creq) (requested_config creq) (db_view (st_store w))"
    using store.configure_effect [OF assms(1) svc_repo w1(1)] by simp_all
  obtain w2 where w2: "RecordMetric (svc l) rreq w1 = (Ok (), w2)"
    "db_view (st_store w2) = recorded rreq (alerts_due (db_view (st_store w1)) rreq) (db_view (st_store w1))"
    using store.record_live [OF v1(1) w1(2) svc_repo assms(5,6)] by blast
  have "ct_alerts (db_view (st_store w2)) (rmr_DeviceID rreq) = ct_alerts (db_view (st_store w)) (rmr_DeviceID rreq) @
      map kept_alert (alerts_raised rreq (requested_config creq))"
    unfolding w2(2) v1(2) using assms(7)
    by (simp add: recorded_def alerts_due_def set_config_def)
  then show ?thesis using w1(1) w2(1) by auto
qed

section \<open>When the configuration cannot be read\<close>

text \<open>C30. A device without any configuration gets an alert when the read of its configuration fails: an
  error of the engine other than not-found is ignored, and the metric is judged by thresholds of zero.\<close>

theorem unreadable_config_alerts:
  assumes "db_inv (st_store w)" and "healthy 3 ((st_store w)\<lparr>db_faults := []\<rparr>)"
    and "db_faults (st_store w) = [None, Some e]"
    and "validateRecordMetricReq req = None" and "\<not> is_nan (rmr_Temperature req)"
  shows "\<exists>w'. RecordMetric (svc l) req w = (Ok (), w') \<and>
    alerts_of (st_store w') (rmr_DeviceID req) = alerts_of (st_store w) (rmr_DeviceID req) @
      map kept_alert (alerts_raised req zero_config)"
proof -
  let ?db = "st_store w"
  have drv: "driver_error e" using assms(1,3) by (auto simp: db_inv_def)
  have b: "in_int32 (rmr_Battery req)"
    using assms(4) by (simp add: validateRecord_None_iff battery_ok_def in_int32_def)
  obtain s1 where s1: "SaveDeviceMetric_repo (rmr_DeviceID req) (recorded_metric req) ?db = (Ok (), s1)"
    and f1: "db_faults s1 = [Some e]" and h1: "healthy 2 (s1\<lparr>db_faults := []\<rparr>)"
    using assms(2,3,5) by (auto simp: SaveDeviceMetric_repo_def SaveDeviceMetric_q_def db_call_def healthy_def)
  have inv1: "db_inv s1"
    and view1: "db_view s1 = add_metric (rmr_DeviceID req) (kept_metric (recorded_metric req)) (db_view ?db)"
    using metric_keeps [OF assms(1) _ s1] b by auto
  let ?l = "metric_logger (svc l) req"
  let ?w1 = "w\<lparr>st_store := s1\<rparr>"
  let ?w2 = "(log_info ?l ''recorded metric''
      [(''temperature'', LFloat (rmr_Temperature req)), (''battery'', LInt (rmr_Battery req))] ?w1)
      \<lparr>st_store := s1\<lparr>db_faults := []\<rparr>\<rparr>"
  have save: "in_store (repo_SaveDeviceMetric (sv_repo (svc l)) (rmr_DeviceID req) (recorded_metric req)) w = (Ok (), ?w1)"
    using s1 by (intro in_store_eq) (simp add: NewDeviceRepository_def)
  have "GetDeviceConfig_repo (rmr_DeviceID req) s1 = (Err (e, zero_config), s1\<lparr>db_faults := []\<rparr>)"
    using f1 drv by (simp add: GetDeviceConfig_repo_def GetDeviceConfig_q_def db_call_def driver_error_def)
  then have read: "in_store (repo_GetDeviceConfig (sv_repo (svc l)) (rmr_DeviceID req))
      (log_info ?l ''recorded metric'' [(''temperature'', LFloat (rmr_Temperature req)),
        (''battery'', LInt (rmr_Battery req))] ?w1) = (Err (e, zero_config), ?w2)"
    by (intro in_store_eq) (simp add: NewDeviceRepository_def)
  have "healthy (Suc (Suc 0)) (st_store ?w2)" using h1 by (simp add: numeral_2_eq_2)
  from store.raise_live [OF this svc_repo] obtain w' where
    run: "on_ok (check_temperature (svc l) ?l req zero_config) (\<lambda>_. check_battery (svc l) ?l req zero_config) ?w2 = (Ok (), w')"
    by blast
  have "db_inv (st_store ?w2)" using inv1 by (auto simp: db_inv_def)
  from store.raise_effect [OF this svc_repo run] have
    "db_view (st_store w') = add_alerts (rmr_DeviceID req) (map kept_alert (alerts_raised req zero_config)) (db_view s1)"
    by auto
  then have "ct_alerts (db_view (st_store w')) (rmr_DeviceID req) = alerts_of ?db (rmr_DeviceID req) @
      map kept_alert (alerts_raised req zero_config)" unfolding view1 by simp
  moreover have "RecordMetric (svc l) req w = (Ok (), w')"
    using save read run drv by (simp add: RecordMetric_valid assms(4) evaluate_thresholds_def driver_error_def)
  ultimately show ?thesis by simp
qed

lemma unreadable_config_alerts_witness:
  "\<exists>w'. RecordMetric (svc demo_logger) demo_metric
      \<lparr>st_store = empty_db\<lparr>db_faults := [None, Some ErrCanceled]\<rparr>, st_log = []\<rparr> = (Ok (), w') \<and>
    map al_Desc (alerts_of (st_store w') ''d1'') = [''Temperature (31.00) exceeded configured threshold (0.00)'']"
proof -
  let ?w = "\<lparr>st_store = empty_db\<lparr>db_faults := [None, Some ErrCanceled]\<rparr>, st_log = []\<rparr>"
  have "db_inv (st_store ?w)" "healthy 3 ((st_store ?w)\<lparr>db_faults := []\<rparr>)"
    "db_faults (st_store ?w) = [None, Some ErrCanceled]"
    by (auto simp: db_inv_def empty_db_def ids_ok_def max_rowid_def healthy_def driver_error_def errors_Is_def
        ErrRepoItemNotFound_def)
  from unreadable_config_alerts [OF this demo_metric_valid, of demo_logger] obtain w' where
    w': "RecordMetric (svc demo_logger) demo_metric ?w = (Ok (), w')"
    "alerts_of (st_store w') (rmr_DeviceID demo_metric) = alerts_of (st_store ?w) (rmr_DeviceID demo_metric) @
      map kept_alert (alerts_raised demo_metric zero_config)" by blast
  have "map al_Desc (map kept_alert (alerts_raised demo_metric zero_config)) =
      [''Temperature (31.00) exceeded configured threshold (0.00)'']" by code_simp
  moreover have "alerts_of (st_store ?w) d = []" for d by (simp add: alerts_of_def empty_db_def)
  moreover have "rmr_DeviceID demo_metric = ''d1''" by (simp add: demo_metric_def)
  ultimately show ?thesis using w' by auto
qed

text \<open>
  A NaN passes the validator and fails in the database, which has no NaN: the caller of a request
  that is out of range gets an internal error.
\<close>

lemma nan_metric_fails_inside:
  assumes "rmr_Temperature req = FNaN" and "\<not> isBlank (rmr_DeviceID req)" and "\<not> t_IsZero (rmr_Timestamp req)"
    and "battery_ok (rmr_Battery req)" and "db_faults (st_store w) = []"
  shows "validateRecordMetricReq req = None \<and>
    RecordMetric (svc l) req w = (Err (ErrWrapf ''save device metric'' (err_not_null ''metrics.temperature'')), w)"
proof -
  have valid: "validateRecordMetricReq req = None"
    using assms(1-4) by (simp add: validateRecord_None_iff temperature_ok_def)
  have "SaveDeviceMetric_repo (rmr_DeviceID req) (recorded_metric req) (st_store w) =
      (Err (err_not_null ''metrics.temperature''), st_store w)"
    using assms(1,5) by (simp add: SaveDeviceMetric_repo_def SaveDeviceMetric_q_def db_call_healthy is_nan_def)
  then show ?thesis using valid
    by (simp add: RecordMetric_valid on_ok_def wrap_err_def in_store_def NewDeviceRepository_def)
qed

section \<open>Listing alerts\<close>

text \<open>C2. A client that follows the page tokens from the first page to the last sees exactly the alerts of the
  device in the timeframe, newest first, and of those of one second the one raised last first, whatever page
  size it asks for; one request more than there are alerts is always enough.\<close>

theorem alerts_listed_completely:
  assumes "db_inv (st_store w)" and "healthy k (st_store w)"
    and "validateGetDeviceAlertsReq req = None" and "gar_PageToken req = []"
    and "\<forall>a \<in> set (alerts_of (st_store w) (gar_DeviceID req)). json_time_ok (al_Time a)"
    and "length (alerts_of (st_store w) (gar_DeviceID req)) < fuel"
  shows "follow_pages fuel (svc l) req w =
    (Ok (Some (newest_first al_Time (request_timeframe req) (alerts_of (st_store w) (gar_DeviceID req)))), w)"
proof -
  note listing = store.listing_law [OF assms(1), of "gar_DeviceID req" "request_timeframe req", symmetric]
  have "length (newest_first al_Time (request_timeframe req) (alerts_of (st_store w) (gar_DeviceID req))) < fuel"
    using assms(6) by (rule order.strict_trans1 [OF newest_first_length])
  then show ?thesis
    using assms listing by (subst store.follow_listing) (simp_all add: store.issued_start request_token_def)
qed

definition demo_list :: GetDeviceAlertsRequest where
  "demo_list = \<lparr>gar_DeviceID = ''d1'', gar_TimeframeStart = Some (unix_utc 100), gar_TimeframeEnd = None,
     gar_PageSize = 2, gar_PageToken = []\<rparr>"

definition demo_alerts_db :: database where
  "demo_alerts_db = demo_db\<lparr>db_alerts_seq := 4, db_alerts :=
     [\<lparr>ar_ID = 1, ar_DeviceID = ''d1'', ar_Reason = ''BATTERY_LOW'', ar_Desc = ''a'', ar_Timestamp = 200\<rparr>,
      \<lparr>ar_ID = 2, ar_DeviceID = ''d1'', ar_Reason = ''BATTERY_LOW'', ar_Desc = ''b'', ar_Timestamp = 200\<rparr>,
      \<lparr>ar_ID = 3, ar_DeviceID = ''d2'', ar_Reason = ''BATTERY_LOW'', ar_Desc = ''c'', ar_Timestamp = 300\<rparr>,
      \<lparr>ar_ID = 4, ar_DeviceID = ''d1'', ar_Reason = ''BATTERY_LOW'', ar_Desc = ''d'', ar_Timestamp = 400\<rparr>]\<rparr>"

definition demo_alerts_state :: "database svc_state" where
  "demo_alerts_state = \<lparr>st_store = demo_alerts_db, st_log = []\<rparr>"

lemma demo_alerts_inv: "db_inv (st_store demo_alerts_state)"
  by (simp add: demo_alerts_state_def demo_alerts_db_def demo_db_def empty_db_def db_inv_def ids_ok_def
      max_rowid_def is_nan_def in_int32_def in_int64_def)

lemma demo_alerts_healthy: "healthy 0 (st_store demo_alerts_state)"
  by (simp add: demo_alerts_state_def demo_alerts_db_def demo_db_def empty_db_def healthy_def max_rowid_def)

lemma demo_list_valid: "validateGetDeviceAlertsReq demo_list = None" "gar_PageToken demo_list = []"
  by code_simp+

lemma demo_alerts_of:
  "alerts_of (st_store demo_alerts_state) (gar_DeviceID demo_list) =
    [\<lparr>al_Reason = ''BATTERY_LOW'', al_Desc = ''a'', al_Time = unix_utc 200\<rparr>,
     \<lparr>al_Reason = ''BATTERY_LOW'', al_Desc = ''b'', al_Time = unix_utc 200\<rparr>,
     \<lparr>al_Reason = ''BATTERY_LOW'', al_Desc = ''d'', al_Time = unix_utc 400\<rparr>]"
  by (simp add: alerts_of_def demo_alerts_state_def demo_alerts_db_def demo_list_def alert_of_row_def)

lemma demo_times: "json_time_ok (unix_utc 200)" "json_time_ok (unix_utc 400)"
  by code_simp+

lemma alerts_listed_completely_witness:
  "\<exists>as. follow_pages 4 (svc demo_logger) demo_list demo_alerts_state = (Ok (Some as), demo_alerts_state) \<and>
    map al_Desc as = [''d'', ''b'', ''a'']"
proof -
  have "\<forall>a \<in> set (alerts_of (st_store demo_alerts_state) (gar_DeviceID demo_list)). json_time_ok (al_Time a)"
    by (simp add: demo_alerts_of demo_times)
  moreover have "length (alerts_of (st_store demo_alerts_state) (gar_DeviceID demo_list)) < 4"
    by (simp add: demo_alerts_of)
  ultimately have "follow_pages 4 (svc demo_logger) demo_list demo_alerts_state =
      (Ok (Some (newest_first al_Time (request_timeframe demo_list) (alerts_of (st_store demo_alerts_state) (gar_DeviceID demo_list)))),
       demo_alerts_state)"
    by (rule alerts_listed_completely [OF demo_alerts_inv demo_alerts_healthy demo_list_valid])
  then show ?thesis
    unfolding demo_alerts_of by (simp add: newest_first_def request_timeframe_def demo_list_def in_timeframe_def in_int64_def)
qed

text \<open>C26. Whatever token a client sends, forged or not, a page shows only alerts of the device it asked
  for that lie in the timeframe it asked for, and never more than 250 of them.\<close>

theorem alerts_page_confined:
  assumes "db_inv (st_store w)" and "GetDeviceAlerts (svc l) req w = (Ok reply, w')"
  shows "length (gares_Alerts reply) \<le> 250 \<and>
    int (length (gares_Alerts reply)) \<le> page_size (gar_PageSize req) \<and>
    (\<forall>a \<in> set (gares_Alerts reply). a \<in> set (alerts_of (st_store w) (gar_DeviceID req)) \<and>
       in_timeframe (request_timeframe req) (al_Time a))"
proof -
  have "0 \<le> gar_PageSize req"
    using assms(2) validateAlerts_None_iff [of req]
    by (cases "validateGetDeviceAlertsReq req") (auto simp: GetDeviceAlerts_refused)
  then show ?thesis
    using store.alerts_bound [OF svc_repo assms(2)] store.alerts_shown [OF assms(1) svc_repo assms(2)]
      page_size_bounds [of "gar_PageSize req"] by auto
qed

lemma alerts_page_confined_witness:
  "\<exists>reply. fst (GetDeviceAlerts (svc demo_logger) demo_list demo_alerts_state) = Ok reply \<and>
    length (gares_Alerts reply) \<le> 250"
proof -
  have "\<forall>a \<in> set (ct_alerts (db_view (st_store demo_alerts_state)) (gar_DeviceID demo_list)). json_time_ok (al_Time a)"
    by (simp add: demo_alerts_of demo_times)
  moreover have "request_token demo_list = Some None" by (simp add: request_token_def demo_list_def)
  ultimately obtain reply w' where r: "GetDeviceAlerts (svc demo_logger) demo_list demo_alerts_state = (Ok reply, w')"
    using store.alerts_page [OF demo_alerts_inv demo_alerts_healthy svc_repo demo_list_valid(1) _ _ store.issued_start refl refl]
    by blast
  from alerts_page_confined [OF demo_alerts_inv r] r show ?thesis by auto
qed

text \<open>Listing alerts changes no data and panics only for a token that decodes to one without a time.\<close>

lemma alerts_read_only:
  assumes "db_inv (st_store w)" and "GetDeviceAlerts (svc l) req w = (r, w')"
  shows "db_inv (st_store w') \<and> db_view (st_store w') = db_view (st_store w) \<and> st_log w' = st_log w \<and>
    (is_panic r \<longrightarrow> (\<exists>t. decodePageToken (gar_PageToken req) = Some t \<and> LastTime t = None))"
proof -
  have "\<exists>t. decodePageToken (gar_PageToken req) = Some t \<and> LastTime t = None" if "is_panic r"
  proof (rule ccontr)
    assume no: "\<not> (\<exists>t. decodePageToken (gar_PageToken req) = Some t \<and> LastTime t = None)"
    have "LastTime t \<noteq> None" if "request_token req = Some (Some t)" for t
      using no that by (auto simp: request_token_def split: if_splits)
    then show False using store.alerts_no_panic [OF svc_repo] that assms(2) by (metis fst_conv)
  qed
  then show ?thesis using store.alerts_keep [OF assms(1) svc_repo assms(2)] by simp
qed

text \<open>C35. Such a token exists, and any client can send it: \<^verbatim>\<open>e30\<close>, the encoding of an empty JSON
  object, makes every otherwise valid request a nil dereference.\<close>

theorem empty_token_panics:
  assumes "validateGetDeviceAlertsReq req = None" and "gar_PageToken req = ''e30''"
  shows "GetDeviceAlerts (svc l) req w = (Panic nil_deref, w)"
proof -
  have "request_token req = Some (Some zero_token)"
    using assms(2) by (simp add: request_token_def empty_object_token)
  then show ?thesis using assms(1)
    by (simp add: GetDeviceAlerts_valid on_ok_def wrap_err_def in_store_def NewDeviceRepository_def
        GetDeviceAlerts_repo_def cursor_params_def zero_token_def)
qed

lemma empty_token_panics_witness:
  "fst (GetDeviceAlerts (svc demo_logger) (demo_list\<lparr>gar_PageToken := ''e30''\<rparr>) demo_alerts_state) = Panic nil_deref"
proof -
  have "validateGetDeviceAlertsReq (demo_list\<lparr>gar_PageToken := ''e30''\<rparr>) = None" by code_simp
  from empty_token_panics [OF this] show ?thesis by simp
qed

section \<open>Times beyond the year 9999\<close>


text \<open>Any device can bring such an alert about: a far time is valid.\<close>

definition far_metric :: RecordMetricRequest where
  "far_metric = demo_metric\<lparr>rmr_Timestamp := unix_utc 253402300800\<rparr>"

definition far_state :: "database svc_state" where
  "far_state = snd (RecordMetric (svc demo_logger) far_metric demo_state)"

definition far_list :: GetDeviceAlertsRequest where
  "far_list = \<lparr>gar_DeviceID = ''d1'', gar_TimeframeStart = None, gar_TimeframeEnd = None,
     gar_PageSize = 1, gar_PageToken = []\<rparr>"

lemma far_valid: "validateRecordMetricReq far_metric = None" "validateGetDeviceAlertsReq far_list = None"
  by code_simp+

lemma far_alerts:
  "map (\<lambda>a. t_year (al_Time a)) (alerts_of (st_store far_state) ''d1'') = [10000, 10000]"
  "fst (RecordMetric (svc demo_logger) far_metric demo_state) = Ok ()"
  "db_faults (st_store far_state) = [] \<and> db_metrics_seq (st_store far_state) < 9 \<and> db_alerts_seq (st_store far_state) < 9"
  by code_simp+


section \<open>What is stored\<close>

text \<open>In every state the service reaches, by any calls and any faults of the engine, each alert of a
  device has a recorded metric of that device with the same time whose reading is beyond the
  threshold the alert quotes; and there are at most two alerts per metric.\<close>

lemma alerts_are_justified:
  assumes "reach l w"
  shows "(\<forall>a \<in> set (alerts_of (st_store w) d). \<exists>m \<in> set (metrics_of (st_store w) d). justified m a) \<and>
    length (alerts_of (st_store w) d) \<le> 2 * length (metrics_of (st_store w) d)"
  using reach_invariant [OF assms] by (auto simp: contents_ok_def)

definition reached_state :: "database svc_state" where
  "reached_state = snd (RecordMetric (svc demo_logger) demo_metric
     (snd (ConfigureDevice (svc demo_logger) (demo_configure\<lparr>cdr_DeviceID := ''d1''\<rparr>) \<lparr>st_store = empty_db, st_log = []\<rparr>)))"

lemma reached: "reach demo_logger reached_state"
  unfolding reached_state_def
  by (rule reach.record_call [OF reach.configure [OF reach.start]], rule prod.collapse [symmetric],
      rule prod.collapse [symmetric])

text \<open>In every state the service reaches, every stored threshold and every stored reading is a number
  within the limits of the validators.\<close>

lemma stored_values_in_range:
  assumes "reach l w"
  shows "(\<forall>c. configs_of (st_store w) d = Some c \<longrightarrow> f_finite (cfg_TemperatureThreshold c) \<and>
      \<bar>f_real (cfg_TemperatureThreshold c)\<bar> \<le> 10000 \<and> 0 \<le> cfg_BatteryThreshold c \<and> cfg_BatteryThreshold c \<le> 100) \<and>
    (\<forall>m \<in> set (metrics_of (st_store w) d). f_finite (met_Temperature m) \<and> \<bar>f_real (met_Temperature m)\<bar> \<le> 10000 \<and>
      0 \<le> met_Battery m \<and> met_Battery m \<le> 100)"
proof -
  have ok: "contents_ok (db_view (st_store w))" and inv: "db_inv (st_store w)"
    using reach_invariant [OF assms] by simp_all
  have num: "f_finite t \<and> \<bar>f_real t\<bar> \<le> 10000" if "temperature_ok t" "\<not> is_nan t" for t
    using that by (auto simp: temperature_ok_def is_nan_def)
  show ?thesis
    using ok config_stored [OF inv] num by (auto simp: contents_ok_def metric_ok_def battery_ok_def)
qed

section \<open>The two front ends\<close>

text \<open>The Connect handler and the REST handler do the same: for messages and requests that carry the
  same values they leave the same state, and one returns an error exactly when the other does,
  the same one.\<close>

lemma front_ends_agree:
  assumes "BindC c = Inr \<lparr>cdr_DeviceID = pcd_DeviceId m, cdr_TemperatureThreshold = pcd_TemperatureThreshold m,
      cdr_BatteryThreshold = pcd_BatteryThreshold m\<rparr>"
    and "BindM c = Inr (record_request_of AsTime r)"
  shows "ConfigureDevice_echo BindC S c w = created (ConfigureDevice_connect S m w) \<and>
    RecordMetric_echo BindM S c w = created (RecordMetric_connect AsTime S r w)"
  using assms
  by (auto simp: ConfigureDevice_connect_def ConfigureDevice_echo_def RecordMetric_connect_def
      RecordMetric_echo_def on_ok_def created_def split: prod.split outcome.split)

text \<open>C28. A Connect client sees each alert of a listing with a definite reason, and with the description
  and time the service stored; reasons are never unspecified.\<close>

theorem connect_listing_reasons:
  assumes "reach l w" and "GetDeviceAlerts_connect AsTime ts_New (svc l) msg w = (Ok reply, w')"
  shows "\<exists>as. set as \<subseteq> set (alerts_of (st_store w) (pga_DeviceId msg)) \<and> pgr_Alerts reply = map (Alert_Proto ts_New) as \<and>
    (\<forall>p \<in> set (pgr_Alerts reply). pal_Reason p \<noteq> REASON_UNSPECIFIED)"
proof -
  obtain res where res: "GetDeviceAlerts (svc l) (alerts_request_of AsTime msg) w = (Ok res, w')"
    and reply: "pgr_Alerts reply = map (Alert_Proto ts_New) (gares_Alerts res)"
    using assms(2) by (auto simp: GetDeviceAlerts_connect_def on_ok_def split: prod.splits outcome.splits)
  have inv: "db_inv (st_store w)" and ok: "contents_ok (db_view (st_store w))"
    using reach_invariant [OF assms(1)] by simp_all
  have sub: "set (gares_Alerts res) \<subseteq> set (alerts_of (st_store w) (pga_DeviceId msg))"
    using store.alerts_shown [OF inv svc_repo res] by (auto simp: alerts_request_of_def)
  have "AlertReason_Proto (al_Reason a) \<noteq> REASON_UNSPECIFIED" if "a \<in> set (gares_Alerts res)" for a
    using that sub ok by (fastforce simp: contents_ok_def justified_def AlertReason_Proto_unspecified_iff)
  then show ?thesis using sub reply by (auto simp: Alert_Proto_def)
qed

definition demo_msg :: "int GetDeviceAlertsRequestPb" where
  "demo_msg = \<lparr>pga_DeviceId = ''d1'', pga_Timeframe = None, pga_PageSize = 2, pga_PageToken = []\<rparr>"

lemma demo_reply: "fst (GetDeviceAlerts_connect unix_utc t_Unix (svc demo_logger) demo_msg reached_state) =
  Ok \<lparr>pgr_Alerts = [\<lparr>pal_Timestamp = Some 1745557200, pal_Reason = REASON_BATTERY_LOW,
     pal_Description = ''Battery (5) dropped below configured threshold (15)''\<rparr>], pgr_NextPageToken = []\<rparr>"
  by code_simp

lemma connect_listing_reasons_witness:
  "\<exists>r. fst (GetDeviceAlerts_connect unix_utc t_Unix (svc demo_logger) demo_msg reached_state) = Ok r \<and>
   pgr_Alerts r \<noteq> [] \<and> list_all (\<lambda>p. pal_Reason p \<noteq> REASON_UNSPECIFIED) (pgr_Alerts r)"
proof -
  obtain r w' where r: "GetDeviceAlerts_connect unix_utc t_Unix (svc demo_logger) demo_msg reached_state = (Ok r, w')"
    "pgr_Alerts r \<noteq> []"
    using demo_reply by (cases "GetDeviceAlerts_connect unix_utc t_Unix (svc demo_logger) demo_msg reached_state") auto
  from connect_listing_reasons [OF reached r(1)] r show ?thesis by (auto simp: list_all_iff)
qed

end
